(* ===== verification/Prelude.thy ===== *)
theory Prelude
  imports Main "HOL-Library.Word" "HOL-Library.Monad_Syntax"
begin

text \<open>
  Prelude of the development: the fact collections, the machine types, and the model of the
  memory a C++ function reads through a raw \<open>char const*\<close>.

  A buffer is the list of the bytes of the \<^emph>\<open>allocation\<close> (for the session: the whole vector
  \<open>receive_buffer_\<close>), a pointer into it is an index, and the \<open>last\<close> pointer of the parser is
  an index that may be smaller than the length of the allocation.  Reading outside the
  allocation is undefined behaviour in C++; \<open>rd\<close> makes it the value \<open>None\<close>, and a function
  of the model that returns \<open>None\<close> is one that reaches undefined behaviour.
\<close>

named_theorems rd_simps "reads through a pointer into a buffer"
named_theorems scan_simps "loops that move a pointer over a buffer"
named_theorems frame_simps "fields an operation does not write"

type_synonym u8 = "8 word"
type_synonym u16 = "16 word"
type_synonym u64 = "64 word"

text \<open>
  How a function can end without a result: an exception of the standard library the source can
  raise, another exception derived from \<open>std::exception\<close> that application code throws, an
  exception that is not derived from it, or a failed \<open>assert\<close> (the build type is Debug, so the
  assertions are compiled in and end the process).
\<close>

datatype cpp_exn =
  Length_error | Out_of_range | Bad_function_call | Bad_weak_ptr | Runtime_error string | App_exception | Foreign_exception | Assertion_failed

definition is_std_exn :: "cpp_exn \<Rightarrow> bool" where
  "is_std_exn e \<longleftrightarrow> e \<noteq> Foreign_exception \<and> e \<noteq> Assertion_failed"

subsection \<open>Reads through a pointer\<close>

definition rd :: "char list \<Rightarrow> nat \<Rightarrow> char option" where
  "rd mem i = (if i < length mem then Some (mem ! i) else None)"

lemma rd_in [rd_simps]: "i < length mem \<Longrightarrow> rd mem i = Some (mem ! i)"
  by (simp add: rd_def)

lemma rd_out: "length mem \<le> i \<Longrightarrow> rd mem i = None"
  by (simp add: rd_def)

lemma rd_None_iff: "rd mem i = None \<longleftrightarrow> length mem \<le> i"
  by (simp add: rd_def)

lemma rd_Some_lt: "rd mem i = Some c \<Longrightarrow> i < length mem"
  by (simp add: rd_def split: if_splits)

lemma rd_in_set: "rd mem i = Some c \<Longrightarrow> c \<in> set mem"
  by (auto simp: rd_def split: if_splits)

lemma rd_append_left [rd_simps]: "i < length xs \<Longrightarrow> rd (xs @ ys) i = rd xs i"
  by (simp add: rd_def nth_append)

text \<open>\<open>at mem i xs\<close>: the bytes of the buffer from index \<open>i\<close> on start with \<open>xs\<close>.\<close>

fun at :: "char list \<Rightarrow> nat \<Rightarrow> char list \<Rightarrow> bool" where
  "at mem i [] \<longleftrightarrow> True"
| "at mem i (c # cs) \<longleftrightarrow> rd mem i = Some c \<and> at mem (Suc i) cs"

lemma at_append [simp]: "at mem i (xs @ ys) \<longleftrightarrow> at mem i xs \<and> at mem (i + length xs) ys"
  by (induction xs arbitrary: i) auto

lemma at_prefix: "at (pre @ xs @ post) (length pre) xs"
proof (induction xs arbitrary: pre)
  case Nil
  show ?case by simp
next
  case (Cons x xs)
  from Cons [of "pre @ [x]"] show ?case by (simp add: rd_def nth_append)
qed

lemma at_whole: "at (xs @ post) 0 xs"
  using at_prefix [of "[]" xs post] by simp

lemma at_length: "at mem i xs \<Longrightarrow> xs \<noteq> [] \<Longrightarrow> i + length xs \<le> length mem"
proof (induction xs arbitrary: i)
  case Nil
  then show ?case by simp
next
  case (Cons x xs)
  then have "rd mem i = Some x" and rest: "at mem (Suc i) xs" by auto
  then have lt: "i < length mem" by (auto dest: rd_Some_lt)
  show ?case
  proof (cases "xs = []")
    case True
    with lt show ?thesis by simp
  next
    case False
    from Cons.IH [OF rest False] show ?thesis by simp
  qed
qed

lemma at_rd: "at mem i xs \<Longrightarrow> k < length xs \<Longrightarrow> rd mem (i + k) = Some (xs ! k)"
proof (induction xs arbitrary: i k)
  case Nil
  then show ?case by simp
next
  case (Cons x xs)
  then show ?case using Cons.IH [of "Suc i"] by (cases k) auto
qed

text \<open>\<open>bytes mem a b\<close>: the bytes of the half-open range \<open>[a, b)\<close>, empty when \<open>b \<le> a\<close>.\<close>

definition bytes :: "'a list \<Rightarrow> nat \<Rightarrow> nat \<Rightarrow> 'a list" where
  "bytes mem a b = take (b - a) (drop a mem)"

lemma bytes_same [simp]: "bytes mem a a = []"
  by (simp add: bytes_def)

lemma length_bytes: "b \<le> length mem \<Longrightarrow> length (bytes mem a b) = b - a"
  by (simp add: bytes_def)

lemma set_bytes: "set (bytes mem a b) \<subseteq> set mem"
  by (auto simp: bytes_def dest: in_set_takeD in_set_dropD)

lemma bytes_Suc: "a < b \<Longrightarrow> rd mem a = Some c \<Longrightarrow> bytes mem a b = c # bytes mem (Suc a) b"
  by (auto simp: bytes_def rd_def split: if_splits)
     (metis Cons_nth_drop_Suc Suc_diff_Suc take_Suc_Cons)

lemma at_bytes: "at mem i xs \<Longrightarrow> bytes mem i (i + length xs) = xs"
proof (induction xs arbitrary: i)
  case Nil
  then show ?case by simp
next
  case (Cons x xs)
  then have "bytes mem (Suc i) (Suc i + length xs) = xs"
    using Cons.IH [of "Suc i"] by simp
  with Cons.prems show ?case by (simp add: bytes_Suc [where c = x])
qed

lemma at_bytesI: "at mem i xs \<Longrightarrow> j = i + length xs \<Longrightarrow> bytes mem i j = xs"
  by (simp add: at_bytes)

text \<open>A \<open>std::string\<close> is followed by a NUL that its past-the-end iterator designates.\<close>

definition nul :: char where
  "nul = CHR 0x00"

definition str_at :: "string \<Rightarrow> nat \<Rightarrow> char" where
  "str_at s i = (if i < length s then s ! i else nul)"

subsection \<open>Lists\<close>

lemma takeWhile_eq_self: "(\<And>x. x \<in> set xs \<Longrightarrow> P x) \<Longrightarrow> takeWhile P xs = xs"
  by (rule takeWhile_eq_all_conv [THEN iffD2]) auto

lemma option_bind_Some_iff:
  "Option.bind m f = Some y \<longleftrightarrow> (\<exists>x. m = Some x \<and> f x = Some y)"
  by (cases m) auto

lemma sum_bind_Some_iff:
  "(case r of Inl e \<Rightarrow> Some (Inl e) | Inr x \<Rightarrow> f x) = Some (Inr y)
     \<longleftrightarrow> (\<exists>x. r = Inr x \<and> f x = Some (Inr y))"
  by (cases r) auto

lemma option_bind_not_None:
  "m = Some x \<Longrightarrow> f x \<noteq> None \<Longrightarrow> Option.bind m f \<noteq> None"
  by auto

end
