(* ===== verification/Cpp_Library.thy ===== *)
theory Cpp_Library
  imports Prelude
begin

text \<open>
  What the source uses of the C and C++ standard library: searching and replacing in
  \<open>std::string\<close>, decimal conversion, the character classes of the "C" locale, and
  \<open>std::unordered_map\<close>.  Strings are byte lists, positions are naturals, \<open>npos\<close> is \<open>None\<close>.
\<close>

subsection \<open>Searching in strings\<close>

text \<open>\<open>s.find(d, pos)\<close> for a character and \<open>s.find(sub, pos)\<close> for a string.\<close>

function find_char :: "string \<Rightarrow> char \<Rightarrow> nat \<Rightarrow> nat option" where
  "find_char s d pos =
     (if pos < length s then
        if s ! pos = d then Some pos else find_char s d (Suc pos)
      else None)"
  by pat_completeness auto
termination
  by (relation "measure (\<lambda>(s, d, pos). length s - pos)") auto

declare find_char.simps [simp del]

function find_str :: "string \<Rightarrow> string \<Rightarrow> nat \<Rightarrow> nat option" where
  "find_str s sub pos =
     (if pos + length sub \<le> length s then
        if take (length sub) (drop pos s) = sub then Some pos else find_str s sub (Suc pos)
      else None)"
  by pat_completeness auto
termination
  by (relation "measure (\<lambda>(s, sub, pos). Suc (length s) - pos)") auto

declare find_str.simps [simp del]

lemma find_char_Some:
  assumes "find_char s d pos = Some i"
  shows "pos \<le> i \<and> i < length s \<and> s ! i = d \<and> d \<notin> set (bytes s pos i)"
  using assms
proof (induction s d pos rule: find_char.induct)
  case (1 s d pos)
  show ?case
  proof (cases "pos < length s \<and> s ! pos \<noteq> d")
    case True
    with "1" have ih: "Suc pos \<le> i \<and> i < length s \<and> s ! i = d \<and> d \<notin> set (bytes s (Suc pos) i)"
      by (simp add: find_char.simps [of s d pos])
    have "bytes s pos i = s ! pos # bytes s (Suc pos) i"
      by (rule bytes_Suc) (use ih True in \<open>auto simp: rd_def\<close>)
    with ih True show ?thesis by auto
  next
    case False
    with "1.prems" show ?thesis
      by (auto simp: find_char.simps [of s d pos] split: if_splits)
  qed
qed

lemma find_char_None:
  "find_char s d pos = None \<Longrightarrow> d \<notin> set (drop pos s)"
proof (induction s d pos rule: find_char.induct)
  case (1 s d pos)
  show ?case
  proof (cases "pos < length s")
    case True
    with "1" have "d \<notin> set (drop (Suc pos) s)" and "s ! pos \<noteq> d"
      by (auto simp: find_char.simps [of s d pos] split: if_splits)
    with True show ?thesis by (metis Cons_nth_drop_Suc set_ConsD)
  qed simp
qed

lemma find_str_Some:
  assumes "find_str s sub pos = Some i"
  shows "pos \<le> i \<and> i + length sub \<le> length s \<and> take (length sub) (drop i s) = sub"
  using assms
proof (induction s sub pos rule: find_str.induct)
  case (1 s sub pos)
  then show ?case
    by (cases "pos + length sub \<le> length s \<and> take (length sub) (drop pos s) \<noteq> sub")
       (auto simp: find_str.simps [of s sub pos] split: if_splits)
qed

lemma find_str_first:
  assumes "find_str s sub pos = Some i" "pos \<le> j" "j < i"
  shows "take (length sub) (drop j s) \<noteq> sub"
  using assms
proof (induction s sub pos rule: find_str.induct)
  case (1 s sub pos)
  have step: "find_str s sub (Suc pos) = Some i" "take (length sub) (drop pos s) \<noteq> sub"
    "pos + length sub \<le> length s"
    using "1.prems" by (auto simp: find_str.simps [of s sub pos] split: if_splits)
  show ?case
  proof (cases "j = pos")
    case True
    with step show ?thesis by simp
  next
    case False
    with "1.IH" step "1.prems" show ?thesis by simp
  qed
qed

lemma find_str_None:
  "find_str s sub pos = None \<Longrightarrow> pos \<le> j \<Longrightarrow> j + length sub \<le> length s
     \<Longrightarrow> take (length sub) (drop j s) \<noteq> sub"
proof (induction s sub pos rule: find_str.induct)
  case (1 s sub pos)
  have step: "find_str s sub (Suc pos) = None" "take (length sub) (drop pos s) \<noteq> sub"
    using "1.prems" by (auto simp: find_str.simps [of s sub pos] split: if_splits)
  show ?case
  proof (cases "j = pos")
    case True
    with step show ?thesis by simp
  next
    case False
    with "1" step show ?thesis by simp
  qed
qed

text \<open>
  \<open>s.replace(pos, n, with)\<close>: throws \<open>out_of_range\<close> for \<open>pos > size()\<close>.  The position is a
  64-bit \<open>size_t\<close>, so that the source's \<open>key_pos - 1\<close> wraps to the largest value for 0.
\<close>

definition replace_at :: "string \<Rightarrow> u64 \<Rightarrow> nat \<Rightarrow> string \<Rightarrow> cpp_exn + string" where
  "replace_at s pos n w =
     (if length s < unat pos then Inl Out_of_range
      else Inr (take (unat pos) s @ w @ drop (unat pos + n) s))"

subsection \<open>Decimal conversion: std::to_string and atoi\<close>

definition digit_char :: "nat \<Rightarrow> char" where
  "digit_char d = char_of (48 + d)"

fun to_string_nat :: "nat \<Rightarrow> string" where
  "to_string_nat n =
     (if n < 10 then [digit_char n] else to_string_nat (n div 10) @ [digit_char (n mod 10)])"

declare to_string_nat.simps [simp del]

definition to_string_int :: "int \<Rightarrow> string" where
  "to_string_int i = (if i < 0 then CHR ''-'' # to_string_nat (nat (- i)) else to_string_nat (nat i))"

definition is_dec :: "char \<Rightarrow> bool" where
  "is_dec c \<longleftrightarrow> 48 \<le> (of_char c :: nat) \<and> (of_char c :: nat) \<le> 57"

definition dec_val :: "char \<Rightarrow> nat" where
  "dec_val c = of_char c - 48"

text \<open>White space of the "C" locale: HT, LF, VT, FF, CR and space.\<close>

definition is_space_c :: "char \<Rightarrow> bool" where
  "is_space_c c \<longleftrightarrow> (of_char c :: nat) = 32 \<or> (9 \<le> (of_char c :: nat) \<and> (of_char c :: nat) \<le> 13)"

fun read_dec :: "nat \<Rightarrow> string \<Rightarrow> nat" where
  "read_dec acc [] = acc"
| "read_dec acc (c # cs) = (if is_dec c then read_dec (10 * acc + dec_val c) cs else acc)"

definition int_min :: int where
  "int_min = - 2147483648"

definition int_max :: int where
  "int_max = 2147483647"

text \<open>
  \<open>std::atoi\<close>: leading white space, an optional sign, then digits up to the first other byte
  (0 when there is none).  A value that an \<open>int\<close> cannot represent is undefined behaviour.
\<close>

definition atoi :: "string \<Rightarrow> int option" where
  "atoi s =
     (let t = dropWhile is_space_c s;
          v = (case t of
                 [] \<Rightarrow> 0
               | c # cs \<Rightarrow>
                   if c = CHR ''-'' then - int (read_dec 0 cs)
                   else if c = CHR ''+'' then int (read_dec 0 cs)
                   else int (read_dec 0 (c # cs)))
      in if int_min \<le> v \<and> v \<le> int_max then Some v else None)"

lemma of_digit_char [simp]: "d < 10 \<Longrightarrow> (of_char (digit_char d) :: nat) = 48 + d"
  by (simp add: digit_char_def)

lemma is_dec_digit [simp]: "d < 10 \<Longrightarrow> is_dec (digit_char d)"
  by (simp add: is_dec_def)

lemma dec_val_digit [simp]: "d < 10 \<Longrightarrow> dec_val (digit_char d) = d"
  by (simp add: dec_val_def)

lemma to_string_nat_dec: "c \<in> set (to_string_nat n) \<Longrightarrow> is_dec c"
proof (induction n rule: to_string_nat.induct)
  case (1 n)
  then show ?case by (subst (asm) to_string_nat.simps) (auto split: if_splits)
qed

lemma to_string_nat_nonempty [simp]: "to_string_nat n \<noteq> []"
  by (subst to_string_nat.simps) simp

lemma read_dec_append:
  "(\<And>c. c \<in> set xs \<Longrightarrow> is_dec c) \<Longrightarrow> read_dec acc (xs @ ys) = read_dec (read_dec acc xs) ys"
  by (induction xs arbitrary: acc) auto

lemma read_dec_to_string: "read_dec 0 (to_string_nat n) = n"
proof (induction n rule: to_string_nat.induct)
  case (1 n)
  show ?case
  proof (cases "n < 10")
    case True
    then show ?thesis by (subst to_string_nat.simps) simp
  next
    case False
    with "1" show ?thesis
      by (subst to_string_nat.simps) (simp add: read_dec_append to_string_nat_dec)
  qed
qed

lemma is_dec_not_space: "is_dec c \<Longrightarrow> \<not> is_space_c c"
  by (auto simp: is_dec_def is_space_c_def)

lemma is_dec_not_sign: "is_dec c \<Longrightarrow> c \<noteq> CHR ''-'' \<and> c \<noteq> CHR ''+''"
  by (auto simp: is_dec_def)

text \<open>Parsing what \<open>std::to_string\<close> printed gives the number back, within \<open>int\<close>.\<close>

lemma atoi_to_string: "int n \<le> int_max \<Longrightarrow> atoi (to_string_nat n) = Some (int n)"
proof -
  assume n: "int n \<le> int_max"
  obtain c cs where s: "to_string_nat n = c # cs"
    by (cases "to_string_nat n") (auto dest: arg_cong [where f = "\<lambda>x. x = []"])
  have c: "is_dec c" using to_string_nat_dec [of c n] s by simp
  have "read_dec 0 (c # cs) = n" using read_dec_to_string [of n] s by simp
  with n c show ?thesis
    using is_dec_not_space [OF c] is_dec_not_sign [OF c]
    by (simp add: atoi_def s int_min_def del: read_dec.simps)
qed

subsection \<open>Character classes of the "C" locale\<close>

text \<open>
  \<open>char\<close> is signed on the platforms the project builds for, so a byte from 128 on is a
  negative \<open>int\<close> when it is passed to \<open>std::isspace\<close> and its kin.  The standard leaves those
  calls undefined unless the value is that of an \<open>unsigned char\<close> or \<open>EOF\<close> (-1, the byte 255):
  the classification functions below return \<open>None\<close> there.
\<close>

definition schar :: "char \<Rightarrow> int" where
  "schar c = (if (of_char c :: nat) < 128 then int (of_char c) else int (of_char c) - 256)"

definition ctype_ok :: "char \<Rightarrow> bool" where
  "ctype_ok c \<longleftrightarrow> - 1 \<le> schar c"

definition isspace :: "char \<Rightarrow> bool option" where
  "isspace c = (if ctype_ok c then Some (is_space_c c) else None)"

definition is_alpha_c :: "char \<Rightarrow> bool" where
  "is_alpha_c c \<longleftrightarrow> (65 \<le> (of_char c :: nat) \<and> (of_char c :: nat) \<le> 90)
     \<or> (97 \<le> (of_char c :: nat) \<and> (of_char c :: nat) \<le> 122)"

definition isalpha :: "char \<Rightarrow> bool option" where
  "isalpha c = (if ctype_ok c then Some (is_alpha_c c) else None)"

definition is_print_c :: "char \<Rightarrow> bool" where
  "is_print_c c \<longleftrightarrow> 32 \<le> (of_char c :: nat) \<and> (of_char c :: nat) \<le> 126"

definition isprint :: "char \<Rightarrow> bool option" where
  "isprint c = (if ctype_ok c then Some (is_print_c c) else None)"

definition ascii :: "char \<Rightarrow> bool" where
  "ascii c \<longleftrightarrow> (of_char c :: nat) < 128"

lemma ascii_ctype_ok [simp]: "ascii c \<Longrightarrow> ctype_ok c"
  by (simp add: ascii_def ctype_ok_def schar_def)

lemma is_print_ascii: "is_print_c c \<Longrightarrow> ascii c"
  by (simp add: is_print_c_def ascii_def)

lemma is_alpha_ascii: "is_alpha_c c \<Longrightarrow> ascii c"
  by (auto simp: is_alpha_c_def ascii_def)

text \<open>\<open>std::tolower\<close> and \<open>std::toupper\<close> of the "C" locale, cast back to \<open>char\<close>.\<close>

definition tolower_c :: "char \<Rightarrow> char" where
  "tolower_c c = (if 65 \<le> (of_char c :: nat) \<and> (of_char c :: nat) \<le> 90
     then char_of (of_char c + 32 :: nat) else c)"

definition toupper_c :: "char \<Rightarrow> char" where
  "toupper_c c = (if 97 \<le> (of_char c :: nat) \<and> (of_char c :: nat) \<le> 122
     then char_of (of_char c - 32 :: nat) else c)"

end
