(* ===== verification/String_Utils.thy ===== *)
theory String_Utils
  imports Cpp_Library
begin

text \<open>
  \<open>common/string/string_common.hpp\<close> and \<open>common/impl/string_common.cpp\<close>: the class
  \<open>string_utils\<close>.  \<open>split\<close> is proved equal to a structural reference function, \<open>replace_all\<close>
  to the leftmost non-overlapping replacement; \<open>replace_all\<close> is a \<open>partial_function\<close> because
  the source's loop does not end for an empty search string.
\<close>

subsection \<open>Operations\<close>

definition unescape :: "string \<Rightarrow> string" where
  "unescape s = (let count = fold (\<lambda>_ n. n + 1) s (0 :: u16) in [])"

definition starts_with :: "string \<Rightarrow> string \<Rightarrow> bool" where
  "starts_with source pre \<longleftrightarrow>
     length pre \<le> length source \<and> take (length pre) source = pre"

function split_loop :: "string \<Rightarrow> char \<Rightarrow> bool \<Rightarrow> nat \<Rightarrow> string list \<Rightarrow> string list" where
  "split_loop str delimiter skip_empty pos_last tokens =
     (let pos_current = (case find_char str delimiter pos_last of None \<Rightarrow> length str | Some i \<Rightarrow> i);
          len = pos_current - pos_last;
          tokens' = (if \<not> skip_empty \<or> len \<noteq> 0
                     then tokens @ [take len (drop pos_last str)] else tokens)
      in if pos_current = length str then tokens'
         else split_loop str delimiter skip_empty (pos_current + 1) tokens')"
  by pat_completeness auto
termination
proof (relation "measure (\<lambda>(str, d, sk, pos, tk). Suc (length str) - pos)", goal_cases)
  case 1
  show ?case by simp
next
  case (2 str d sk pos tk pc len tk')
  then show ?case by (auto split: option.splits dest: find_char_Some)
qed

declare split_loop.simps [simp del]

definition split :: "string \<Rightarrow> char \<Rightarrow> bool \<Rightarrow> string list" where
  "split str delimiter skip_empty = split_loop str delimiter skip_empty 0 []"

definition to_lower_internal :: "char \<Rightarrow> char" where
  "to_lower_internal ch = tolower_c ch"

definition to_upper_internal :: "char \<Rightarrow> char" where
  "to_upper_internal ch = toupper_c ch"

definition lower :: "string \<Rightarrow> string" where
  "lower str = map to_lower_internal str"

definition upper :: "string \<Rightarrow> string" where
  "upper str = map to_upper_internal str"

definition to_lower :: "string \<Rightarrow> string" where
  "to_lower str = lower str"

definition to_upper :: "string \<Rightarrow> string" where
  "to_upper str = upper str"

text \<open>The loop of \<open>replace_all\<close>; \<open>None\<close> is a loop that does not end.\<close>

partial_function (option) replace_all_loop ::
    "string \<Rightarrow> string \<Rightarrow> string \<Rightarrow> nat \<Rightarrow> bool \<Rightarrow> (string \<times> bool) option" where
  "replace_all_loop str substr w pos result =
     (case find_str str substr pos of
        None \<Rightarrow> Some (str, result)
      | Some p \<Rightarrow>
          replace_all_loop (take p str @ w @ drop (p + length substr) str) substr w
            (p + length w) True)"

definition replace_all :: "string \<Rightarrow> string \<Rightarrow> string \<Rightarrow> (string \<times> bool) option" where
  "replace_all str substr w = replace_all_loop str substr w 0 False"

subsection \<open>split\<close>

text \<open>The reference: split a list at every delimiter.\<close>

fun split_ref :: "'a \<Rightarrow> 'a list \<Rightarrow> 'a list list" where
  "split_ref d [] = [[]]"
| "split_ref d (c # cs) =
     (if c = d then [] # split_ref d cs
      else (case split_ref d cs of [] \<Rightarrow> [[c]] | t # ts \<Rightarrow> (c # t) # ts))"

fun join :: "'a \<Rightarrow> 'a list list \<Rightarrow> 'a list" where
  "join d [] = []"
| "join d [t] = t"
| "join d (t # ts) = t @ d # join d ts"

lemma split_ref_nonempty [simp]: "split_ref d s \<noteq> []"
  by (induction s) (auto split: list.split)

lemma split_ref_no_delim: "d \<notin> set s \<Longrightarrow> split_ref d s = [s]"
  by (induction s) auto

lemma split_ref_append:
  "d \<notin> set s \<Longrightarrow> split_ref d (s @ d # r) = s # split_ref d r"
  by (induction s) auto

lemma join_Cons: "ts \<noteq> [] \<Longrightarrow> join d (t # ts) = t @ d # join d ts"
  by (cases ts) auto

lemma join_split_ref: "join d (split_ref d s) = s"
proof (induction s)
  case Nil
  show ?case by simp
next
  case (Cons c cs)
  show ?case
  proof (cases "c = d")
    case True
    with Cons show ?thesis by (simp add: join_Cons)
  next
    case False
    obtain t ts where e: "split_ref d cs = t # ts"
      by (cases "split_ref d cs") auto
    from e Cons False show ?thesis by (cases ts) auto
  qed
qed

lemma split_ref_tokens: "t \<in> set (split_ref d s) \<Longrightarrow> d \<notin> set t"
proof (induction s arbitrary: t)
  case Nil
  then show ?case by simp
next
  case (Cons c cs)
  obtain u us where e: "split_ref d cs = u # us"
    by (cases "split_ref d cs") auto
  from Cons e show ?case by (auto split: if_splits)
qed

lemma length_split_ref: "length (split_ref d s) = Suc (count_list s d)"
proof (induction s)
  case Nil
  show ?case by simp
next
  case (Cons c cs)
  obtain t ts where "split_ref d cs = t # ts"
    by (cases "split_ref d cs") auto
  with Cons show ?case by auto
qed

text \<open>One turn of the loop consumes exactly the next token of the reference.\<close>

lemma split_loop_ref:
  "pos \<le> length s \<Longrightarrow>
   split_loop s d sk pos tk =
     tk @ (if sk then filter (\<lambda>t. t \<noteq> []) (split_ref d (drop pos s)) else split_ref d (drop pos s))"
proof (induction s d sk pos tk rule: split_loop.induct)
  case (1 s d sk pos tk)
  show ?case
  proof (cases "find_char s d pos")
    case None
    then have "d \<notin> set (drop pos s)" by (rule find_char_None)
    then have "split_ref d (drop pos s) = [drop pos s]" by (rule split_ref_no_delim)
    with None "1.prems" show ?thesis
      by (subst split_loop.simps) (auto simp: Let_def)
  next
    case (Some i)
    from find_char_Some [OF Some] have i: "pos \<le> i" "i < length s" "s ! i = d"
      and nod: "d \<notin> set (bytes s pos i)" by auto
    have "drop pos s = take (i - pos) (drop pos s) @ drop (i - pos) (drop pos s)"
      by (rule append_take_drop_id [symmetric])
    also have "drop (i - pos) (drop pos s) = d # drop (Suc i) s"
      using i Cons_nth_drop_Suc [of i s] by simp
    finally have eq: "drop pos s = bytes s pos i @ d # drop (Suc i) s" by (simp only: bytes_def)
    have "split_ref d (drop pos s) = bytes s pos i # split_ref d (drop (Suc i) s)"
      unfolding eq by (rule split_ref_append [OF nod])
    moreover have "bytes s pos i = [] \<longleftrightarrow> i = pos"
      using i by (auto simp: bytes_def)
    moreover note "1.IH" [OF refl refl refl]
    ultimately show ?thesis
      using Some i by (subst split_loop.simps) (auto simp: Let_def bytes_def)
  qed
qed

lemma split_eq_ref:
  "split s d sk = (if sk then filter (\<lambda>t. t \<noteq> []) (split_ref d s) else split_ref d s)"
  by (simp add: split_def split_loop_ref)

lemma split_head:
  "d \<notin> set h \<Longrightarrow> split (h @ d # r) d False = h # split r d False"
  by (simp add: split_eq_ref split_ref_append)

lemma split_whole: "d \<notin> set s \<Longrightarrow> split s d False = [s]"
  by (simp add: split_eq_ref split_ref_no_delim)

subsection \<open>Case conversion\<close>

lemma tolower_c_idem: "tolower_c (tolower_c c) = tolower_c c"
  by (auto simp: tolower_c_def)

lemma to_lower_append [simp]: "to_lower (xs @ ys) = to_lower xs @ to_lower ys"
  by (simp add: to_lower_def lower_def)

lemma length_to_lower [simp]: "length (to_lower s) = length s"
  by (simp add: to_lower_def lower_def)

lemma to_lower_idem: "to_lower (to_lower s) = to_lower s"
  by (simp add: to_lower_def lower_def to_lower_internal_def tolower_c_idem)

subsection \<open>replace_all\<close>

function replace_ref :: "'a list \<Rightarrow> 'a list \<Rightarrow> 'a list \<Rightarrow> 'a list" where
  "replace_ref sub w s =
     (if sub = [] \<or> s = [] then s
      else if take (length sub) s = sub then w @ replace_ref sub w (drop (length sub) s)
      else hd s # replace_ref sub w (tl s))"
  by pat_completeness auto
termination
  by (relation "measure (\<lambda>(sub, w, s). length s)") auto

declare replace_ref.simps [simp del]

definition occurs :: "'a list \<Rightarrow> 'a list \<Rightarrow> bool" where
  "occurs sub s \<longleftrightarrow> (\<exists>i \<le> length s. i + length sub \<le> length s \<and> take (length sub) (drop i s) = sub)"

lemma replace_ref_skip:
  assumes "sub \<noteq> []" "\<And>j. j < i \<Longrightarrow> take (length sub) (drop j s) \<noteq> sub" "i \<le> length s"
  shows "replace_ref sub w s = take i s @ replace_ref sub w (drop i s)"
  using assms
proof (induction i arbitrary: s)
  case 0
  then show ?case by simp
next
  case (Suc i)
  then obtain c cs where s: "s = c # cs" by (cases s) auto
  have "take (length sub) (drop j cs) \<noteq> sub" if "j < i" for j
    using Suc.prems(2) [of "Suc j"] that s by simp
  then have "replace_ref sub w cs = take i cs @ replace_ref sub w (drop i cs)"
    using Suc s by simp
  moreover have "take (length sub) s \<noteq> sub" using Suc.prems(2) [of 0] by simp
  ultimately show ?case using s Suc.prems(1)
    by (subst replace_ref.simps) auto
qed

lemma replace_ref_none:
  assumes "\<And>j. j + length sub \<le> length s \<Longrightarrow> take (length sub) (drop j s) \<noteq> sub"
  shows "replace_ref sub w s = s"
proof (cases "sub = []")
  case True
  then show ?thesis by (simp add: replace_ref.simps)
next
  case False
  have "take (length sub) (drop j s) \<noteq> sub" if "j < length s" for j
  proof (cases "j + length sub \<le> length s")
    case True
    then show ?thesis by (rule assms)
  next
    case False
    then have "length (take (length sub) (drop j s)) < length sub" using that by simp
    then show ?thesis by auto
  qed
  from replace_ref_skip [OF False, of "length s" s w] this show ?thesis
    by (simp add: replace_ref.simps [of sub w "[]"])
qed

lemma replace_all_loop_ref:
  assumes "sub \<noteq> []"
  shows "replace_all_loop (pre @ s) sub w (length pre) b =
    Some (pre @ replace_ref sub w s, b \<or> occurs sub s)"
proof (induction "length s" arbitrary: s pre b rule: less_induct)
  case less
  show ?case
  proof (cases "find_str (pre @ s) sub (length pre)")
    case None
    have no: "take (length sub) (drop j s) \<noteq> sub" if "j + length sub \<le> length s" for j
      using find_str_None [OF None, of "length pre + j"] that by simp
    then have "\<not> occurs sub s" by (auto simp: occurs_def)
    with None no show ?thesis
      by (simp add: replace_all_loop.simps replace_ref_none)
  next
    case (Some p)
    define i where "i = p - length pre"
    from find_str_Some [OF Some] have p: "p = length pre + i" "i + length sub \<le> length s"
      and hit: "take (length sub) (drop i s) = sub"
      by (auto simp: i_def)
    have miss: "take (length sub) (drop j s) \<noteq> sub" if "j < i" for j
      using find_str_first [OF Some, of "length pre + j"] that p by simp
    have "occurs sub s" unfolding occurs_def by (rule exI [where x = i]) (use p hit in auto)
    have shorter: "length (drop (i + length sub) s) < length s"
      using assms p by (cases s) auto
    have "replace_ref sub w s = take i s @ replace_ref sub w (drop i s)"
      by (rule replace_ref_skip [OF assms miss]) (use p in auto)
    also have "replace_ref sub w (drop i s) = w @ replace_ref sub w (drop (i + length sub) s)"
      using hit assms by (subst replace_ref.simps) (auto simp: add.commute)
    finally have ref: "replace_ref sub w s =
      take i s @ w @ replace_ref sub w (drop (i + length sub) s)" by simp
    have "replace_all_loop (pre @ s) sub w (length pre) b =
      replace_all_loop ((pre @ take i s @ w) @ drop (i + length sub) s) sub w
        (length (pre @ take i s @ w)) True"
      using Some p by (subst replace_all_loop.simps) (simp add: add.assoc)
    with less [OF shorter, of "pre @ take i s @ w" True] ref \<open>occurs sub s\<close>
    show ?thesis by simp
  qed
qed

lemma replace_all_ref:
  "sub \<noteq> [] \<Longrightarrow> replace_all s sub w = Some (replace_ref sub w s, occurs sub s)"
  using replace_all_loop_ref [of sub "[]" s w False] by (simp add: replace_all_def)

text \<open>For an empty search string every position matches, so the loop never ends.\<close>

lemma find_str_empty: "pos \<le> length s \<Longrightarrow> find_str s [] pos = Some pos"
  by (subst find_str.simps) simp

lemma replace_all_loop_empty:
  assumes "replace_all_loop s sub w pos b = Some r"
  shows "sub = [] \<and> pos \<le> length s \<longrightarrow> False"
proof (rule replace_all_loop.raw_induct
    [where P = "\<lambda>s sub w pos b r. sub = [] \<and> pos \<le> length s \<longrightarrow> False", OF _ assms])
  fix f s sub w pos b r
  assume ih: "\<And>s sub w pos b r. f s sub w pos b = Some r \<Longrightarrow> sub = [] \<and> pos \<le> length s \<longrightarrow> False"
    and eq: "(case find_str s sub pos of None \<Rightarrow> Some (s, b)
      | Some p \<Rightarrow> f (take p s @ w @ drop (p + length sub) s) sub w (p + length w) True) = Some r"
  show "sub = [] \<and> pos \<le> length s \<longrightarrow> False"
  proof
    assume "sub = [] \<and> pos \<le> length s"
    with eq ih [of "take pos s @ w @ drop pos s" "[]" w "pos + length w" True r] show False
      by (simp add: find_str_empty)
  qed
qed

end
