(* ===== verification/Char_Class.thy ===== *)
theory Char_Class
  imports Cpp_Library
begin

text \<open>
  \<open>server/http/detail/parser.hpp\<close>: the character classes of the request parser.  The two
  256-entry tables are the source's, indexed by the \<open>unsigned char\<close> value of the byte;
  \<open>is_token_char_iff\<close> and \<open>is_pathchar_iff\<close> say what they mean.
\<close>

definition token_tab :: "nat list" where
  "token_tab =
    [0, 0, 0, 0, 0, 0, 0, 0, 0, 0, 0, 0, 0, 0, 0, 0,
     0, 0, 0, 0, 0, 0, 0, 0, 0, 0, 0, 0, 0, 0, 0, 0,
     0, 1, 0, 1, 1, 1, 1, 1, 0, 0, 1, 1, 0, 1, 1, 0,
     1, 1, 1, 1, 1, 1, 1, 1, 1, 1, 0, 0, 0, 0, 0, 0,
     0, 1, 1, 1, 1, 1, 1, 1, 1, 1, 1, 1, 1, 1, 1, 1,
     1, 1, 1, 1, 1, 1, 1, 1, 1, 1, 1, 0, 0, 0, 1, 1,
     1, 1, 1, 1, 1, 1, 1, 1, 1, 1, 1, 1, 1, 1, 1, 1,
     1, 1, 1, 1, 1, 1, 1, 1, 1, 1, 1, 0, 1, 0, 1, 0,
     0, 0, 0, 0, 0, 0, 0, 0, 0, 0, 0, 0, 0, 0, 0, 0,
     0, 0, 0, 0, 0, 0, 0, 0, 0, 0, 0, 0, 0, 0, 0, 0,
     0, 0, 0, 0, 0, 0, 0, 0, 0, 0, 0, 0, 0, 0, 0, 0,
     0, 0, 0, 0, 0, 0, 0, 0, 0, 0, 0, 0, 0, 0, 0, 0,
     0, 0, 0, 0, 0, 0, 0, 0, 0, 0, 0, 0, 0, 0, 0, 0,
     0, 0, 0, 0, 0, 0, 0, 0, 0, 0, 0, 0, 0, 0, 0, 0,
     0, 0, 0, 0, 0, 0, 0, 0, 0, 0, 0, 0, 0, 0, 0, 0,
     0, 0, 0, 0, 0, 0, 0, 0, 0, 0, 0, 0, 0, 0, 0, 0]"

definition is_token_char :: "char \<Rightarrow> bool" where
  "is_token_char c \<longleftrightarrow> token_tab ! of_char c \<noteq> 0"

definition path_tab :: "nat list" where
  "path_tab =
    [0, 0, 0, 0, 0, 0, 0, 0, 0, 0, 0, 0, 0, 0, 0, 0,
     0, 0, 0, 0, 0, 0, 0, 0, 0, 0, 0, 0, 0, 0, 0, 0,
     0, 1, 1, 1, 1, 1, 1, 1, 1, 1, 1, 1, 1, 1, 1, 1,
     1, 1, 1, 1, 1, 1, 1, 1, 1, 1, 1, 1, 1, 1, 1, 1,
     1, 1, 1, 1, 1, 1, 1, 1, 1, 1, 1, 1, 1, 1, 1, 1,
     1, 1, 1, 1, 1, 1, 1, 1, 1, 1, 1, 1, 1, 1, 1, 1,
     1, 1, 1, 1, 1, 1, 1, 1, 1, 1, 1, 1, 1, 1, 1, 1,
     1, 1, 1, 1, 1, 1, 1, 1, 1, 1, 1, 1, 1, 1, 1, 0,
     1, 1, 1, 1, 1, 1, 1, 1, 1, 1, 1, 1, 1, 1, 1, 1,
     1, 1, 1, 1, 1, 1, 1, 1, 1, 1, 1, 1, 1, 1, 1, 1,
     1, 1, 1, 1, 1, 1, 1, 1, 1, 1, 1, 1, 1, 1, 1, 1,
     1, 1, 1, 1, 1, 1, 1, 1, 1, 1, 1, 1, 1, 1, 1, 1,
     1, 1, 1, 1, 1, 1, 1, 1, 1, 1, 1, 1, 1, 1, 1, 1,
     1, 1, 1, 1, 1, 1, 1, 1, 1, 1, 1, 1, 1, 1, 1, 1,
     1, 1, 1, 1, 1, 1, 1, 1, 1, 1, 1, 1, 1, 1, 1, 1,
     1, 1, 1, 1, 1, 1, 1, 1, 1, 1, 1, 1, 1, 1, 1, 1]"

definition is_pathchar :: "char \<Rightarrow> bool" where
  "is_pathchar c \<longleftrightarrow> path_tab ! of_char c \<noteq> 0"

text \<open>\<open>static_cast<unsigned char>(c - '0') < 10\<close>: the subtraction is done in \<open>int\<close> and cut to a byte.\<close>

definition is_digit :: "char \<Rightarrow> bool" where
  "is_digit c \<longleftrightarrow> (schar c - 48) mod 256 < 10"

definition is_valid_token :: "char \<Rightarrow> bool" where
  "is_valid_token t =
     (let result = schar t in
      if (0x00 \<le> result \<and> result \<le> 0x1f) \<or> result = 0x7f then False
      else if result = 0x20 then False
      else if result = 0x3A then False
      else if 0x01 \<le> result \<and> result \<le> 0x7f then True
      else False)"

definition is_valid_text :: "char \<Rightarrow> bool" where
  "is_valid_text t = (let result = schar t in if 0x01 \<le> result \<and> result \<le> 0x7f then True else False)"

subsection \<open>What the classes are\<close>

definition alnum_code :: "nat \<Rightarrow> bool" where
  "alnum_code n \<longleftrightarrow> (48 \<le> n \<and> n \<le> 57) \<or> (65 \<le> n \<and> n \<le> 90) \<or> (97 \<le> n \<and> n \<le> 122)"

definition tchar_marks :: "nat list" where
  "tchar_marks = [33, 35, 36, 37, 38, 39, 42, 43, 45, 46, 94, 95, 96, 124, 126]"

lemma token_tab_all:
  "list_all (\<lambda>n. token_tab ! n \<noteq> 0 \<longleftrightarrow> alnum_code n \<or> n \<in> set tchar_marks) [0..<256]"
  by code_simp

lemma path_tab_all:
  "list_all (\<lambda>n. path_tab ! n \<noteq> 0 \<longleftrightarrow> 33 \<le> n \<and> n \<noteq> 127) [0..<256]"
  by code_simp

lemma of_char_lt [simp]: "(of_char c :: nat) < 256"
  using nat_of_char_less_256 [of c] by simp

lemma is_token_char_iff:
  "is_token_char c \<longleftrightarrow> alnum_code (of_char c) \<or> of_char c \<in> set tchar_marks"
  using token_tab_all by (simp add: is_token_char_def list_all_iff)

lemma is_pathchar_iff: "is_pathchar c \<longleftrightarrow> 33 \<le> (of_char c :: nat) \<and> (of_char c :: nat) \<noteq> 127"
  using path_tab_all by (simp add: is_pathchar_def list_all_iff)

lemma code_of_schar: "\<exists>n < 256. (of_char c :: nat) = n \<and> schar c = (if n < 128 then int n else int n - 256)"
  by (rule exI [where x = "of_char c"]) (simp add: schar_def)

lemma digit_arith:
  "n < 256 \<Longrightarrow> ((if n < 128 then int n else int n - 256) - 48) mod 256 < 10 \<longleftrightarrow> 48 \<le> n \<and> n \<le> 57"
proof (cases "48 \<le> n")
  case True
  assume "n < 256"
  have "((if n < 128 then int n else int n - 256) - 48) mod 256 = (int n - 48) mod 256"
  proof -
    have "(int n - 304) mod 256 = ((int n - 304) + 256) mod 256" by (rule mod_add_self2 [symmetric])
    then show ?thesis by simp
  qed
  also have "\<dots> = int n - 48" using True \<open>n < 256\<close> by (simp add: mod_pos_pos_trivial)
  finally show ?thesis using True by auto
next
  case False
  have "(int n - 48) mod 256 = ((int n - 48) + 256) mod 256" by (rule mod_add_self2 [symmetric])
  also have "\<dots> = int n + 208" using False by (simp add: mod_pos_pos_trivial)
  finally show ?thesis using False by auto
qed

lemma is_digit_iff: "is_digit c \<longleftrightarrow> is_dec c"
proof -
  obtain n where n: "n < 256" "(of_char c :: nat) = n" "schar c = (if n < 128 then int n else int n - 256)"
    using code_of_schar by blast
  show ?thesis using digit_arith [OF n(1)] by (simp only: is_digit_def is_dec_def n)
qed

lemma is_valid_token_iff:
  "is_valid_token c \<longleftrightarrow> 33 \<le> (of_char c :: nat) \<and> (of_char c :: nat) \<le> 126 \<and> of_char c \<noteq> (58 :: nat)"
proof -
  obtain n where n: "n < 256" "(of_char c :: nat) = n" "schar c = (if n < 128 then int n else int n - 256)"
    using code_of_schar by blast
  show ?thesis unfolding is_valid_token_def Let_def n(2,3) using n(1) by auto
qed

lemma is_valid_text_iff:
  "is_valid_text c \<longleftrightarrow> 1 \<le> (of_char c :: nat) \<and> (of_char c :: nat) \<le> 127"
proof -
  obtain n where n: "n < 256" "(of_char c :: nat) = n" "schar c = (if n < 128 then int n else int n - 256)"
    using code_of_schar by blast
  show ?thesis unfolding is_valid_text_def Let_def n(2,3) using n(1) by auto
qed

lemma valid_token_ascii: "is_valid_token c \<Longrightarrow> ascii c"
  by (simp add: is_valid_token_iff ascii_def)

lemma alpha_token: "is_alpha_c c \<Longrightarrow> is_token_char c"
  by (auto simp: is_token_char_iff is_alpha_c_def alnum_code_def)

lemma token_ascii: "is_token_char c \<Longrightarrow> ascii c"
  by (auto simp: is_token_char_iff alnum_code_def tchar_marks_def ascii_def)

lemmas char_class_iffs =
  is_token_char_iff is_pathchar_iff is_digit_iff is_valid_token_iff is_valid_text_iff

end
