(* ===== verification/Http_Types.thy ===== *)
theory Http_Types
  imports Cpp_Library
begin

text \<open>
  The enumerations of the HTTP layer: \<open>http/enums.hpp\<close>, \<open>http/http_method.hpp\<close> with
  \<open>http/method.inl\<close>, \<open>http/error.hpp\<close> and \<open>http/status.hpp\<close>, and the error enumerations and
  categories of \<open>server/error.hpp\<close>.
\<close>

subsection \<open>http/enums.hpp\<close>

datatype protocol_version = proto_unknown | http_1_0 | http_1_1

datatype parse_phase =
    ph_unknown | ph_not_started | ph_start_line_started | ph_start_line
  | ph_method | ph_method_finished | ph_target | ph_target_finished
  | ph_protocol_version | ph_protocol_version_finished
  | ph_headers | ph_headers_finished | ph_content_type | ph_content_type_finished
  | ph_media_type | ph_media_type_need_more | ph_media_type_finished
  | ph_body | ph_body_finished | ph_body_pending | ph_finished

subsection \<open>Methods\<close>

datatype http_method = m_unknown | m_post | m_get | m_delete | m_options | m_patch

definition method_to_string :: "http_method \<Rightarrow> string" where
  "method_to_string m = []"

definition to_method :: "string \<Rightarrow> http_method" where
  "to_method m =
     (if length m < 3 then m_unknown
      else if m = ''GET'' then m_get
      else if m = ''POST'' then m_post
      else if m = ''DELETE'' then m_delete
      else if m = ''OPTIONS'' then m_options
      else if m = ''PATCH'' then m_patch
      else m_unknown)"

lemma to_method_unknown_iff:
  "to_method m = m_unknown \<longleftrightarrow> m \<notin> {''GET'', ''POST'', ''DELETE'', ''OPTIONS'', ''PATCH''}"
  by (auto simp: to_method_def)

lemma to_method_inj: "to_method a = to_method b \<Longrightarrow> to_method a \<noteq> m_unknown \<Longrightarrow> a = b"
  by (auto simp: to_method_def split: if_splits)

subsection \<open>http/error.hpp\<close>

datatype http_error =
    e_unknown | e_incomplete_start_line | e_invalid_request_line | e_incomplete_message_header
  | e_invalid_message_header_crlf | e_bad_method | e_bad_target | e_bad_version | e_bad_field
  | e_bad_field_value | e_content_type_not_implemented | e_no_boundary_header_for_multipart
  | e_need_more

fun http_error_value :: "http_error \<Rightarrow> nat" where
  "http_error_value e_unknown = 0"
| "http_error_value e_incomplete_start_line = 1"
| "http_error_value e_invalid_request_line = 2"
| "http_error_value e_incomplete_message_header = 3"
| "http_error_value e_invalid_message_header_crlf = 4"
| "http_error_value e_bad_method = 5"
| "http_error_value e_bad_target = 6"
| "http_error_value e_bad_version = 7"
| "http_error_value e_bad_field = 8"
| "http_error_value e_bad_field_value = 9"
| "http_error_value e_content_type_not_implemented = 10"
| "http_error_value e_no_boundary_header_for_multipart = 11"
| "http_error_value e_need_more = 12"

text \<open>The category's \<open>message\<close>, with the \<open>int\<close> the error code carries.\<close>

definition http_error_message :: "int \<Rightarrow> string" where
  "http_error_message ec =
     (if ec = 1 then ''http incomplete start line''
      else if ec = 2 then ''http invalid request line''
      else if ec = 3 then ''http incomplete message header''
      else if ec = 4 then ''http invalid message header crlf''
      else if ec = 5 then ''http bad get_method''
      else if ec = 6 then ''http bad target''
      else if ec = 7 then ''http bad version''
      else if ec = 8 then ''http bad field''
      else if ec = 9 then ''http bad field value''
      else if ec = 10 then ''http content-type unsupported''
      else if ec = 11 then ''no_boundary_header_for_multipart''
      else ''unknown webcrown_http http error'')"

text \<open>
  An \<open>std::error_code\<close> is a value and the category that explains it; it converts to \<open>true\<close>
  exactly when the value is not 0.
\<close>

datatype category = http_cat | server_cat | service_cat | session_cat | system_cat

record error_code =
  ec_value :: int
  ec_cat :: category

definition no_error :: error_code where
  "no_error = \<lparr>ec_value = 0, ec_cat = system_cat\<rparr>"

definition ec_true :: "error_code \<Rightarrow> bool" where
  "ec_true e \<longleftrightarrow> ec_value e \<noteq> 0"

definition make_http_error :: "http_error \<Rightarrow> error_code" where
  "make_http_error e = \<lparr>ec_value = int (http_error_value e), ec_cat = http_cat\<rparr>"

lemma make_http_error_true: "ec_true (make_http_error e) \<longleftrightarrow> e \<noteq> e_unknown"
  by (cases e) (auto simp: ec_true_def make_http_error_def)

subsection \<open>server/error.hpp\<close>

datatype server_error = se_unknown | se_server_already_started | se_server_not_started | se_create_endpoint_fail
datatype service_error = sv_unknown | sv_service_not_started | sv_service_already_started
datatype session_error = ss_unknown | ss_sent_bytes_is_zero | ss_sent_buffer_is_nullptr | ss_not_connected

fun server_error_value :: "server_error \<Rightarrow> int" where
  "server_error_value se_unknown = 0"
| "server_error_value se_server_already_started = 1"
| "server_error_value se_server_not_started = 2"
| "server_error_value se_create_endpoint_fail = 3"

fun service_error_value :: "service_error \<Rightarrow> int" where
  "service_error_value sv_unknown = 0"
| "service_error_value sv_service_not_started = 1"
| "service_error_value sv_service_already_started = 2"

fun session_error_value :: "session_error \<Rightarrow> int" where
  "session_error_value ss_unknown = 0"
| "session_error_value ss_sent_bytes_is_zero = 1"
| "session_error_value ss_sent_buffer_is_nullptr = 2"
| "session_error_value ss_not_connected = 3"

definition server_message :: "int \<Rightarrow> string" where
  "server_message ec =
     (if ec = 1 then ''Server is already started''
      else if ec = 2 then ''Server is not started''
      else ''Unknown server error'')"

definition service_message :: "int \<Rightarrow> string" where
  "service_message ec =
     (if ec = 1 then ''Service is not started''
      else if ec = 2 then ''Service is already started''
      else ''Unknown service error'')"

definition session_message :: "int \<Rightarrow> string" where
  "session_message ec =
     (if ec = 1 then ''You are sending zero bytes'' else ''Unknown error'')"

text \<open>\<open>make_error<T>\<close> gives every enumeration the category \<open>server_error_category\<close>.\<close>

definition make_error :: "int \<Rightarrow> error_code" where
  "make_error v = \<lparr>ec_value = v, ec_cat = server_cat\<rparr>"

text \<open>
  The names of the categories.  \<open>webcrown_error\<close> of \<open>error.hpp\<close> is a category of its own, which no error
  code of the library has and whose message is empty.
\<close>

definition http_category_name :: string where
  "http_category_name = ''webcrown_http http error''"

definition server_category_name :: string where
  "server_category_name = ''webcrown_server_error''"

definition service_category_name :: string where
  "service_category_name = ''webcrown_service_error''"

definition session_category_name :: string where
  "session_category_name = ''webcrown_session_error''"

definition webcrown_error_name :: string where
  "webcrown_error_name = ''webcrown_http error''"

definition webcrown_error_message :: "int \<Rightarrow> string" where
  "webcrown_error_message ec = []"

text \<open>\<open>error_code::message()\<close>; a system error's text is the platform's and not modelled.\<close>

definition ec_message :: "error_code \<Rightarrow> string option" where
  "ec_message e =
     (case ec_cat e of
        http_cat \<Rightarrow> Some (http_error_message (ec_value e))
      | server_cat \<Rightarrow> Some (server_message (ec_value e))
      | service_cat \<Rightarrow> Some (service_message (ec_value e))
      | session_cat \<Rightarrow> Some (session_message (ec_value e))
      | system_cat \<Rightarrow> None)"

subsection \<open>http/status.hpp\<close>

datatype http_status =
    st_continue
  | st_switching_protocols
  | st_ok
  | st_created
  | st_accepted
  | st_non_authoritative_information
  | st_no_content
  | st_reset_content
  | st_partial_content
  | st_multiple_choices
  | st_moved_permanently
  | st_found
  | st_see_other
  | st_not_modified
  | st_use_proxy
  | st_temporary_redirect
  | st_bad_request
  | st_unauthorized
  | st_payment_required
  | st_forbidden
  | st_not_found
  | st_method_not_allowed
  | st_not_acceptable
  | st_proxy_authentication_required
  | st_request_time_out
  | st_conflict
  | st_gone
  | st_length_required
  | st_precondition_failed
  | st_request_entity_too_large
  | st_request_uri_too_large
  | st_unsupported_media_type
  | st_requested_range_not_satisfiable
  | st_expectation_failed
  | st_internal_server_error
  | st_not_implemented
  | st_bad_gateway
  | st_service_unavailable
  | st_gateway_time_out
  | st_http_version_not_supported

fun status_code :: "http_status \<Rightarrow> u16" where
  "status_code st_continue = 100"
| "status_code st_switching_protocols = 101"
| "status_code st_ok = 200"
| "status_code st_created = 201"
| "status_code st_accepted = 202"
| "status_code st_non_authoritative_information = 203"
| "status_code st_no_content = 204"
| "status_code st_reset_content = 205"
| "status_code st_partial_content = 206"
| "status_code st_multiple_choices = 300"
| "status_code st_moved_permanently = 301"
| "status_code st_found = 302"
| "status_code st_see_other = 303"
| "status_code st_not_modified = 304"
| "status_code st_use_proxy = 305"
| "status_code st_temporary_redirect = 307"
| "status_code st_bad_request = 400"
| "status_code st_unauthorized = 401"
| "status_code st_payment_required = 402"
| "status_code st_forbidden = 403"
| "status_code st_not_found = 404"
| "status_code st_method_not_allowed = 405"
| "status_code st_not_acceptable = 406"
| "status_code st_proxy_authentication_required = 407"
| "status_code st_request_time_out = 408"
| "status_code st_conflict = 409"
| "status_code st_gone = 410"
| "status_code st_length_required = 411"
| "status_code st_precondition_failed = 412"
| "status_code st_request_entity_too_large = 413"
| "status_code st_request_uri_too_large = 414"
| "status_code st_unsupported_media_type = 415"
| "status_code st_requested_range_not_satisfiable = 416"
| "status_code st_expectation_failed = 417"
| "status_code st_internal_server_error = 500"
| "status_code st_not_implemented = 501"
| "status_code st_bad_gateway = 502"
| "status_code st_service_unavailable = 503"
| "status_code st_gateway_time_out = 504"
| "status_code st_http_version_not_supported = 505"

fun status_reason :: "http_status \<Rightarrow> string" where
  "status_reason st_continue = ''Continue''"
| "status_reason st_switching_protocols = ''Switching Protocols''"
| "status_reason st_ok = ''OK''"
| "status_reason st_created = ''Created''"
| "status_reason st_accepted = ''Accepted''"
| "status_reason st_non_authoritative_information = ''Non-Authoritative Information''"
| "status_reason st_no_content = ''No Content''"
| "status_reason st_reset_content = ''Reset Content''"
| "status_reason st_partial_content = ''Partial Content''"
| "status_reason st_multiple_choices = ''Multiple Choices''"
| "status_reason st_moved_permanently = ''Moved Permanently''"
| "status_reason st_found = ''Found''"
| "status_reason st_see_other = ''See Other''"
| "status_reason st_not_modified = ''Not Modified''"
| "status_reason st_use_proxy = ''Use Proxy''"
| "status_reason st_temporary_redirect = ''Temporary Redirect''"
| "status_reason st_bad_request = ''Bad Request''"
| "status_reason st_unauthorized = ''Unauthorized''"
| "status_reason st_payment_required = ''Payment Required''"
| "status_reason st_forbidden = ''Forbidden''"
| "status_reason st_not_found = ''Not Found''"
| "status_reason st_method_not_allowed = ''Method Not Allowed''"
| "status_reason st_not_acceptable = ''Not Acceptable''"
| "status_reason st_proxy_authentication_required = ''Proxy Authentication Required''"
| "status_reason st_request_time_out = ''Request Timeout''"
| "status_reason st_conflict = ''Conflict''"
| "status_reason st_gone = ''Gone''"
| "status_reason st_length_required = ''Length Required''"
| "status_reason st_precondition_failed = ''Precondition Failed''"
| "status_reason st_request_entity_too_large = ''Payload Too Large''"
| "status_reason st_request_uri_too_large = ''URI Too Long''"
| "status_reason st_unsupported_media_type = ''Unsupported Media Type''"
| "status_reason st_requested_range_not_satisfiable = ''Range Not Satisfiable''"
| "status_reason st_expectation_failed = ''Expectation Failed''"
| "status_reason st_internal_server_error = ''Internal Server Error''"
| "status_reason st_not_implemented = ''Not Implemented''"
| "status_reason st_bad_gateway = ''Bad Gateway''"
| "status_reason st_service_unavailable = ''Service Unavailable''"
| "status_reason st_gateway_time_out = ''Gateway Timeout''"
| "status_reason st_http_version_not_supported = ''HTTP Version Not Supported''"

text \<open>
  The source's \<open>switch\<close> also has a \<open>default\<close> with the reason \<open>Unknown\<close>; the enumeration has no
  other value, and \<open>status_reason\<close> covers every one.
\<close>

definition make_status :: "http_status \<Rightarrow> u16 \<times> string" where
  "make_status status = (status_code status, status_reason status)"

lemma status_code_range: "100 \<le> unat (status_code s) \<and> unat (status_code s) \<le> 505"
  by (cases s) simp_all

end
