(* ===== verification/Unordered_Map.thy ===== *)
theory Unordered_Map
  imports Cpp_Library
begin

text \<open>
  \<open>std::unordered_map\<close> as the source uses it: \<open>find\<close>, \<open>insert\<close>/\<open>emplace\<close> (which keep the
  value of a key that is already there), \<open>operator[] =\<close> (which overwrites it) and iteration.
  The interface is the locale \<open>keyed_store\<close>; the model, an association list without repeated
  keys, is its interpretation \<open>um\<close>.  The standard leaves the iteration order open: an operation
  that iterates takes the order as an argument.
\<close>

type_synonym ('k, 'v) umap = "('k \<times> 'v) list"
type_synonym headers = "(string, string) umap"

definition um_find :: "('k, 'v) umap \<Rightarrow> 'k \<Rightarrow> 'v option" where
  "um_find m k = map_of m k"

definition um_insert :: "'k \<Rightarrow> 'v \<Rightarrow> ('k, 'v) umap \<Rightarrow> ('k, 'v) umap" where
  "um_insert k v m = (case um_find m k of None \<Rightarrow> m @ [(k, v)] | Some _ \<Rightarrow> m)"

fun um_assign :: "'k \<Rightarrow> 'v \<Rightarrow> ('k, 'v) umap \<Rightarrow> ('k, 'v) umap" where
  "um_assign k v [] = [(k, v)]"
| "um_assign k v ((k', v') # m) = (if k = k' then (k, v) # m else (k', v') # um_assign k v m)"

definition um_inv :: "('k, 'v) umap \<Rightarrow> bool" where
  "um_inv m \<longleftrightarrow> distinct (map fst m)"

subsection \<open>The interface\<close>

locale keyed_store =
  fixes empty :: 'm
    and find :: "'m \<Rightarrow> 'k \<Rightarrow> 'v option"
    and insert :: "'k \<Rightarrow> 'v \<Rightarrow> 'm \<Rightarrow> 'm"
    and assign :: "'k \<Rightarrow> 'v \<Rightarrow> 'm \<Rightarrow> 'm"
    and entries :: "'m \<Rightarrow> ('k \<times> 'v) list"
    and invar :: "'m \<Rightarrow> bool"
  assumes find_empty: "find empty k = None"
    and find_insert: "find (insert k v m) k' =
          (if k' = k \<and> find m k = None then Some v else find m k')"
    and find_assign: "find (assign k v m) k' = (if k' = k then Some v else find m k')"
    and entries_find: "invar m \<Longrightarrow> (k, v) \<in> set (entries m) \<longleftrightarrow> find m k = Some v"
    and entries_distinct: "invar m \<Longrightarrow> distinct (map fst (entries m))"
    and invar_empty: "invar empty"
    and invar_insert: "invar m \<Longrightarrow> invar (insert k v m)"
    and invar_assign: "invar m \<Longrightarrow> invar (assign k v m)"
begin

text \<open>Inserting a sequence of pairs, as the header parser does: the first value of a key wins.\<close>

lemma find_fold_insert:
  "find (fold (\<lambda>(k, v). insert k v) kvs m) k =
     (case find m k of Some v \<Rightarrow> Some v | None \<Rightarrow> map_of kvs k)"
proof (induction kvs arbitrary: m)
  case Nil
  show ?case by (simp split: option.split)
next
  case (Cons kv kvs)
  obtain k' v' where "kv = (k', v')" by (cases kv)
  with Cons show ?case by (auto simp: find_insert split: option.splits)
qed

lemma invar_fold_insert:
  "invar m \<Longrightarrow> invar (fold (\<lambda>(k, v). insert k v) kvs m)"
  by (induction kvs arbitrary: m) (auto simp: invar_insert)

lemma find_insert_same: "find m k = None \<Longrightarrow> find (insert k v m) k = Some v"
  by (simp add: find_insert)

lemma find_insert_present: "find m k = Some w \<Longrightarrow> find (insert k v m) = find m"
  by (rule ext) (simp add: find_insert)

lemma entries_unique:
  "invar m \<Longrightarrow> (k, v) \<in> set (entries m) \<Longrightarrow> (k, w) \<in> set (entries m) \<Longrightarrow> v = w"
  by (simp add: entries_find)

end

lemma um_insert_new: "k \<notin> fst ` set m \<Longrightarrow> um_insert k v m = m @ [(k, v)]"
  by (auto simp: um_insert_def um_find_def map_of_eq_None_iff split: option.split)

lemma um_insert_old:
  assumes "k \<in> fst ` set m"
  shows "um_insert k v m = m"
proof -
  have "map_of m k \<noteq> None" using assms by (simp add: map_of_eq_None_iff)
  then show ?thesis by (auto simp: um_insert_def um_find_def)
qed

lemma fst_um_assign: "fst ` set (um_assign k v m) = {k} \<union> fst ` set m"
proof (induction m)
  case Nil
  show ?case by simp
next
  case (Cons p m)
  then show ?case by (cases p) auto
qed

lemma um_inv_assign: "um_inv m \<Longrightarrow> um_inv (um_assign k v m)"
proof (induction m)
  case Nil
  show ?case by (simp add: um_inv_def)
next
  case (Cons p m)
  obtain k' v' where p: "p = (k', v')" by (cases p)
  with Cons have "um_inv (um_assign k v m)" and new: "k' \<notin> fst ` set m"
    by (auto simp: um_inv_def)
  moreover have "k' \<notin> fst ` set (um_assign k v m)" if "k \<noteq> k'"
    using new that by (simp add: fst_um_assign)
  ultimately show ?case using Cons.prems p by (auto simp: um_inv_def)
qed

interpretation um: keyed_store "[]" um_find um_insert um_assign "\<lambda>m. m" um_inv
proof
  show "um_find [] k = None" for k by (simp add: um_find_def)
  show "um_find (um_insert k v m) k' = (if k' = k \<and> um_find m k = None then Some v else um_find m k')"
    for k v m k'
    by (auto simp: um_insert_def um_find_def map_add_def split: option.split)
  show "um_find (um_assign k v m) k' = (if k' = k then Some v else um_find m k')" for k v m k'
    by (induction m) (auto simp: um_find_def)
  show "um_inv m \<Longrightarrow> (k, v) \<in> set m \<longleftrightarrow> um_find m k = Some v" for m k v
    by (simp add: um_inv_def um_find_def)
  show "um_inv m \<Longrightarrow> distinct (map fst m)" for m :: "('k, 'v) umap"
    by (simp add: um_inv_def)
  show "um_inv []" by (simp add: um_inv_def)
  show "um_inv m \<Longrightarrow> um_inv (um_insert k v m)" for m k v
    by (auto simp: um_inv_def um_insert_def um_find_def map_of_eq_None_iff split: option.split)
  show "um_inv m \<Longrightarrow> um_inv (um_assign k v m)" for m k v
    by (rule um_inv_assign)
qed

end
