(* ===== verification/Http_Message.thy ===== *)
theory Http_Message
  imports Http_Types Unordered_Map
begin

text \<open>
  \<open>http/http_request.hpp\<close> and \<open>http/http_response.hpp\<close>: the request record, the request
  context, and the response with the serializer \<open>build\<close>.  \<open>build\<close> iterates over an
  \<open>unordered_map\<close>, whose order the standard does not fix: its order is the argument \<open>ord\<close>,
  a rearrangement of the entries (\<open>map_order\<close>).
\<close>

definition cr :: char where
  "cr = CHR 0x0D"

definition lf :: char where
  "lf = CHR 0x0A"

definition crlf :: string where
  "crlf = [cr, lf]"

lemma crlf_distinct [simp]: "cr \<noteq> lf" "lf \<noteq> cr" "length crlf = 2"
  by (simp_all add: cr_def lf_def crlf_def)

subsection \<open>Requests\<close>

record http_form_upload =
  up_bytes :: string
  up_headers :: headers

record http_request =
  rq_method :: http_method
  rq_protocol_version :: int
  rq_target :: string
  rq_headers :: headers
  rq_body :: string
  rq_uploads :: "http_form_upload list"

text \<open>The two constructors.\<close>

definition mk_request :: "http_method \<Rightarrow> int \<Rightarrow> string \<Rightarrow> headers \<Rightarrow> string \<Rightarrow> http_request" where
  "mk_request m v t h b =
     \<lparr>rq_method = m, rq_protocol_version = v, rq_target = t, rq_headers = h, rq_body = b, rq_uploads = []\<rparr>"

definition mk_upload_request ::
    "http_method \<Rightarrow> int \<Rightarrow> string \<Rightarrow> headers \<Rightarrow> http_form_upload list \<Rightarrow> http_request" where
  "mk_upload_request m v t h u =
     \<lparr>rq_method = m, rq_protocol_version = v, rq_target = t, rq_headers = h, rq_body = [], rq_uploads = u\<rparr>"

text \<open>\<open>http_context\<close>; \<open>'x\<close> stands for the contents of \<open>std::any\<close>.\<close>

type_synonym 'x http_context = "(string, 'x) umap"

definition add_value :: "string \<times> 'x \<Rightarrow> 'x http_context \<Rightarrow> 'x http_context" where
  "add_value v values =
     (if values = [] then um_insert (fst v) (snd v) values else um_assign (fst v) (snd v) values)"

lemma find_add_value:
  "um_find (add_value (k, x) c) k' = (if k' = k then Some x else um_find c k')"
  by (simp add: add_value_def um.find_insert um.find_assign um.find_empty)

subsection \<open>Responses\<close>

record http_response =
  rs_buffer :: string
  rs_status :: http_status
  rs_body :: string
  rs_headers :: headers

definition new_response :: http_response where
  "new_response = \<lparr>rs_buffer = [], rs_status = st_internal_server_error, rs_body = [], rs_headers = []\<rparr>"

definition set_status :: "http_status \<Rightarrow> http_response \<Rightarrow> http_response" where
  "set_status status r = r\<lparr>rs_status := status\<rparr>"

definition add_header :: "string \<Rightarrow> string \<Rightarrow> http_response \<Rightarrow> http_response" where
  "add_header key value r = r\<lparr>rs_headers := um_insert key value (rs_headers r)\<rparr>"

definition set_body :: "string \<Rightarrow> http_response \<Rightarrow> http_response" where
  "set_body body r = r\<lparr>rs_body := body\<rparr>"

definition header_line :: "string \<times> string \<Rightarrow> string" where
  "header_line h = fst h @ '': '' @ snd h"

definition build :: "(headers \<Rightarrow> headers) \<Rightarrow> http_response \<Rightarrow> string \<times> http_response" where
  "build ord r =
     (let status_reason = make_status (rs_status r);
          b0 = ''HTTP/1.1'' @ '' '' @ to_string_nat (unat (fst status_reason)) @ '' ''
               @ snd status_reason @ crlf;
          r' = (if rs_body r \<noteq> []
                then add_header ''Content-Length'' (to_string_nat (length (rs_body r))) r else r);
          b1 = fold (\<lambda>h b. b @ header_line h @ crlf) (ord (rs_headers r')) b0;
          b2 = b1 @ crlf @ rs_body r'
      in (b2, r'\<lparr>rs_buffer := b2\<rparr>))"

text \<open>An iteration order: every entry once.\<close>

definition map_order :: "(headers \<Rightarrow> headers) \<Rightarrow> bool" where
  "map_order ord \<longleftrightarrow> (\<forall>m. set (ord m) = set m \<and> length (ord m) = length m)"

definition resp_inv :: "http_response \<Rightarrow> bool" where
  "resp_inv r \<longleftrightarrow> um_inv (rs_headers r)"

lemma resp_inv_new: "resp_inv new_response"
  by (simp add: resp_inv_def new_response_def um.invar_empty)

lemma resp_inv_ops:
  "resp_inv r \<Longrightarrow> resp_inv (set_status s r)"
  "resp_inv r \<Longrightarrow> resp_inv (set_body b r)"
  "resp_inv r \<Longrightarrow> resp_inv (add_header k v r)"
  by (simp_all add: resp_inv_def set_status_def set_body_def add_header_def um.invar_insert)

lemma fold_lines: "fold (\<lambda>h b. b @ header_line h @ crlf) hs b = b @ concat (map (\<lambda>h. header_line h @ crlf) hs)"
  by (induction hs arbitrary: b) auto

definition status_line :: "http_status \<Rightarrow> string" where
  "status_line s = ''HTTP/1.1 '' @ to_string_nat (unat (status_code s)) @ '' '' @ status_reason s"

text \<open>The header table \<open>build\<close> writes out: the table of the response, completed.\<close>

definition final_headers :: "http_response \<Rightarrow> headers" where
  "final_headers r =
     (if rs_body r \<noteq> []
      then um_insert ''Content-Length'' (to_string_nat (length (rs_body r))) (rs_headers r)
      else rs_headers r)"

lemma final_headers_inv: "resp_inv r \<Longrightarrow> um_inv (final_headers r)"
  by (simp add: final_headers_def resp_inv_def um.invar_insert)

lemma build_layout:
  "fst (build ord r) =
     status_line (rs_status r) @ crlf
     @ concat (map (\<lambda>h. header_line h @ crlf) (ord (final_headers r))) @ crlf @ rs_body r"
  by (simp add: build_def Let_def fold_lines final_headers_def status_line_def make_status_def
      add_header_def)

lemma snd_build:
  "snd (build ord r) = r\<lparr>rs_headers := final_headers r, rs_buffer := fst (build ord r)\<rparr>"
  by (simp add: build_def Let_def final_headers_def add_header_def)

subsection \<open>A reader of responses\<close>

text \<open>
  The specification of what a client does with the bytes: lines end at the first CR LF, the head
  ends at the first empty line, the body is the rest.
\<close>

fun take_line :: "string \<Rightarrow> (string \<times> string) option" where
  "take_line (c # d # cs) =
     (if c = cr \<and> d = lf then Some ([], cs)
      else map_option (\<lambda>(l, r). (c # l, r)) (take_line (d # cs)))"
| "take_line _ = None"

lemma take_line_shorter: "take_line s = Some (l, r) \<Longrightarrow> length r < length s"
proof (induction s arbitrary: l rule: take_line.induct)
  case (1 c d cs)
  then show ?case by (fastforce split: if_splits)
qed auto

function read_head :: "string \<Rightarrow> (string list \<times> string) option" where
  "read_head s =
     (case take_line s of
        None \<Rightarrow> None
      | Some (l, r) \<Rightarrow>
          if l = [] then Some ([], r)
          else map_option (\<lambda>(ls, b). (l # ls, b)) (read_head r))"
  by pat_completeness auto
termination
  by (relation "measure length") (auto dest: take_line_shorter)

declare read_head.simps [simp del]

lemma take_line_crlf:
  "cr \<notin> set l \<Longrightarrow> take_line (l @ crlf @ r) = Some (l, r)"
proof (induction l)
  case Nil
  show ?case by (simp add: crlf_def)
next
  case (Cons c l)
  then show ?case by (cases l) (auto simp: crlf_def)
qed

lemma read_head_lines:
  assumes "\<And>l. l \<in> set ls \<Longrightarrow> cr \<notin> set l \<and> l \<noteq> []"
  shows "read_head (concat (map (\<lambda>l. l @ crlf) ls) @ crlf @ b) = Some (ls, b)"
  using assms
proof (induction ls)
  case Nil
  show ?case
    using take_line_crlf [of "[]" b] by (simp add: read_head.simps)
next
  case (Cons l ls)
  then have l: "cr \<notin> set l" "l \<noteq> []" by auto
  have "read_head (concat (map (\<lambda>l. l @ crlf) ls) @ crlf @ b) = Some (ls, b)"
    using Cons by auto
  with l show ?case
    using take_line_crlf [OF l(1), of "concat (map (\<lambda>l. l @ crlf) ls) @ crlf @ b"]
    by (simp add: read_head.simps [of "l @ _"])
qed

lemma dec_not_cr: "is_dec c \<Longrightarrow> c \<noteq> cr"
  by (auto simp: is_dec_def cr_def)

lemma status_line_clean: "cr \<notin> set (status_line s)"
proof -
  have "cr \<notin> set (to_string_nat n)" for n
    using to_string_nat_dec [of cr n] dec_not_cr [of cr] by auto
  moreover have "cr \<notin> set (status_reason s)"
    by (cases s) (simp_all add: cr_def)
  ultimately show ?thesis by (simp add: status_line_def cr_def)
qed

text \<open>A header that contains no CR cannot break the head of the message.\<close>

definition clean_header :: "string \<times> string \<Rightarrow> bool" where
  "clean_header h \<longleftrightarrow> cr \<notin> set (fst h) \<and> cr \<notin> set (snd h)"

lemma clean_header_line: "clean_header h \<Longrightarrow> cr \<notin> set (header_line h)"
  by (simp add: clean_header_def header_line_def cr_def)

lemma line_nonempty [simp]: "header_line h \<noteq> []" "status_line s \<noteq> []"
  by (simp_all add: header_line_def status_line_def)

lemma content_length_clean: "cr \<notin> set (to_string_nat n)"
  using to_string_nat_dec [of cr n] dec_not_cr [of cr] by auto

lemma final_headers_set:
  "set (final_headers r) \<subseteq> {(''Content-Length'', to_string_nat (length (rs_body r)))} \<union> set (rs_headers r)"
  by (auto simp: final_headers_def um_insert_def split: option.splits)

lemma read_head_build:
  assumes ord: "map_order ord"
    and clean: "\<And>h. h \<in> set (rs_headers r) \<Longrightarrow> clean_header h"
  shows "read_head (fst (build ord r)) =
    Some (status_line (rs_status r) # map header_line (ord (final_headers r)), rs_body r)"
proof -
  let ?ls = "status_line (rs_status r) # map header_line (ord (final_headers r))"
  have "clean_header h" if "h \<in> set (ord (final_headers r))" for h
  proof -
    from that ord have "h \<in> set (final_headers r)" by (simp add: map_order_def)
    with final_headers_set [of r]
    have "h = (''Content-Length'', to_string_nat (length (rs_body r))) \<or> h \<in> set (rs_headers r)"
      by blast
    then show ?thesis
    proof
      assume "h = (''Content-Length'', to_string_nat (length (rs_body r)))"
      moreover have "cr \<notin> set ''Content-Length''" by (simp add: cr_def)
      ultimately show ?thesis by (simp add: clean_header_def content_length_clean)
    qed (rule clean)
  qed
  then have lines: "\<And>l. l \<in> set ?ls \<Longrightarrow> cr \<notin> set l \<and> l \<noteq> []"
    using status_line_clean clean_header_line by auto
  have "fst (build ord r) = concat (map (\<lambda>l. l @ crlf) ?ls) @ crlf @ rs_body r"
    by (simp add: build_layout comp_def)
  then show ?thesis by (simp only: read_head_lines [OF lines])
qed

end
