(* ===== verification/Base_Theorems.thy ===== *)
theory Base_Theorems
  imports String_Utils Char_Class Http_Message
begin

text \<open>
  Properties of the string utilities, the character classes, the error codes and the response
  serializer.
\<close>

subsection \<open>Strings\<close>

text \<open>
  C33. \<open>split\<close> is the splitting of a string at every delimiter: joining the tokens with the
  delimiter gives the string back, there is one token more than delimiters, no token contains
  the delimiter, and \<open>skip_empty\<close> drops exactly the empty tokens.
\<close>

theorem split_correct:
  "join d (split s d False) = s \<and> length (split s d False) = Suc (count_list s d) \<and>
   (\<forall>t \<in> set (split s d False). d \<notin> set t) \<and>
   split s d True = filter (\<lambda>t. t \<noteq> []) (split s d False)"
  by (auto simp: split_eq_ref join_split_ref length_split_ref dest: split_ref_tokens)

theorem split_correct_witness:
  "''b'' \<in> set (split ''a,,b'' (CHR '','') False) \<and> CHR '','' \<notin> set ''b'' \<and>
   join (CHR '','') (split ''a,,b'' (CHR '','') False) = ''a,,b''"
proof -
  have "''b'' \<in> set (split ''a,,b'' (CHR '','') False)" by (simp add: split_eq_ref)
  with split_correct [of "CHR '',''" "''a,,b''"] show ?thesis by blast
qed

text \<open>
  \<open>replace_all\<close> with a non-empty search string ends and replaces the occurrences from left to
  right without overlap, in the text as it was (a replacement is never searched again); it
  returns true exactly when the search string occurs.
\<close>

lemma replace_all_correct:
  assumes "sub \<noteq> []"
  shows "replace_all s sub w = Some (replace_ref sub w s, occurs sub s)"
  by (rule replace_all_ref [OF assms])

lemma replace_all_correct_witness:
  "replace_all ''aaba'' ''a'' ''aa'' = Some (''aaaabaa'', True)"
proof -
  have "replace_ref ''a'' ''aa'' ''aaba'' = ''aaaabaa''" by (simp add: replace_ref.simps)
  moreover have "occurs ''a'' ''aaba''" unfolding occurs_def by (rule exI [where x = 0]) simp
  ultimately show ?thesis using replace_all_correct [of "''a''" "''aaba''" "''aa''"] by simp
qed

text \<open>\<open>replace_all\<close> with an empty search string never returns, whatever the text.\<close>

lemma replace_all_empty_diverges: "replace_all s [] w = None"
proof (cases "replace_all s [] w")
  case (Some r)
  then have "replace_all_loop s [] w 0 False = Some r" by (simp add: replace_all_def)
  from replace_all_loop_empty [OF this] show ?thesis by simp
qed

text \<open>
  C40. \<open>replace_all\<close> returns exactly when the search string is not empty; then it has replaced the
  occurrences from left to right without overlap, in the text as it was (a replacement is never
  searched again), and its result says whether there was one.
\<close>

theorem replace_all_returns_iff:
  "replace_all s sub w = (if sub = [] then None else Some (replace_ref sub w s, occurs sub s))"
  by (simp add: replace_all_empty_diverges replace_all_ref)

subsection \<open>Character classes\<close>

text \<open>
  The token table accepts exactly the \<open>tchar\<close> of RFC 7230 (the 15 marks, digits and
  letters), the path table every byte but the controls, the space and DEL, and
  \<open>is_valid_token\<close> the visible ASCII characters but the colon, so that every \<open>tchar\<close> is accepted
  in a header name.
\<close>

lemma char_classes:
  "(is_token_char c \<longleftrightarrow> c \<in> set ''!#$%&*+-.^_`|~'' \<union> {CHR 0x27} \<or> is_dec c \<or> is_alpha_c c) \<and>
   (is_pathchar c \<longleftrightarrow> 33 \<le> (of_char c :: nat) \<and> (of_char c :: nat) \<noteq> 127) \<and>
   (is_valid_token c \<longleftrightarrow> 33 \<le> (of_char c :: nat) \<and> (of_char c :: nat) \<le> 126 \<and> c \<noteq> CHR '':'') \<and>
   \<not> (is_token_char c \<and> \<not> is_valid_token c)"
proof -
  have eq: "c = d \<longleftrightarrow> (of_char c :: nat) = of_char d" for d :: char
    by (simp only: of_char_eq_iff)
  have marks: "c \<in> set ''!#$%&*+-.^_`|~'' \<union> {CHR 0x27} \<longleftrightarrow> (of_char c :: nat) \<in> set tchar_marks"
    by (simp add: eq tchar_marks_def) blast
  have token: "is_token_char c \<longleftrightarrow> c \<in> set ''!#$%&*+-.^_`|~'' \<union> {CHR 0x27} \<or> is_dec c \<or> is_alpha_c c"
    unfolding marks by (auto simp: is_token_char_iff is_dec_def is_alpha_c_def alnum_code_def)
  moreover have "is_valid_token c \<longleftrightarrow> 33 \<le> (of_char c :: nat) \<and> (of_char c :: nat) \<le> 126 \<and> c \<noteq> CHR '':''"
    by (simp add: is_valid_token_iff eq)
  moreover have "\<not> (is_token_char c \<and> \<not> is_valid_token c)"
    by (auto simp: is_token_char_iff is_valid_token_iff alnum_code_def tchar_marks_def)
  ultimately show ?thesis by (simp add: is_pathchar_iff)
qed

subsection \<open>Error codes\<close>

text \<open>
  \<open>make_error\<close> explains every error with the server's category: the message of
  \<open>service_not_started\<close> is that the server is already started, and the message of the session's
  \<open>sent_bytes_is_zero\<close> is the same, while the categories written for the two say otherwise.
\<close>

lemma make_error_wrong_category:
  "ec_message (make_error (service_error_value sv_service_not_started)) = Some ''Server is already started'' \<and>
   ec_message (make_error (session_error_value ss_sent_bytes_is_zero)) = Some ''Server is already started'' \<and>
   service_message (service_error_value sv_service_not_started) = ''Service is not started'' \<and>
   session_message (session_error_value ss_sent_bytes_is_zero) = ''You are sending zero bytes''"
  by (simp add: ec_message_def make_error_def server_message_def service_message_def session_message_def)

subsection \<open>Responses\<close>

text \<open>
  C16. A built response reads back: when no header holds a CR, a client that reads lines up to
  the first empty one gets the status line, every header of the response (in the order of the
  table) and the body, byte for byte.
\<close>

theorem build_reads_back:
  assumes "map_order ord" "\<forall>h \<in> set (rs_headers r). clean_header h"
  shows "read_head (fst (build ord r)) =
    Some (status_line (rs_status r) # map header_line (ord (final_headers r)), rs_body r)"
  by (rule read_head_build) (use assms in auto)

lemma final_headers_again:
  "rs_headers q = final_headers r \<Longrightarrow> um_find (final_headers r) ''Content-Length'' = Some v
    \<Longrightarrow> final_headers q = final_headers r"
  by (simp add: final_headers_def [of q] um_insert_def)

definition demo_response :: http_response where
  "demo_response = set_body ''Hello'' (add_header ''A'' ''b'' (set_status st_ok new_response))"

lemma rev_map_order: "map_order rev"
  by (simp add: map_order_def)

theorem build_reads_back_witness:
  "read_head (fst (build rev demo_response)) =
    Some ([''HTTP/1.1 200 OK'', ''Content-Length: 5'', ''A: b''], ''Hello'')"
proof -
  have clean: "\<forall>h \<in> set (rs_headers demo_response). clean_header h" by code_simp
  have "status_line (rs_status demo_response) # map header_line (rev (final_headers demo_response)) =
    [''HTTP/1.1 200 OK'', ''Content-Length: 5'', ''A: b'']" "rs_body demo_response = ''Hello''"
    by code_simp+
  with build_reads_back [OF rev_map_order clean] show ?thesis by simp
qed

text \<open>
  \<open>build\<close> announces the body: a response with a body and no \<open>Content-Length\<close> of its own is
  sent with one whose value, read back by \<open>atoi\<close>, is the number of bytes of the body; a response
  without a body gets none.
\<close>

lemma build_content_length:
  assumes "um_find (rs_headers r) ''Content-Length'' = None" "int (length (rs_body r)) \<le> int_max"
  shows "(case um_find (rs_headers (snd (build ord r))) ''Content-Length'' of
            None \<Rightarrow> rs_body r = []
          | Some v \<Rightarrow> rs_body r \<noteq> [] \<and> atoi v = Some (int (length (rs_body r))))"
  using assms by (simp add: snd_build final_headers_def um.find_insert atoi_to_string)

lemma build_content_length_witness:
  "(case um_find (rs_headers (snd (build rev demo_response))) ''Content-Length'' of
      None \<Rightarrow> rs_body demo_response = []
    | Some v \<Rightarrow> rs_body demo_response \<noteq> [] \<and> atoi v = Some (int (length (rs_body demo_response))))"
  by (rule build_content_length) code_simp+

text \<open>
  Building twice sends the same bytes, but the first \<open>build\<close> fixes the announced length for
  good: after a \<open>set_body\<close> a second \<open>build\<close> still announces the length of the first body.
\<close>

lemma build_again:
  assumes "rs_body r \<noteq> []" "um_find (rs_headers r) ''Content-Length'' = None"
  shows "fst (build ord (snd (build ord r))) = fst (build ord r) \<and>
    um_find (rs_headers (snd (build ord (set_body b (snd (build ord r)))))) ''Content-Length'' =
      Some (to_string_nat (length (rs_body r)))"
proof -
  have cl: "um_find (final_headers r) ''Content-Length'' = Some (to_string_nat (length (rs_body r)))"
    using assms by (simp add: final_headers_def um.find_insert)
  have "final_headers (snd (build ord r)) = final_headers r"
    by (rule final_headers_again [OF _ cl]) (simp add: snd_build)
  moreover have "final_headers (set_body b (snd (build ord r))) = final_headers r"
    by (rule final_headers_again [OF _ cl]) (simp add: snd_build set_body_def)
  ultimately show ?thesis
    using cl by (simp add: build_layout snd_build [of ord "set_body b (snd (build ord r))"]) (simp add: snd_build)
qed

lemma build_again_witness:
  "um_find (rs_headers (snd (build rev (set_body ''Hi'' (snd (build rev demo_response)))))) ''Content-Length'' = Some ''5''"
proof -
  have "rs_body demo_response \<noteq> []" "um_find (rs_headers demo_response) ''Content-Length'' = None"
    "to_string_nat (length (rs_body demo_response)) = ''5''"
    by code_simp+
  with build_again [of demo_response rev "''Hi''"] show ?thesis by simp
qed

end
