(* ===== verification/Http_Parser.thy ===== *)
theory Http_Parser
  imports Char_Class Http_Message String_Utils
begin

text \<open>
  \<open>server/http/http_parser.hpp\<close>: the class \<open>parser\<close> of HTTP requests.

  A member function takes the allocation \<open>mem\<close> the pointers point into, the index \<open>lst\<close> (the source's \<open>last\<close>) of
  the end of the received data, the index \<open>it\<close> of the current position and the parser's state,
  and returns the new position and state with the error it sets (\<open>None\<close> in the error position
  is an \<open>error_code\<close> that is not set).  The whole result is an \<open>option\<close>: \<open>None\<close> is undefined
  behaviour, a read outside the allocation or a \<open>std::isprint\<close> (\<open>isspace\<close>, \<open>isalpha\<close>) of a
  negative \<open>char\<close>.  An exception that leaves the parser is an \<open>Inl\<close>.
\<close>

datatype content_type =
    ct_text | ct_image | ct_audio | ct_video | ct_application_json | ct_multipart_formdata
  | ct_message | ct_unknown | ct_not_specified | ct_image_jpeg | ct_form_urlencoded

record parser =
  ps_phase :: parse_phase
  ps_header_limit :: "32 word"
  ps_method :: string
  ps_target :: string
  ps_version :: int
  ps_headers :: headers
  ps_body :: string
  ps_uploads :: "http_form_upload list"
  ps_content_type :: "content_type option" \<comment> \<open>not initialised by the constructor: \<open>None\<close>\<close>
  ps_readed :: u64
  ps_multipart :: string
  ps_boundary_length :: nat
  ps_boundary :: string
  ps_upload_headers :: headers

definition new_parser :: parser where
  "new_parser = \<lparr>ps_phase = ph_not_started, ps_header_limit = 8192, ps_method = [], ps_target = [],
     ps_version = 0, ps_headers = [], ps_body = [], ps_uploads = [], ps_content_type = None,
     ps_readed = 0, ps_multipart = [], ps_boundary_length = 0, ps_boundary = [],
     ps_upload_headers = []\<rparr>"

text \<open>A chain of comparisons of consecutive bytes that stops at the first difference.\<close>

fun at_seq :: "char list \<Rightarrow> nat \<Rightarrow> string \<Rightarrow> bool option" where
  "at_seq mem i [] = Some True"
| "at_seq mem i (c # cs) = do { x \<leftarrow> rd mem i; if x = c then at_seq mem (Suc i) cs else Some False }"

text \<open>The same with \<open>*it++ != c\<close>, which moves the pointer before it compares.\<close>

fun expect_seq :: "char list \<Rightarrow> nat \<Rightarrow> string \<Rightarrow> (nat \<times> bool) option" where
  "expect_seq mem it [] = Some (it, True)"
| "expect_seq mem it (c # cs) =
     do { x \<leftarrow> rd mem it; if x \<noteq> c then Some (Suc it, False) else expect_seq mem (Suc it) cs }"

subsection \<open>The request line\<close>

function parse_method_loop :: "char list \<Rightarrow> nat \<Rightarrow> nat \<Rightarrow> (nat \<times> http_error option) option" where
  "parse_method_loop mem lst it =
     (if it < lst then do {
        c \<leftarrow> rd mem it;
        if \<not> is_token_char c then Some (it, None)
        else do {
          alpha \<leftarrow> isalpha c;
          if \<not> alpha then Some (it, Some e_bad_method) else parse_method_loop mem lst (Suc it)
        }
      } else Some (it, None))"
  by pat_completeness auto
termination
  by (relation "measure (\<lambda>(mem, lst, it). lst - it)") auto

declare parse_method_loop.simps [simp del]

definition parse_method ::
    "char list \<Rightarrow> nat \<Rightarrow> nat \<Rightarrow> parser \<Rightarrow> (nat \<times> parser \<times> string \<times> http_error option) option" where
  "parse_method mem lst it p =
     (let p = p\<lparr>ps_phase := ph_method\<rparr>; first = it in do {
        c0 \<leftarrow> rd mem it;
        space \<leftarrow> isspace c0;
        if space then Some (it, p, [], Some e_bad_method)
        else do {
          (it, e) \<leftarrow> parse_method_loop mem lst it;
          if e \<noteq> None then Some (it, p, [], e)
          else if it + 1 \<ge> lst then Some (it, p, [], Some e_incomplete_start_line)
          else do {
            c \<leftarrow> rd mem it;
            if c \<noteq> CHR '' '' then Some (it, p, [], Some e_bad_method)
            else if it = lst then Some (it, p, [], Some e_bad_method)
            else Some (it + 1, p\<lparr>ps_phase := ph_method_finished\<rparr>, bytes mem first it, None)
          }
        }
      })"

function parse_target_loop :: "char list \<Rightarrow> nat \<Rightarrow> nat \<Rightarrow> nat option" where
  "parse_target_loop mem lst it =
     (if it < lst then do {
        c \<leftarrow> rd mem it;
        if \<not> is_pathchar c then Some it else parse_target_loop mem lst (Suc it)
      } else Some it)"
  by pat_completeness auto
termination
  by (relation "measure (\<lambda>(mem, lst, it). lst - it)") auto

declare parse_target_loop.simps [simp del]

definition parse_target ::
    "char list \<Rightarrow> nat \<Rightarrow> nat \<Rightarrow> parser \<Rightarrow> (nat \<times> parser \<times> string \<times> http_error option) option" where
  "parse_target mem lst it p =
     (let p = p\<lparr>ps_phase := ph_target\<rparr>; first = it in do {
        c0 \<leftarrow> rd mem it;
        if \<not> is_pathchar c0 then Some (it, p, [], Some e_bad_target)
        else do {
          it \<leftarrow> parse_target_loop mem lst it;
          if it + 1 \<ge> lst then Some (it, p, [], Some e_incomplete_start_line)
          else do {
            c \<leftarrow> rd mem it;
            if c \<noteq> CHR '' '' then Some (it, p, [], Some e_bad_target)
            else if it = lst then Some (it, p, [], Some e_bad_target)
            else Some (it + 1, p\<lparr>ps_phase := ph_target_finished\<rparr>, bytes mem first it, None)
          }
        }
      })"

text \<open>\<open>parse_protocol\<close> is called with the member \<open>protocol_version_\<close> as its output.\<close>

definition parse_protocol ::
    "char list \<Rightarrow> nat \<Rightarrow> nat \<Rightarrow> parser \<Rightarrow> (nat \<times> parser \<times> http_error option) option" where
  "parse_protocol mem lst it p =
     (let p = p\<lparr>ps_phase := ph_protocol_version\<rparr> in
      if it + 8 > lst then Some (it, p, Some e_incomplete_start_line)
      else do {
        (it, ok) \<leftarrow> expect_seq mem it ''HTTP/'';
        if \<not> ok then Some (it, p, Some e_bad_version)
        else do {
          major \<leftarrow> rd mem it;
          if \<not> is_digit major then Some (it, p, Some e_bad_version)
          else let p = p\<lparr>ps_version := 10 * (schar major - 48)\<rparr> in do {
            (it, ok) \<leftarrow> expect_seq mem (it + 1) ''.'';
            if \<not> ok then Some (it, p, Some e_bad_version)
            else do {
              minor \<leftarrow> rd mem it;
              if \<not> is_digit minor then Some (it, p, Some e_bad_version)
              else Some (it + 1, p\<lparr>ps_version := ps_version p + (schar minor - 48),
                                   ps_phase := ph_protocol_version_finished\<rparr>, None)
            }
          }
        }
      })"

subsection \<open>Message headers\<close>

text \<open>The flag of \<open>header_name_loop\<close> is false when a byte is not a token character.\<close>

function header_name_loop :: "char list \<Rightarrow> nat \<Rightarrow> nat \<Rightarrow> (nat \<times> bool) option" where
  "header_name_loop mem lst it =
     (if it < lst then do {
        c \<leftarrow> rd mem it;
        if c = CHR '':'' then Some (it, True)
        else if \<not> is_valid_token c then Some (it, False)
        else header_name_loop mem lst (Suc it)
      } else Some (it, True))"
  by pat_completeness auto
termination
  by (relation "measure (\<lambda>(mem, lst, it). lst - it)") auto

declare header_name_loop.simps [simp del]

definition parse_message_header_name ::
    "char list \<Rightarrow> nat \<Rightarrow> nat \<Rightarrow> http_error option \<Rightarrow> (nat \<times> string \<times> http_error option) option" where
  "parse_message_header_name mem lst first ec =
     do {
       (it, ok) \<leftarrow> header_name_loop mem lst first;
       if \<not> ok then Some (it, [], Some e_bad_field)
       else Some (it + 1, bytes mem first it, ec)
     }"

text \<open>The flag of \<open>skip_lws\<close> is false when the data ends first.\<close>

function skip_lws :: "char list \<Rightarrow> nat \<Rightarrow> nat \<Rightarrow> (nat \<times> bool) option" where
  "skip_lws mem lst it =
     (if it + 1 > lst then Some (it, False)
      else do {
        c \<leftarrow> rd mem it;
        if \<not> (c = CHR '' '' \<or> c = CHR 0x09) then Some (it, True) else skip_lws mem lst (Suc it)
      })"
  by pat_completeness auto
termination
  by (relation "measure (\<lambda>(mem, lst, it). lst - it)") auto

declare skip_lws.simps [simp del]

function header_value_loop :: "char list \<Rightarrow> nat \<Rightarrow> nat \<Rightarrow> (nat \<times> bool) option" where
  "header_value_loop mem lst it =
     (if it < lst then do {
        eol \<leftarrow> at_seq mem it crlf;
        if eol then Some (it, True)
        else do {
          c \<leftarrow> rd mem it;
          pr \<leftarrow> isprint c;
          if \<not> pr then Some (it, False) else header_value_loop mem lst (Suc it)
        }
      } else Some (it, True))"
  by pat_completeness auto
termination
  by (relation "measure (\<lambda>(mem, lst, it). lst - it)") auto

declare header_value_loop.simps [simp del]

definition parse_message_header_value ::
    "char list \<Rightarrow> nat \<Rightarrow> nat \<Rightarrow> http_error option \<Rightarrow> (nat \<times> string \<times> http_error option) option" where
  "parse_message_header_value mem lst it ec =
     do {
       (it, more) \<leftarrow> skip_lws mem lst it;
       if \<not> more then Some (it, [], Some e_incomplete_message_header)
       else let first = it in do {
         (it, ok) \<leftarrow> header_value_loop mem lst it;
         if \<not> ok then Some (it, [], Some e_bad_field_value)
         else Some (it, bytes mem first it, ec)
       }
     }"

subsubsection \<open>The pointers only move forward\<close>

lemma header_name_loop_ge: "header_name_loop mem lst it = Some (j, b) \<Longrightarrow> it \<le> j"
proof (induction mem lst it rule: header_name_loop.induct)
  case (1 mem lst it)
  then show ?case
    by (subst (asm) header_name_loop.simps)
       (fastforce simp: option_bind_Some_iff split: if_splits)
qed

lemma skip_lws_ge: "skip_lws mem lst it = Some (j, b) \<Longrightarrow> it \<le> j"
proof (induction mem lst it rule: skip_lws.induct)
  case (1 mem lst it)
  then show ?case
    by (subst (asm) skip_lws.simps) (fastforce simp: option_bind_Some_iff split: if_splits)
qed

lemma header_value_loop_ge: "header_value_loop mem lst it = Some (j, b) \<Longrightarrow> it \<le> j"
proof (induction mem lst it rule: header_value_loop.induct)
  case (1 mem lst it)
  then show ?case
    by (subst (asm) header_value_loop.simps)
       (fastforce simp: option_bind_Some_iff split: if_splits)
qed

lemma parse_message_header_name_ge:
  "parse_message_header_name mem lst it ec = Some (j, n, e) \<Longrightarrow> it \<le> j"
  by (auto simp: parse_message_header_name_def option_bind_Some_iff split: if_splits
      dest!: header_name_loop_ge)

lemma parse_message_header_value_ge:
  "parse_message_header_value mem lst it ec = Some (j, n, e) \<Longrightarrow> it \<le> j"
  by (auto simp: parse_message_header_value_def option_bind_Some_iff Let_def split: if_splits
      dest!: skip_lws_ge header_value_loop_ge)

text \<open>
  The loop of \<open>parse_message_header\<close>.  An error does not leave it: the loop goes on with the
  next byte and the error of a later header replaces that of an earlier one.
\<close>

function header_loop ::
    "char list \<Rightarrow> nat \<Rightarrow> nat \<Rightarrow> headers \<Rightarrow> http_error option
      \<Rightarrow> (nat \<times> headers \<times> http_error option) option" where
  "header_loop mem lst it headers ec =
     (if it < lst then do {
        (it1, name, ec1) \<leftarrow> parse_message_header_name mem lst it ec;
        (it2, val, ec2) \<leftarrow> parse_message_header_value mem lst it1 ec1;
        let headers' = um_insert (to_lower name) val headers;
        c0 \<leftarrow> rd mem it2;
        if c0 = cr then do {
          c1 \<leftarrow> rd mem (it2 + 1);
          let ec3 = (if c1 \<noteq> lf then Some e_invalid_message_header_crlf else ec2);
          fin \<leftarrow> at_seq mem (it2 + 2) crlf;
          if fin then Some (it2, headers', ec3)
          else header_loop mem lst (it2 + 2) headers' ec3
        }
        else header_loop mem lst (it2 + 1) headers' ec2
      } else Some (it, headers, ec))"
  by pat_completeness auto
termination
  by (relation "measure (\<lambda>(mem, lst, it, headers, ec). lst - it)")
     (auto dest!: parse_message_header_name_ge parse_message_header_value_ge)

declare header_loop.simps [simp del]

definition parse_message_header ::
    "char list \<Rightarrow> nat \<Rightarrow> nat \<Rightarrow> headers \<Rightarrow> http_error option
      \<Rightarrow> (nat \<times> parse_phase \<times> headers \<times> http_error option) option" where
  "parse_message_header mem lst it headers ec =
     (if it + 2 > lst then Some (it, ph_headers, headers, Some e_incomplete_message_header)
      else do {
        (it, headers, ec) \<leftarrow> header_loop mem lst it headers ec;
        Some (it, ph_headers_finished, headers, ec)
      })"

subsection \<open>The content type and the start line\<close>

definition content_type_of :: "string \<Rightarrow> content_type" where
  "content_type_of type =
     (if type = ''multipart/form-data'' then ct_multipart_formdata
      else if type = ''application/json'' then ct_application_json
      else if type = ''image/jpeg'' then ct_image_jpeg
      else if type = ''application/x-www-form-urlencoded'' then ct_form_urlencoded
      else ct_unknown)"

definition parse_content_type :: "headers \<Rightarrow> parser \<Rightarrow> parser" where
  "parse_content_type headers p =
     (let p = p\<lparr>ps_phase := ph_content_type\<rparr> in
      case um_find headers ''content-type'' of
        None \<Rightarrow> p\<lparr>ps_content_type := Some ct_not_specified, ps_phase := ph_content_type_finished\<rparr>
      | Some h \<Rightarrow>
          let tokens = split h (CHR '';'') False;
              type = (if length tokens > 0 then tokens ! 0 else h)
          in p\<lparr>ps_content_type := Some (content_type_of type), ps_phase := ph_content_type_finished\<rparr>)"

definition supported_content_type :: "content_type \<Rightarrow> bool" where
  "supported_content_type ct \<longleftrightarrow>
     ct \<in> {ct_application_json, ct_multipart_formdata, ct_not_specified, ct_form_urlencoded, ct_image_jpeg}"

definition parse_start_line ::
    "char list \<Rightarrow> nat \<Rightarrow> nat \<Rightarrow> parser \<Rightarrow> (nat \<times> parser \<times> http_error option) option" where
  "parse_start_line mem lst it p =
     do {
       (it, p, method, ec) \<leftarrow> parse_method mem lst it (p\<lparr>ps_phase := ph_start_line_started\<rparr>);
       if ec \<noteq> None then Some (it, p, ec)
       else do {
         (it, p, target, ec) \<leftarrow> parse_target mem lst it (p\<lparr>ps_method := method\<rparr>);
         if ec \<noteq> None then Some (it, p, ec)
         else do {
           (it, p, ec) \<leftarrow> parse_protocol mem lst it (p\<lparr>ps_target := target\<rparr>);
           if ec \<noteq> None then Some (it, p, ec)
           else if ps_version p < 11 \<or> ps_version p > 11 then Some (it, p, Some e_bad_version)
           else if it + 2 > lst then Some (it, p, Some e_incomplete_start_line)
           else do {
             c0 \<leftarrow> rd mem it;
             bad \<leftarrow> (if c0 \<noteq> cr then do { c1 \<leftarrow> rd mem (it + 1); Some (c1 \<noteq> lf) } else Some False);
             if bad then Some (it, p, Some e_invalid_request_line)
             else do {
               (it, phase, headers, ec) \<leftarrow> parse_message_header mem lst (it + 2) (ps_headers p) None;
               let p = parse_content_type headers (p\<lparr>ps_phase := phase, ps_headers := headers\<rparr>);
               ct \<leftarrow> ps_content_type p;
               if \<not> supported_content_type ct then Some (it, p, Some e_content_type_not_implemented)
               else Some (it, p, ec)
             }
           }
         }
       }
     }"

subsection \<open>Uploads\<close>

text \<open>
  The inner loop of \<open>verify_boundary_value\<close>: the number of matches since the last mismatch,
  not counting the comparisons made while \<open>*it\<close> is a dash.
\<close>

fun boundary_count :: "char list \<Rightarrow> nat \<Rightarrow> nat \<Rightarrow> string \<Rightarrow> nat \<Rightarrow> nat option" where
  "boundary_count mem it c [] match_count = Some match_count"
| "boundary_count mem it c (b # bs) match_count =
     do {
       x \<leftarrow> rd mem (it + c);
       if x \<noteq> b then boundary_count mem it (Suc c) bs 0
       else do {
         y \<leftarrow> rd mem it;
         if y = CHR ''-'' then boundary_count mem it (Suc c) bs match_count
         else boundary_count mem it (Suc c) bs (match_count + 1)
       }
     }"

function verify_boundary_value ::
    "char list \<Rightarrow> nat \<Rightarrow> nat \<Rightarrow> nat \<Rightarrow> string \<Rightarrow> (nat \<times> bool) option" where
  "verify_boundary_value mem lst it len bound =
     (if it < lst then do {
        n \<leftarrow> boundary_count mem it 0 (take len bound) 0;
        if n = len then Some (it, True) else verify_boundary_value mem lst (Suc it) len bound
      } else Some (it, False))"
  by pat_completeness auto
termination
  by (relation "measure (\<lambda>(mem, lst, it, len, bound). lst - it)") auto

declare verify_boundary_value.simps [simp del]

function skip_dashes :: "char list \<Rightarrow> nat \<Rightarrow> nat \<Rightarrow> nat option" where
  "skip_dashes mem lst it =
     (if it < lst then do {
        c \<leftarrow> rd mem it;
        if c = CHR ''-'' then skip_dashes mem lst (Suc it) else Some it
      } else Some it)"
  by pat_completeness auto
termination
  by (relation "measure (\<lambda>(mem, lst, it). lst - it)") auto

declare skip_dashes.simps [simp del]

text \<open>The flag of \<open>boundary_line_loop\<close> is true at the closing boundary, where the source returns.\<close>

function boundary_line_loop :: "char list \<Rightarrow> nat \<Rightarrow> nat \<Rightarrow> (nat \<times> bool) option" where
  "boundary_line_loop mem lst it =
     (if it < lst then do {
        closing \<leftarrow> at_seq mem it (''--'' @ crlf);
        if closing then Some (it, True)
        else do {
          eol \<leftarrow> at_seq mem it crlf;
          if eol then Some (it, False) else boundary_line_loop mem lst (Suc it)
        }
      } else Some (it, False))"
  by pat_completeness auto
termination
  by (relation "measure (\<lambda>(mem, lst, it). lst - it)") auto

declare boundary_line_loop.simps [simp del]

text \<open>The first part of a multipart body: its boundary line and its headers.\<close>

definition parse_first_part ::
    "char list \<Rightarrow> nat \<Rightarrow> nat \<Rightarrow> parser \<Rightarrow> string \<Rightarrow> http_error option
      \<Rightarrow> (nat \<times> parser \<times> http_error option) option" where
  "parse_first_part mem lst it p value ec =
     do {
       it \<leftarrow> skip_dashes mem lst it;
       (it, _) \<leftarrow> verify_boundary_value mem lst it (length value) value;
       let first = it;
       (it, closing) \<leftarrow> boundary_line_loop mem lst it;
       if closing then Some (it, p, ec)
       else if bytes mem first it \<noteq> value then Some (it, p, ec)
       else do {
         (it, phase, body_headers, ec) \<leftarrow> parse_message_header mem lst (it + 2) [] ec;
         let p = p\<lparr>ps_phase := phase\<rparr>;
         case um_find body_headers ''content-type'' of
           None \<Rightarrow> Some (it, p, ec)
         | Some _ \<Rightarrow> Some (it + 4, p\<lparr>ps_upload_headers := body_headers\<rparr>, ec)
       }
     }"

definition parse_media_type_begin ::
    "char list \<Rightarrow> nat \<Rightarrow> nat \<Rightarrow> parser \<Rightarrow> http_error option
      \<Rightarrow> (nat \<times> parser \<times> http_error option) option" where
  "parse_media_type_begin mem lst it p ec =
     (let p = p\<lparr>ps_phase := ph_media_type\<rparr> in
      case um_find (ps_headers p) ''content-type'' of
        None \<Rightarrow> Some (it, p, ec)
      | Some ct \<Rightarrow>
        (case find_str ct ''boundary='' 0 of
           None \<Rightarrow> Some (it, p, Some e_no_boundary_header_for_multipart)
         | Some boundary_pos \<Rightarrow>
           let value0 = take (length ct) (drop boundary_pos ct);
               p = p\<lparr>ps_boundary := value0\<rparr> in
           if take 8 value0 \<noteq> ''boundary'' then Some (it, p, ec)
           else
             let value = dropWhile (\<lambda>c. c = CHR ''='' \<or> c = CHR ''-'') (drop 8 value0);
                 p = p\<lparr>ps_boundary := value\<rparr> in
             if it + 4 > lst then Some (it, p, ec)
             else do {
               blank \<leftarrow> at_seq mem it (crlf @ crlf);
               parse_first_part mem lst (if blank then it + 4 else it)
                 (p\<lparr>ps_boundary_length := length value\<rparr>) value ec
             }))"

text \<open>The flag of \<open>media_end_loop\<close> is \<open>endbuffer_was_reached\<close>.\<close>

function media_end_loop :: "char list \<Rightarrow> nat \<Rightarrow> nat \<Rightarrow> (nat \<times> bool) option" where
  "media_end_loop mem lst it =
     (if it < lst then do {
        c \<leftarrow> rd mem it;
        if c = CHR ''-'' then media_end_loop mem lst (Suc it)
        else if it + 2 > lst then media_end_loop mem lst (Suc it)
        else do {
          eol \<leftarrow> at_seq mem it crlf;
          if eol then Some (it + 2, True) else media_end_loop mem lst (Suc it)
        }
      } else Some (it, False))"
  by pat_completeness auto
termination
  by (relation "measure (\<lambda>(mem, lst, it). lst - it)") auto

declare media_end_loop.simps [simp del]

text \<open>\<open>std::vector<std::byte>::max_size()\<close> on the 64-bit platforms.\<close>

definition vector_max_size :: nat where
  "vector_max_size = 9223372036854775807"

definition parse_media_type_more ::
    "char list \<Rightarrow> nat \<Rightarrow> nat \<Rightarrow> parser \<Rightarrow> (cpp_exn + nat \<times> parser) option" where
  "parse_media_type_more mem lst buffer_start p =
     (case um_find (ps_headers p) ''content-length'' of
        None \<Rightarrow> Some (Inr (buffer_start, p))
      | Some length_h \<Rightarrow>
        if buffer_start = lst then Some (Inr (buffer_start, p\<lparr>ps_phase := ph_media_type_need_more\<rparr>))
        else do {
          (it, found) \<leftarrow> verify_boundary_value mem lst buffer_start (ps_boundary_length p) (ps_boundary p);
          (it, endbuffer_was_reached) \<leftarrow> (if found then media_end_loop mem lst it else Some (it, False));
          let buffer_end = (if found then it else lst);
          let buffer_delta = int buffer_end - int buffer_start;
          let p = p\<lparr>ps_readed := ps_readed p + word_of_int buffer_delta\<rparr>;
          if unat (ps_readed p) > vector_max_size then Some (Inl Length_error)
          else do {
            let p = p\<lparr>ps_multipart := ps_multipart p @ bytes mem buffer_start buffer_end\<rparr>;
            content_length \<leftarrow> atoi length_h;
            if \<not> endbuffer_was_reached \<and> ps_readed p < word_of_int content_length
            then Some (Inr (it, p\<lparr>ps_phase := ph_media_type_need_more\<rparr>))
            else Some (Inr (it, p\<lparr>ps_uploads := ps_uploads p
                    @ [\<lparr>up_bytes = ps_multipart p, up_headers = ps_upload_headers p\<rparr>],
                  ps_phase := ph_media_type_finished\<rparr>))
          }
        })"

definition parse_media_type ::
    "char list \<Rightarrow> nat \<Rightarrow> nat \<Rightarrow> parser \<Rightarrow> http_error option
      \<Rightarrow> (cpp_exn + nat \<times> parser \<times> http_error option) option" where
  "parse_media_type mem lst it p ec =
     (if ps_phase p = ph_content_type_finished then do {
        (it, p, ec) \<leftarrow> parse_media_type_begin mem lst it p ec;
        r \<leftarrow> parse_media_type_more mem lst it p;
        (case r of Inl e \<Rightarrow> Some (Inl e) | Inr (it, p) \<Rightarrow> Some (Inr (it, p, ec)))
      }
      else if ps_phase p = ph_media_type_need_more then do {
        r \<leftarrow> parse_media_type_more mem lst it p;
        (case r of Inl e \<Rightarrow> Some (Inl e) | Inr (it, p) \<Rightarrow> Some (Inr (it, p, ec)))
      }
      else Some (Inr (it, p, ec)))"

subsection \<open>parse\<close>

text \<open>
  \<open>make_string(first, lst)\<close> of \<open>parse_body\<close>: when \<open>first\<close> is past \<open>lst\<close> the length cast to
  \<open>size_t\<close> is larger than a \<open>std::string\<close> can be, and the copy throws \<open>length_error\<close>.
\<close>

definition parse_body :: "char list \<Rightarrow> nat \<Rightarrow> nat \<Rightarrow> parser \<Rightarrow> cpp_exn + http_request" where
  "parse_body mem lst it p =
     (if it \<le> lst
      then Inr (mk_request (to_method (ps_method p)) (ps_version p) (ps_target p) (ps_headers p)
                  (bytes mem it lst))
      else Inl Length_error)"

type_synonym parse_result = "cpp_exn + http_request option \<times> parser \<times> http_error option"

definition parse_finish :: "parser \<Rightarrow> http_error option \<Rightarrow> parse_result" where
  "parse_finish p ec =
     (if ps_phase p = ph_media_type_finished
      then Inr (Some (mk_upload_request (to_method (ps_method p)) (ps_version p) (ps_target p)
                        (ps_headers p) (ps_uploads p)),
                p\<lparr>ps_phase := ph_finished\<rparr>, ec)
      else Inr (None, p, ec))"

definition parse_more :: "char list \<Rightarrow> nat \<Rightarrow> nat \<Rightarrow> parser \<Rightarrow> http_error option \<Rightarrow> parse_result option" where
  "parse_more mem lst it p ec =
     (if ps_phase p = ph_media_type_need_more then do {
        r \<leftarrow> parse_media_type mem lst it p ec;
        (case r of Inl e \<Rightarrow> Some (Inl e) | Inr (it, p, ec) \<Rightarrow> Some (parse_finish p ec))
      } else Some (parse_finish p ec))"

definition parse_content :: "char list \<Rightarrow> nat \<Rightarrow> nat \<Rightarrow> parser \<Rightarrow> http_error option \<Rightarrow> parse_result option" where
  "parse_content mem lst it p ec =
     (if ps_phase p = ph_content_type_finished \<or> ps_phase p = ph_body_pending then do {
        ct \<leftarrow> ps_content_type p;
        if ct \<in> {ct_text, ct_application_json, ct_form_urlencoded, ct_not_specified} then
          (case parse_body mem lst it p of
             Inl e \<Rightarrow> Some (Inl e)
           | Inr request \<Rightarrow> Some (Inr (Some request, p\<lparr>ps_phase := ph_finished\<rparr>, ec)))
        else if ct \<in> {ct_image, ct_image_jpeg, ct_multipart_formdata} then do {
          r \<leftarrow> parse_media_type mem lst it p ec;
          (case r of Inl e \<Rightarrow> Some (Inl e) | Inr (it, p, ec) \<Rightarrow> parse_more mem lst it p ec)
        }
        else parse_more mem lst it p ec
      } else parse_more mem lst it p ec)"

definition body_missing :: "nat \<Rightarrow> nat \<Rightarrow> parser \<Rightarrow> bool option" where
  "body_missing lst it p =
     (if ps_phase p = ph_content_type_finished then
        (case um_find (ps_headers p) ''content-length'' of
           None \<Rightarrow> Some False
         | Some h \<Rightarrow> do { content_length \<leftarrow> atoi h; Some (content_length > 0 \<and> it + 4 \<ge> lst) })
      else Some False)"

definition parse_rest :: "char list \<Rightarrow> nat \<Rightarrow> nat \<Rightarrow> parser \<Rightarrow> http_error option \<Rightarrow> parse_result option" where
  "parse_rest mem lst it p ec =
     do {
       pending \<leftarrow> body_missing lst it p;
       if pending then Some (Inr (None, p\<lparr>ps_phase := ph_body_pending\<rparr>, ec))
       else parse_content mem lst it p ec
     }"

definition parse :: "char list \<Rightarrow> nat \<Rightarrow> parser \<Rightarrow> parse_result option" where
  "parse mem sz p =
     (if ps_phase p = ph_not_started then
        if sz = 0 then Some (Inr (None, p, Some e_need_more))
        else do {
          (it, p, ec) \<leftarrow> parse_start_line mem sz 0 (p\<lparr>ps_phase := ph_start_line\<rparr>);
          parse_rest mem sz it p ec
        }
      else parse_rest mem sz 0 p None)"

end
