(* ===== verification/Parser_Scan.thy ===== *)
theory Parser_Scan
  imports Http_Parser
begin

text \<open>
  What the scanning loops of the parser do on the text they are meant for.  \<open>at mem it xs\<close> says
  that \<open>xs\<close> stands at position \<open>it\<close> of the buffer; each lemma moves the pointer over it.
\<close>

lemma rd_at_end: "at mem it (xs @ [c]) \<Longrightarrow> rd mem (it + length xs) = Some c"
  by simp

lemma at_seq_at [scan_simps]: "at mem it xs \<Longrightarrow> at_seq mem it xs = Some True"
  by (induction xs arbitrary: it) auto

lemma at_seq_True: "at_seq mem it xs = Some True \<longleftrightarrow> at mem it xs"
  by (induction xs arbitrary: it) (auto simp: option_bind_Some_iff)

lemma at_seq_differs [scan_simps]: "rd mem it = Some c \<Longrightarrow> c \<noteq> x \<Longrightarrow> at_seq mem it (x # xs) = Some False"
  by simp

lemma at_crlf_differs [scan_simps]: "rd mem it = Some c \<Longrightarrow> c \<noteq> cr \<Longrightarrow> at_seq mem it crlf = Some False"
  by (simp add: crlf_def)

lemma expect_seq_at [scan_simps]: "at mem it xs \<Longrightarrow> expect_seq mem it xs = Some (it + length xs, True)"
  by (induction xs arbitrary: it) auto

lemma at_Cons_split: "at mem it (xs @ [c]) \<Longrightarrow> xs = y # ys \<Longrightarrow> rd mem it = Some y \<and> at mem (Suc it) (ys @ [c])"
  by auto

lemma is_alpha_no_space: "is_alpha_c c \<Longrightarrow> \<not> is_space_c c"
  by (auto simp: is_alpha_c_def is_space_c_def)

lemma isalpha_True [scan_simps]: "is_alpha_c c \<Longrightarrow> isalpha c = Some True"
  by (simp add: isalpha_def is_alpha_ascii)

lemma isspace_alpha [scan_simps]: "is_alpha_c c \<Longrightarrow> isspace c = Some False"
  by (simp add: isspace_def is_alpha_ascii is_alpha_no_space)

lemma isprint_True [scan_simps]: "is_print_c c \<Longrightarrow> isprint c = Some True"
  by (simp add: isprint_def is_print_ascii)

lemma space_not_token [scan_simps]: "\<not> is_token_char (CHR '' '')" "\<not> is_pathchar (CHR '' '')"
  by (simp_all add: char_class_iffs alnum_code_def tchar_marks_def)

lemma print_not_cr: "is_print_c c \<Longrightarrow> c \<noteq> cr"
  by (auto simp: is_print_c_def cr_def)

lemma parse_method_loop_scan:
  "list_all is_alpha_c xs \<Longrightarrow> at mem it (xs @ [c]) \<Longrightarrow> \<not> is_token_char c \<Longrightarrow> it + length xs < lst
    \<Longrightarrow> parse_method_loop mem lst it = Some (it + length xs, None)"
proof (induction xs arbitrary: it)
  case Nil
  then show ?case by (subst parse_method_loop.simps) simp
next
  case (Cons x xs)
  then show ?case
    using Cons.IH [of "Suc it"] by (subst parse_method_loop.simps) (simp add: scan_simps alpha_token)
qed

lemma parse_target_loop_scan:
  "list_all is_pathchar xs \<Longrightarrow> at mem it (xs @ [c]) \<Longrightarrow> \<not> is_pathchar c \<Longrightarrow> it + length xs < lst
    \<Longrightarrow> parse_target_loop mem lst it = Some (it + length xs)"
proof (induction xs arbitrary: it)
  case Nil
  then show ?case by (subst parse_target_loop.simps) simp
next
  case (Cons x xs)
  then show ?case
    using Cons.IH [of "Suc it"] by (subst parse_target_loop.simps) (simp add: scan_simps)
qed

lemma colon_not_token: "is_valid_token c \<Longrightarrow> c \<noteq> CHR '':''"
  by (auto simp: is_valid_token_iff)

lemma header_name_loop_scan:
  "list_all is_valid_token xs \<Longrightarrow> at mem it (xs @ '':'') \<Longrightarrow> it + length xs < lst
    \<Longrightarrow> header_name_loop mem lst it = Some (it + length xs, True)"
proof (induction xs arbitrary: it)
  case Nil
  then show ?case by (subst header_name_loop.simps) simp
next
  case (Cons x xs)
  then show ?case
    using Cons.IH [of "Suc it"] by (subst header_name_loop.simps) (simp add: colon_not_token)
qed

text \<open>A name that no colon follows runs to the end of the data.\<close>

lemma header_name_loop_end:
  "list_all is_valid_token xs \<Longrightarrow> at mem it xs \<Longrightarrow> it + length xs = lst
    \<Longrightarrow> header_name_loop mem lst it = Some (lst, True)"
proof (induction xs arbitrary: it)
  case Nil
  then show ?case by (subst header_name_loop.simps) simp
next
  case (Cons x xs)
  then show ?case
    using Cons.IH [of "Suc it"] by (subst header_name_loop.simps) (simp add: colon_not_token)
qed

definition is_lws :: "char \<Rightarrow> bool" where
  "is_lws c \<longleftrightarrow> c = CHR '' '' \<or> c = CHR 0x09"

lemma skip_lws_scan:
  "list_all is_lws xs \<Longrightarrow> at mem it (xs @ [c]) \<Longrightarrow> \<not> is_lws c \<Longrightarrow> it + length xs < lst
    \<Longrightarrow> skip_lws mem lst it = Some (it + length xs, True)"
proof (induction xs arbitrary: it)
  case Nil
  then show ?case by (subst skip_lws.simps) (simp add: is_lws_def)
next
  case (Cons x xs)
  then show ?case
    using Cons.IH [of "Suc it"] by (subst skip_lws.simps) (auto simp: is_lws_def)
qed

lemma header_value_loop_scan:
  "list_all is_print_c xs \<Longrightarrow> at mem it (xs @ crlf) \<Longrightarrow> it + length xs < lst
    \<Longrightarrow> header_value_loop mem lst it = Some (it + length xs, True)"
proof (induction xs arbitrary: it)
  case Nil
  then show ?case by (subst header_value_loop.simps) (simp add: scan_simps)
next
  case (Cons x xs)
  then show ?case
    using Cons.IH [of "Suc it"]
    by (subst header_value_loop.simps) (simp add: scan_simps at_crlf_differs [of mem it x] print_not_cr)
qed

subsection \<open>The three parts of the request line\<close>

lemma parse_method_scan:
  assumes "list_all is_alpha_c m" "m \<noteq> []" "at mem it (m @ '' '')" "it + length m + 1 < lst"
  shows "parse_method mem lst it p =
    Some (it + length m + 1, p\<lparr>ps_phase := ph_method_finished\<rparr>, m, None)"
proof -
  obtain x xs where m: "m = x # xs" using assms(2) by (cases m) auto
  have loop: "parse_method_loop mem lst it = Some (it + length m, None)"
    by (rule parse_method_loop_scan [OF assms(1) assms(3)]) (use assms in \<open>simp_all add: scan_simps\<close>)
  have first: "rd mem it = Some x" "isspace x = Some False"
    using assms m by (simp_all add: scan_simps)
  have "rd mem (it + length m) = Some (CHR '' '')" "bytes mem it (it + length m) = m"
    using assms(3) by (simp_all add: at_bytes)
  with loop first assms(4) show ?thesis
    by (simp add: parse_method_def Let_def)
qed

lemma parse_target_scan:
  assumes "list_all is_pathchar t" "t \<noteq> []" "at mem it (t @ '' '')" "it + length t + 1 < lst"
  shows "parse_target mem lst it p =
    Some (it + length t + 1, p\<lparr>ps_phase := ph_target_finished\<rparr>, t, None)"
proof -
  obtain x xs where t: "t = x # xs" using assms(2) by (cases t) auto
  have loop: "parse_target_loop mem lst it = Some (it + length t)"
    by (rule parse_target_loop_scan [OF assms(1) assms(3)]) (use assms in \<open>simp_all add: scan_simps\<close>)
  have first: "rd mem it = Some x" "is_pathchar x" using assms t by simp_all
  have "rd mem (it + length t) = Some (CHR '' '')" "bytes mem it (it + length t) = t"
    using assms(3) by (simp_all add: at_bytes)
  with loop first assms(4) show ?thesis
    by (simp add: parse_target_def Let_def)
qed

lemma schar_dec: "is_dec c \<Longrightarrow> schar c - 48 = int (dec_val c)"
  by (simp add: is_dec_def schar_def dec_val_def of_nat_diff)

lemma parse_protocol_scan:
  assumes "at mem it (''HTTP/'' @ [a] @ ''.'' @ [b])" "is_dec a" "is_dec b" "it + 8 \<le> lst"
  shows "parse_protocol mem lst it p =
    Some (it + 8, p\<lparr>ps_version := 10 * int (dec_val a) + int (dec_val b),
                    ps_phase := ph_protocol_version_finished\<rparr>, None)"
proof -
  have http: "expect_seq mem it ''HTTP/'' = Some (it + 5, True)"
    using assms(1) expect_seq_at [of mem it "''HTTP/''"] by simp
  have dot: "expect_seq mem (it + 5 + 1) ''.'' = Some (it + 7, True)"
    using assms(1) expect_seq_at [of mem "it + 6" "''.''"] by (simp add: eval_nat_numeral)
  have "rd mem (it + 5) = Some a" "rd mem (it + 7) = Some b"
    using assms(1) by (simp_all add: eval_nat_numeral)
  with http dot assms(2-4) show ?thesis
    by (simp add: parse_protocol_def Let_def is_digit_iff schar_dec del: expect_seq.simps)
qed

subsection \<open>The header block\<close>

text \<open>A header as it is written: name, colon, white space, value.\<close>

record header_text =
  ht_name :: string
  ht_space :: string
  ht_value :: string

definition ht_render :: "header_text \<Rightarrow> string" where
  "ht_render h = ht_name h @ '':'' @ ht_space h @ ht_value h"

definition ht_wf :: "header_text \<Rightarrow> bool" where
  "ht_wf h \<longleftrightarrow> list_all is_valid_token (ht_name h) \<and> list_all is_lws (ht_space h)
     \<and> list_all is_print_c (ht_value h) \<and> (ht_value h \<noteq> [] \<longrightarrow> hd (ht_value h) \<noteq> CHR '' '')"

definition ht_entry :: "header_text \<Rightarrow> string \<times> string" where
  "ht_entry h = (to_lower (ht_name h), ht_value h)"

definition insert_headers :: "header_text list \<Rightarrow> headers \<Rightarrow> headers" where
  "insert_headers hs m = fold (\<lambda>(k, v). um_insert k v) (map ht_entry hs) m"

definition head_block :: "header_text list \<Rightarrow> string" where
  "head_block hs = concat (map (\<lambda>h. ht_render h @ crlf) hs)"

lemma print_not_tab: "is_print_c c \<Longrightarrow> c \<noteq> CHR 0x09"
  by (auto simp: is_print_c_def)

lemma header_name_scan:
  assumes "ht_wf h" "at mem it (ht_render h)" "it + length (ht_render h) < lst"
  shows "parse_message_header_name mem lst it ec = Some (it + length (ht_name h) + 1, ht_name h, ec)"
proof -
  have "header_name_loop mem lst it = Some (it + length (ht_name h), True)"
    by (rule header_name_loop_scan) (use assms in \<open>auto simp: ht_wf_def ht_render_def\<close>)
  moreover have "bytes mem it (it + length (ht_name h)) = ht_name h"
    by (rule at_bytes) (use assms in \<open>simp add: ht_render_def\<close>)
  ultimately show ?thesis by (simp add: parse_message_header_name_def)
qed

lemma header_value_scan:
  assumes "ht_wf h" "at mem it (ht_space h @ ht_value h @ crlf)"
    "it + length (ht_space h) + length (ht_value h) < lst"
  shows "parse_message_header_value mem lst it ec =
    Some (it + length (ht_space h) + length (ht_value h), ht_value h, ec)"
proof -
  let ?i = "it + length (ht_space h)"
  obtain c where c: "at mem it (ht_space h @ [c])" "\<not> is_lws c"
  proof (cases "ht_value h")
    case Nil
    with assms(2) show ?thesis
      by (intro that [of cr]) (simp_all add: crlf_def is_lws_def cr_def)
  next
    case (Cons x xs)
    with assms show ?thesis
      by (intro that [of x]) (auto simp: ht_wf_def is_lws_def print_not_tab)
  qed
  have "skip_lws mem lst it = Some (?i, True)"
    by (rule skip_lws_scan [OF _ c]) (use assms in \<open>auto simp: ht_wf_def\<close>)
  moreover have "header_value_loop mem lst ?i = Some (?i + length (ht_value h), True)"
    by (rule header_value_loop_scan) (use assms in \<open>auto simp: ht_wf_def\<close>)
  moreover have "bytes mem ?i (?i + length (ht_value h)) = ht_value h"
    by (rule at_bytes) (use assms in simp)
  ultimately show ?thesis by (simp add: parse_message_header_value_def Let_def)
qed

text \<open>One turn of \<open>header_loop\<close> on a well-formed header line.\<close>

lemma header_loop_step:
  assumes h: "ht_wf h" and line: "at mem it (ht_render h @ crlf)"
    and len: "it + length (ht_render h) + 2 \<le> lst"
  shows "header_loop mem lst it m ec =
    (let j = it + length (ht_render h);
         m' = um_insert (to_lower (ht_name h)) (ht_value h) m
     in do { fin \<leftarrow> at_seq mem (j + 2) crlf;
             if fin then Some (j, m', ec) else header_loop mem lst (j + 2) m' ec })"
proof -
  have name: "parse_message_header_name mem lst it ec = Some (it + length (ht_name h) + 1, ht_name h, ec)"
    by (rule header_name_scan) (use assms in auto)
  have val: "parse_message_header_value mem lst (it + length (ht_name h) + 1) ec =
    Some (it + length (ht_name h) + 1 + length (ht_space h) + length (ht_value h), ht_value h, ec)"
    by (rule header_value_scan) (use assms in \<open>auto simp: ht_render_def\<close>)
  have j: "it + length (ht_name h) + 1 + length (ht_space h) + length (ht_value h)
    = it + length (ht_render h)"
    by (simp add: ht_render_def)
  have ends: "rd mem (it + length (ht_render h)) = Some cr" "rd mem (it + length (ht_render h) + 1) = Some lf"
    using line by (simp_all add: crlf_def)
  have "it < lst" using len by simp
  then show ?thesis
    using name val ends unfolding j
    by (subst header_loop.simps) (simp add: Let_def del: at_seq.simps)
qed

lemma ht_render_not_crlf: "ht_wf h \<Longrightarrow> \<exists>x xs. ht_render h = x # xs \<and> x \<noteq> cr"
proof (cases "ht_name h")
  case Nil
  then show ?thesis by (simp add: ht_render_def cr_def)
next
  case (Cons x xs)
  moreover assume "ht_wf h"
  ultimately have "is_valid_token x" by (simp add: ht_wf_def)
  then have "x \<noteq> cr" by (auto simp: is_valid_token_iff cr_def)
  with Cons show ?thesis by (simp add: ht_render_def)
qed

lemma header_loop_scan:
  assumes "hs \<noteq> []" "list_all ht_wf hs" "at mem it (head_block hs @ crlf)"
    "it + length (head_block hs) \<le> lst"
  shows "header_loop mem lst it m ec =
    Some (it + length (head_block hs) - 2, insert_headers hs m, ec)"
  using assms
proof (induction hs arbitrary: it m)
  case Nil
  then show ?case by simp
next
  case (Cons h hs)
  let ?j = "it + length (ht_render h)"
  have step: "header_loop mem lst it m ec =
    (let j = ?j; m' = um_insert (to_lower (ht_name h)) (ht_value h) m
     in do { fin \<leftarrow> at_seq mem (j + 2) crlf;
             if fin then Some (j, m', ec) else header_loop mem lst (j + 2) m' ec })"
    by (rule header_loop_step) (use Cons.prems in \<open>auto simp: head_block_def\<close>)
  show ?case
  proof (cases hs)
    case Nil
    then have "at_seq mem (?j + 2) crlf = Some True"
      using Cons.prems by (intro at_seq_at) (simp add: head_block_def add.assoc)
    with step Nil show ?thesis
      by (simp add: head_block_def insert_headers_def ht_entry_def)
  next
    case (Cons h' hs')
    with Cons.prems obtain x xs where x: "ht_render h' = x # xs" "x \<noteq> cr"
      using ht_render_not_crlf [of h'] by auto
    have rest: "at mem (?j + 2) (head_block hs @ crlf)"
      using Cons.prems by (simp add: head_block_def add.assoc)
    then have "rd mem (?j + 2) = Some x"
      using Cons x by (simp add: head_block_def)
    then have "at_seq mem (?j + 2) crlf = Some False"
      using x by (intro at_crlf_differs)
    with step have "header_loop mem lst it m ec =
      header_loop mem lst (?j + 2) (um_insert (to_lower (ht_name h)) (ht_value h) m) ec"
      by (simp add: Let_def)
    also have "\<dots> = Some (?j + 2 + length (head_block hs) - 2,
      insert_headers hs (um_insert (to_lower (ht_name h)) (ht_value h) m), ec)"
      by (rule Cons.IH) (use Cons.prems Cons rest in \<open>auto simp: head_block_def\<close>)
    finally show ?thesis
      by (simp add: head_block_def insert_headers_def ht_entry_def)
  qed
qed

lemma find_insert_headers:
  "um_find (insert_headers hs m) k =
     (case um_find m k of Some v \<Rightarrow> Some v | None \<Rightarrow> map_of (map ht_entry hs) k)"
  unfolding insert_headers_def by (rule um.find_fold_insert)

lemma insert_headers_inv: "um_inv m \<Longrightarrow> um_inv (insert_headers hs m)"
  unfolding insert_headers_def by (rule um.invar_fold_insert)

end
