(* ===== verification/Parser_Correct.thy ===== *)
theory Parser_Correct
  imports Parser_Scan
begin

text \<open>
  The parser on requests that are written as the protocol asks: the text of a request, what
  \<open>parse_start_line\<close> and \<open>parse\<close> make of it, and the phases a parser goes through.
\<close>

record request_text =
  rt_method :: string
  rt_target :: string
  rt_headers :: "header_text list"

definition request_line :: "string \<Rightarrow> string \<Rightarrow> char \<Rightarrow> char \<Rightarrow> string" where
  "request_line m t a b = m @ '' '' @ t @ '' '' @ (''HTTP/'' @ [a] @ ''.'' @ [b]) @ crlf"

text \<open>The head of the message without the empty line that ends it.\<close>

definition rt_head :: "request_text \<Rightarrow> string" where
  "rt_head r = request_line (rt_method r) (rt_target r) (CHR ''1'') (CHR ''1'') @ head_block (rt_headers r)"

definition rt_wf :: "request_text \<Rightarrow> bool" where
  "rt_wf r \<longleftrightarrow> list_all is_alpha_c (rt_method r) \<and> rt_method r \<noteq> []
     \<and> list_all is_pathchar (rt_target r) \<and> rt_target r \<noteq> []
     \<and> rt_headers r \<noteq> [] \<and> list_all ht_wf (rt_headers r)"

definition line_wf :: "string \<Rightarrow> string \<Rightarrow> bool" where
  "line_wf m t \<longleftrightarrow> list_all is_alpha_c m \<and> m \<noteq> [] \<and> list_all is_pathchar t \<and> t \<noteq> []"

text \<open>The header table a request text stands for.\<close>

definition rt_table :: "request_text \<Rightarrow> headers" where
  "rt_table r = insert_headers (rt_headers r) []"

lemma find_rt_table: "um_find (rt_table r) k = map_of (map ht_entry (rt_headers r)) k"
  by (simp add: rt_table_def find_insert_headers um.find_empty)

lemma rt_table_inv: "um_inv (rt_table r)"
  by (simp add: rt_table_def insert_headers_inv um.invar_empty)

subsection \<open>The content type\<close>

definition ct_of_headers :: "headers \<Rightarrow> content_type" where
  "ct_of_headers m =
     (case um_find m ''content-type'' of
        None \<Rightarrow> ct_not_specified
      | Some h \<Rightarrow> content_type_of (hd (split_ref (CHR '';'') h)))"

lemma parse_content_type_eq:
  "parse_content_type m p =
     p\<lparr>ps_content_type := Some (ct_of_headers m), ps_phase := ph_content_type_finished\<rparr>"
  by (auto simp: parse_content_type_def ct_of_headers_def Let_def split_eq_ref hd_conv_nth
      split: option.split)

subsection \<open>The start line\<close>

lemma request_line_length: "length (request_line m t a b) = length m + length t + 12"
  by (simp add: request_line_def)

text \<open>The request line on its own, up to where the headers begin, for any two version digits.\<close>

lemma request_line_parts:
  assumes "at mem 0 (request_line m t a b)"
  shows "at mem 0 (m @ '' '')" "at mem (length m + 1) (t @ '' '')"
    "at mem (length m + length t + 2) (''HTTP/'' @ [a] @ ''.'' @ [b])"
    "at mem (length m + length t + 10) crlf"
  using assms by (simp_all add: request_line_def eval_nat_numeral)

lemma parse_start_line_line:
  assumes line: "at mem 0 (request_line m t a b)" and wf: "line_wf m t"
    and dec: "is_dec a" "is_dec b" and len: "length (request_line m t a b) \<le> lst"
  shows "parse_start_line mem lst 0 p =
    (let q = p\<lparr>ps_phase := ph_protocol_version_finished, ps_method := m, ps_target := t,
               ps_version := 10 * int (dec_val a) + int (dec_val b)\<rparr> in
     if ps_version q \<noteq> 11 then Some (length m + length t + 10, q, Some e_bad_version)
     else do {
       (it, phase, headers, ec) \<leftarrow>
         parse_message_header mem lst (length (request_line m t a b)) (ps_headers p) None;
       let p = parse_content_type headers (q\<lparr>ps_phase := phase, ps_headers := headers\<rparr>);
       ct \<leftarrow> ps_content_type p;
       if \<not> supported_content_type ct then Some (it, p, Some e_content_type_not_implemented)
       else Some (it, p, ec)
     })"
proof -
  note parts = request_line_parts [OF line]
  have l: "length m + length t + 12 \<le> lst" using len by (simp add: request_line_length)
  have m_ok: "parse_method mem lst 0 q = Some (length m + 1, q\<lparr>ps_phase := ph_method_finished\<rparr>, m, None)" for q
    using parse_method_scan [of m mem 0 lst q] parts wf l by (simp add: line_wf_def)
  have t_ok: "parse_target mem lst (length m + 1) q =
      Some (length m + length t + 2, q\<lparr>ps_phase := ph_target_finished\<rparr>, t, None)" for q
    using parse_target_scan [of t mem "length m + 1" lst q] parts wf l
    by (simp add: line_wf_def algebra_simps)
  have proto: "parse_protocol mem lst (length m + length t + 2) q =
      Some (length m + length t + 10, q\<lparr>ps_version := 10 * int (dec_val a) + int (dec_val b),
        ps_phase := ph_protocol_version_finished\<rparr>, None)" for q
    using parse_protocol_scan [of mem "length m + length t + 2" a b lst q] parts dec l
    by (simp add: algebra_simps)
  have eol: "rd mem (length m + length t + 10) = Some cr"
    using parts(4) by (simp add: crlf_def)
  have long: "\<not> length m + length t + 10 + 2 > lst" using l by simp
  show ?thesis
    unfolding parse_start_line_def
    using m_ok t_ok proto eol long
    by (simp add: Let_def request_line_length algebra_simps del: One_nat_def)
qed

lemma parse_start_line_text:
  assumes wf: "rt_wf r" and msg: "at mem 0 (rt_head r @ crlf)" and len: "length (rt_head r) \<le> lst"
    and fresh: "ps_headers p = []"
  shows "parse_start_line mem lst 0 p =
    Some (length (rt_head r) - 2,
      p\<lparr>ps_phase := ph_content_type_finished, ps_method := rt_method r, ps_target := rt_target r,
        ps_version := 11, ps_headers := rt_table r,
        ps_content_type := Some (ct_of_headers (rt_table r))\<rparr>,
      if supported_content_type (ct_of_headers (rt_table r)) then None
      else Some e_content_type_not_implemented)"
proof -
  let ?m = "rt_method r" and ?t = "rt_target r" and ?hs = "rt_headers r"
  let ?l = "request_line ?m ?t (CHR ''1'') (CHR ''1'')"
  have one: "is_dec (CHR ''1'')" "dec_val (CHR ''1'') = 1" by (simp_all add: is_dec_def dec_val_def)
  have line: "at mem 0 ?l" and block: "at mem (length ?l) (head_block ?hs @ crlf)"
    using msg by (simp_all add: rt_head_def)
  have wfs: "line_wf ?m ?t" "?hs \<noteq> []" "list_all ht_wf ?hs"
    using wf by (simp_all add: rt_wf_def line_wf_def)
  obtain h hs' where hs: "?hs = h # hs'" using wfs(2) by (cases ?hs) auto
  have two: "2 \<le> length (head_block ?hs)" using hs by (simp add: head_block_def)
  have loop: "header_loop mem lst (length ?l) [] None = Some (length (rt_head r) - 2, rt_table r, None)"
    using header_loop_scan [OF wfs(2,3) block, of lst "[]" None] len
    by (simp add: rt_head_def rt_table_def)
  have "parse_message_header mem lst (length ?l) [] None =
    Some (length (rt_head r) - 2, ph_headers_finished, rt_table r, None)"
    unfolding parse_message_header_def using loop len two by (simp add: rt_head_def)
  then show ?thesis
    using parse_start_line_line [OF line wfs(1) one(1) one(1), of lst p] len fresh
    by (simp add: Let_def one parse_content_type_eq rt_head_def)
qed

subsection \<open>Requests\<close>

definition text_content :: "content_type \<Rightarrow> bool" where
  "text_content ct \<longleftrightarrow> ct \<in> {ct_application_json, ct_form_urlencoded, ct_not_specified}"

lemma text_content_supported: "text_content ct \<Longrightarrow> supported_content_type ct"
  by (auto simp: text_content_def supported_content_type_def)

text \<open>The parser after the head of a request.\<close>

definition head_parsed :: "request_text \<Rightarrow> parser" where
  "head_parsed r = new_parser\<lparr>ps_phase := ph_content_type_finished, ps_method := rt_method r,
     ps_target := rt_target r, ps_version := 11, ps_headers := rt_table r,
     ps_content_type := Some (ct_of_headers (rt_table r))\<rparr>"

definition rt_request :: "request_text \<Rightarrow> string \<Rightarrow> http_request" where
  "rt_request r body = mk_request (to_method (rt_method r)) 11 (rt_target r) (rt_table r) body"

text \<open>The length a \<open>content-length\<close> header announces, 0 when there is none.\<close>

definition announced :: "headers \<Rightarrow> int option" where
  "announced m = (case um_find m ''content-length'' of None \<Rightarrow> Some 0 | Some h \<Rightarrow> atoi h)"

lemma body_missing_head:
  "announced (rt_table r) = Some n \<Longrightarrow>
   body_missing lst it (head_parsed r) = Some (n > 0 \<and> it + 4 \<ge> lst)"
  by (auto simp: body_missing_def head_parsed_def announced_def split: option.splits)

lemma parse_head:
  assumes "rt_wf r" "at mem 0 (rt_head r @ crlf)" "length (rt_head r) \<le> sz"
    "supported_content_type (ct_of_headers (rt_table r))"
  shows "parse mem sz new_parser = parse_rest mem sz (length (rt_head r) - 2) (head_parsed r) None"
proof -
  have "sz \<noteq> 0" using assms(3) by (simp add: rt_head_def request_line_def)
  moreover have "parse_start_line mem sz 0 (new_parser\<lparr>ps_phase := ph_start_line\<rparr>) =
    Some (length (rt_head r) - 2, head_parsed r, None)"
    using parse_start_line_text [OF assms(1-3), of "new_parser\<lparr>ps_phase := ph_start_line\<rparr>"] assms(4)
    by (simp add: new_parser_def head_parsed_def)
  ultimately show ?thesis by (simp add: parse_def new_parser_def)
qed

lemma parse_content_text:
  assumes "ps_phase p = ph_content_type_finished \<or> ps_phase p = ph_body_pending"
    "ps_content_type p = Some ct" "text_content ct" "it \<le> lst"
  shows "parse_content mem lst it p ec =
    Some (Inr (Some (mk_request (to_method (ps_method p)) (ps_version p) (ps_target p) (ps_headers p)
      (bytes mem it lst)), p\<lparr>ps_phase := ph_finished\<rparr>, ec))"
  using assms by (auto simp: parse_content_def parse_body_def text_content_def)

lemma head_ends_crlf:
  assumes "rt_wf r" "at mem 0 (rt_head r @ crlf @ body)"
  shows "at mem (length (rt_head r) - 2) (crlf @ crlf @ body)" "4 \<le> length (rt_head r)"
proof -
  obtain pre where pre: "rt_head r = pre @ crlf"
  proof -
    obtain h hs where "rt_headers r = hs @ [h]"
      using assms(1) by (cases "rt_headers r" rule: rev_cases) (auto simp: rt_wf_def)
    then show ?thesis using that by (auto simp: rt_head_def head_block_def)
  qed
  then show "at mem (length (rt_head r) - 2) (crlf @ crlf @ body)" using assms(2) by simp
  show "4 \<le> length (rt_head r)" by (simp add: rt_head_def request_line_def)
qed

lemma parse_text_whole:
  assumes wf: "rt_wf r" and msg: "at mem 0 (rt_head r @ crlf @ body)"
    and sz: "sz = length (rt_head r @ crlf @ body)"
    and ct: "text_content (ct_of_headers (rt_table r))"
    and cl: "announced (rt_table r) = Some n" "n \<le> 0 \<or> body \<noteq> []"
  shows "parse mem sz new_parser =
    Some (Inr (Some (rt_request r (crlf @ crlf @ body)), (head_parsed r)\<lparr>ps_phase := ph_finished\<rparr>, None))"
proof -
  let ?it = "length (rt_head r) - 2"
  note ends = head_ends_crlf [OF wf msg]
  have head: "at mem 0 (rt_head r @ crlf)" using msg by simp
  have "parse mem sz new_parser = parse_rest mem sz ?it (head_parsed r) None"
    by (rule parse_head [OF wf head]) (use sz text_content_supported [OF ct] in auto)
  also have "body_missing sz ?it (head_parsed r) = Some False"
    using body_missing_head [OF cl(1), of sz ?it] cl(2) ends(2) sz by (cases body) auto
  then have "parse_rest mem sz ?it (head_parsed r) None = parse_content mem sz ?it (head_parsed r) None"
    by (simp add: parse_rest_def)
  also have "\<dots> = Some (Inr (Some (mk_request (to_method (rt_method r)) 11 (rt_target r) (rt_table r)
      (bytes mem ?it sz)), (head_parsed r)\<lparr>ps_phase := ph_finished\<rparr>, None))"
    by (subst parse_content_text [OF _ _ ct]) (use sz in \<open>auto simp: head_parsed_def\<close>)
  also have "bytes mem ?it sz = crlf @ crlf @ body"
    by (rule at_bytesI [OF ends(1)]) (use ends(2) sz in simp)
  finally show ?thesis by (simp add: rt_request_def)
qed

lemma parse_text_pending:
  assumes wf: "rt_wf r" and msg: "at mem 0 (rt_head r @ crlf)" and sz: "sz = length (rt_head r @ crlf)"
    and ct: "supported_content_type (ct_of_headers (rt_table r))"
    and cl: "announced (rt_table r) = Some n" "n > 0"
  shows "parse mem sz new_parser = Some (Inr (None, (head_parsed r)\<lparr>ps_phase := ph_body_pending\<rparr>, None))"
proof -
  have "parse mem sz new_parser = parse_rest mem sz (length (rt_head r) - 2) (head_parsed r) None"
    by (rule parse_head [OF wf msg _ ct]) (use sz in simp)
  moreover have "4 \<le> length (rt_head r)" by (simp add: rt_head_def request_line_def)
  ultimately show ?thesis
    using body_missing_head [OF cl(1), of sz "length (rt_head r) - 2"] cl(2) sz
    by (simp add: parse_rest_def)
qed

subsection \<open>Phases\<close>

lemma parse_finish_phase:
  assumes "parse_finish p ec = Inr (rq, p', e)" "ps_phase p \<noteq> ph_finished"
  shows "rq \<noteq> None \<longleftrightarrow> ps_phase p' = ph_finished"
  using assms by (auto simp: parse_finish_def split: if_splits)

lemma header_loop_phase_irrelevant:
  "parse_message_header mem lst it m ec = Some (j, ph, m', e) \<Longrightarrow> ph \<in> {ph_headers, ph_headers_finished}"
  by (auto simp: parse_message_header_def option_bind_Some_iff split: if_splits)

lemma first_part_phase:
  assumes "parse_first_part mem lst it p value ec = Some (j, p', e)" "ps_phase p = ph_media_type"
  shows "ps_phase p' \<in> {ph_media_type, ph_headers, ph_headers_finished}"
  using assms
  by (auto simp: parse_first_part_def Let_def option_bind_Some_iff
      split: if_split_asm option.split_asm dest!: header_loop_phase_irrelevant)

lemma begin_phase:
  assumes "parse_media_type_begin mem lst it p ec = Some (j, p', e)"
  shows "ps_phase p' \<in> {ph_media_type, ph_headers, ph_headers_finished}"
proof -
  have first: "ps_phase p' \<in> {ph_media_type, ph_headers, ph_headers_finished}"
    if "parse_first_part mem lst i q v ec = Some (j, p', e)" "ps_phase q = ph_media_type" for i q v
    using first_part_phase [OF that] .
  show ?thesis
    using assms unfolding parse_media_type_begin_def Let_def
    by (fastforce simp: option_bind_Some_iff split: option.split_asm if_split_asm dest: first)
qed

lemma more_phase:
  assumes "parse_media_type_more mem lst it p = Some (Inr (j, p'))" "ps_phase p \<noteq> ph_finished"
  shows "ps_phase p' \<noteq> ph_finished"
  using assms
  by (auto simp: parse_media_type_more_def Let_def option_bind_Some_iff
      split: if_splits option.splits)

lemma media_phase:
  assumes "parse_media_type mem lst it p ec = Some (Inr (j, p', e))" "ps_phase p \<noteq> ph_finished"
  shows "ps_phase p' \<noteq> ph_finished"
  using assms
  by (auto simp: parse_media_type_def option_bind_Some_iff sum_bind_Some_iff split: if_splits
      dest!: begin_phase more_phase)

lemma parse_more_phase:
  assumes "parse_more mem lst it p ec = Some (Inr (rq, p', e))" "ps_phase p \<noteq> ph_finished"
  shows "rq \<noteq> None \<longleftrightarrow> ps_phase p' = ph_finished"
  using assms
  by (auto simp: parse_more_def option_bind_Some_iff sum_bind_Some_iff split: if_splits
      dest!: media_phase parse_finish_phase)

lemma parse_content_phase:
  assumes "parse_content mem lst it p ec = Some (Inr (rq, p', e))" "ps_phase p \<noteq> ph_finished"
  shows "rq \<noteq> None \<longleftrightarrow> ps_phase p' = ph_finished"
  using assms
  by (auto simp: parse_content_def option_bind_Some_iff sum_bind_Some_iff split: if_splits
      dest!: media_phase parse_more_phase)

lemma parse_rest_phase:
  assumes "parse_rest mem lst it p ec = Some (Inr (rq, p', e))" "ps_phase p \<noteq> ph_finished"
  shows "rq \<noteq> None \<longleftrightarrow> ps_phase p' = ph_finished"
  using assms
  by (auto simp: parse_rest_def option_bind_Some_iff split: if_splits dest!: parse_content_phase)

end
