(* ===== verification/Parser_Safety.thy ===== *)
theory Parser_Safety
  imports Parser_Correct
begin

text \<open>
  Undefined behaviour in the parser.  \<open>clean mem\<close> says that no byte of the buffer makes a call
  of the \<open>ctype\<close> functions undefined; the lemmas bound how far past the end of the data each
  function reads, so that a buffer with enough bytes after the data makes every one of them
  return.
\<close>

definition clean :: "char list \<Rightarrow> bool" where
  "clean mem \<longleftrightarrow> (\<forall>c \<in> set mem. ctype_ok c)"

lemma clean_nth: "clean mem \<Longrightarrow> i < length mem \<Longrightarrow> ctype_ok (mem ! i)"
  by (simp add: clean_def)

lemma ctype_total:
  "ctype_ok c \<Longrightarrow> isspace c = Some (is_space_c c)"
  "ctype_ok c \<Longrightarrow> isalpha c = Some (is_alpha_c c)"
  "ctype_ok c \<Longrightarrow> isprint c = Some (is_print_c c)"
  by (simp_all add: isspace_def isalpha_def isprint_def)

lemma at_seq_total: "i + length xs \<le> length mem \<Longrightarrow> \<exists>b. at_seq mem i xs = Some b"
  by (induction xs arbitrary: i) (auto simp: rd_in)

lemma at_crlf_total: "i + 2 \<le> length mem \<Longrightarrow> \<exists>b. at_seq mem i crlf = Some b"
  by (rule at_seq_total) simp

lemma expect_seq_total:
  "i + length xs \<le> length mem \<Longrightarrow> \<exists>j b. expect_seq mem i xs = Some (j, b) \<and> (b \<longrightarrow> j = i + length xs)"
proof (induction xs arbitrary: i)
  case Nil
  show ?case by simp blast
next
  case (Cons x xs)
  then show ?case using Cons.IH [of "Suc i"] by (auto simp: rd_in)
qed

lemma parse_method_loop_total:
  "clean mem \<Longrightarrow> lst \<le> length mem \<Longrightarrow> it \<le> lst
    \<Longrightarrow> \<exists>j e. parse_method_loop mem lst it = Some (j, e) \<and> it \<le> j \<and> j \<le> lst"
proof (induction mem lst it rule: parse_method_loop.induct)
  case (1 mem lst it)
  show ?case
  proof (cases "it < lst")
    case False
    with "1.prems" show ?thesis by (subst parse_method_loop.simps) simp
  next
    case True
    then have c: "rd mem it = Some (mem ! it)" "isalpha (mem ! it) = Some (is_alpha_c (mem ! it))"
      using "1.prems" by (auto simp: rd_in ctype_total clean_nth)
    show ?thesis
    proof (cases "is_token_char (mem ! it) \<and> is_alpha_c (mem ! it)")
      case True
      with "1.IH" [OF \<open>it < lst\<close> c(1) _ c(2)] "1.prems" \<open>it < lst\<close> c show ?thesis
        by (subst parse_method_loop.simps) fastforce
    next
      case False
      with \<open>it < lst\<close> c "1.prems" show ?thesis by (subst parse_method_loop.simps) auto
    qed
  qed
qed

lemma parse_target_loop_total:
  "lst \<le> length mem \<Longrightarrow> it \<le> lst
    \<Longrightarrow> \<exists>j. parse_target_loop mem lst it = Some j \<and> it \<le> j \<and> j \<le> lst"
proof (induction mem lst it rule: parse_target_loop.induct)
  case (1 mem lst it)
  show ?case
  proof (cases "it < lst \<and> is_pathchar (mem ! it)")
    case True
    with "1.IH" [of "mem ! it"] "1.prems" show ?thesis
      by (subst parse_target_loop.simps) (fastforce simp: rd_in)
  next
    case False
    with "1.prems" show ?thesis by (subst parse_target_loop.simps) (auto simp: rd_in)
  qed
qed

lemma header_name_loop_total:
  "lst \<le> length mem \<Longrightarrow> it \<le> lst
    \<Longrightarrow> \<exists>j b. header_name_loop mem lst it = Some (j, b) \<and> it \<le> j \<and> j \<le> lst"
proof (induction mem lst it rule: header_name_loop.induct)
  case (1 mem lst it)
  show ?case
  proof (cases "it < lst \<and> mem ! it \<noteq> CHR '':'' \<and> is_valid_token (mem ! it)")
    case True
    with "1.IH" [of "mem ! it"] "1.prems" show ?thesis
      by (subst header_name_loop.simps) (fastforce simp: rd_in)
  next
    case False
    with "1.prems" show ?thesis by (subst header_name_loop.simps) (auto simp: rd_in)
  qed
qed

lemma skip_lws_total:
  "lst \<le> length mem
    \<Longrightarrow> \<exists>j b. skip_lws mem lst it = Some (j, b) \<and> it \<le> j \<and> (b \<longrightarrow> j < lst) \<and> (it \<le> lst \<longrightarrow> j \<le> lst)
          \<and> (lst \<le> it \<longrightarrow> j = it)"
proof (induction mem lst it rule: skip_lws.induct)
  case (1 mem lst it)
  show ?case
  proof (cases "it + 1 \<le> lst \<and> is_lws (mem ! it)")
    case True
    with "1.IH" [of "mem ! it"] "1.prems" show ?thesis
      by (subst skip_lws.simps) (fastforce simp: rd_in is_lws_def)
  next
    case False
    with "1.prems" show ?thesis by (subst skip_lws.simps) (auto simp: rd_in is_lws_def)
  qed
qed

lemma header_value_loop_total:
  "clean mem \<Longrightarrow> lst + 1 \<le> length mem \<Longrightarrow> it \<le> lst
    \<Longrightarrow> \<exists>j b. header_value_loop mem lst it = Some (j, b) \<and> it \<le> j \<and> j \<le> lst"
proof (induction mem lst it rule: header_value_loop.induct)
  case (1 mem lst it)
  show ?case
  proof (cases "it < lst")
    case False
    with "1.prems" show ?thesis by (subst header_value_loop.simps) (simp, blast)
  next
    case True
    then have c: "rd mem it = Some (mem ! it)" "isprint (mem ! it) = Some (is_print_c (mem ! it))"
      using "1.prems" by (auto simp: rd_in ctype_total clean_nth)
    obtain b where b: "at_seq mem it crlf = Some b"
      using at_crlf_total [of it mem] True "1.prems" by auto
    show ?thesis
    proof (cases "\<not> b \<and> is_print_c (mem ! it)")
      case t: True
      with "1.IH" [OF True b _ c] "1.prems" True c b show ?thesis
        by (subst header_value_loop.simps) fastforce
    next
      case False
      with True c b "1.prems" show ?thesis by (subst header_value_loop.simps) auto
    qed
  qed
qed

subsection \<open>The request line and the headers\<close>

lemma parse_method_total:
  assumes "clean mem" "lst \<le> length mem" "it < lst"
  shows "\<exists>j q m e. parse_method mem lst it p = Some (j, q, m, e) \<and> (e = None \<longrightarrow> j < lst)
    \<and> ps_headers q = ps_headers p"
proof -
  obtain j e where loop: "parse_method_loop mem lst it = Some (j, e)" "it \<le> j" "j \<le> lst"
    using parse_method_loop_total [OF assms(1,2), of it] assms(3) by auto
  have c: "rd mem it = Some (mem ! it)" "isspace (mem ! it) = Some (is_space_c (mem ! it))"
    using assms by (auto simp: rd_in ctype_total clean_nth)
  show ?thesis
  proof (cases "j + 1 < lst")
    case True
    then have "rd mem j = Some (mem ! j)" using assms by (simp add: rd_in)
    with loop c True show ?thesis by (cases e) (auto simp: parse_method_def Let_def)
  next
    case False
    with loop c show ?thesis by (cases e) (auto simp: parse_method_def Let_def)
  qed
qed

lemma parse_target_total:
  assumes "lst \<le> length mem" "it < lst"
  shows "\<exists>j q t e. parse_target mem lst it p = Some (j, q, t, e) \<and> (e = None \<longrightarrow> j < lst)
    \<and> ps_headers q = ps_headers p"
proof -
  obtain j where loop: "parse_target_loop mem lst it = Some j" "it \<le> j" "j \<le> lst"
    using parse_target_loop_total [OF assms(1), of it] assms(2) by auto
  have c: "rd mem it = Some (mem ! it)" using assms by (simp add: rd_in)
  show ?thesis
  proof (cases "j + 1 < lst")
    case True
    then have "rd mem j = Some (mem ! j)" using assms by (simp add: rd_in)
    with loop c True show ?thesis by (auto simp: parse_target_def Let_def)
  next
    case False
    with loop c show ?thesis by (auto simp: parse_target_def Let_def)
  qed
qed

lemma parse_protocol_total:
  assumes "lst \<le> length mem"
  shows "\<exists>j q e. parse_protocol mem lst it p = Some (j, q, e) \<and> ps_headers q = ps_headers p"
proof (cases "it + 8 > lst")
  case True
  then show ?thesis by (simp add: parse_protocol_def Let_def)
next
  case False
  then have "it + length ''HTTP/'' \<le> length mem" using assms by simp
  then obtain j b where http: "expect_seq mem it ''HTTP/'' = Some (j, b)" "b \<longrightarrow> j = it + 5"
    using expect_seq_total by fastforce
  have "it + 5 + 1 + length ''.'' \<le> length mem" using False assms by simp
  then obtain k d where dot: "expect_seq mem (it + 5 + 1) ''.'' = Some (k, d)" "d \<longrightarrow> k = it + 7"
    using expect_seq_total by fastforce
  have "rd mem (it + 5) = Some (mem ! (it + 5))" "rd mem (it + 7) = Some (mem ! (it + 7))"
    using False assms by (simp_all add: rd_in)
  with http dot False show ?thesis
    by (cases b; cases d) (simp_all add: parse_protocol_def Let_def del: expect_seq.simps)
qed

lemma parse_message_header_name_total:
  assumes "lst \<le> length mem" "it < lst"
  shows "\<exists>j n e. parse_message_header_name mem lst it ec = Some (j, n, e) \<and> it \<le> j \<and> j \<le> lst + 1"
proof -
  obtain j b where "header_name_loop mem lst it = Some (j, b)" "it \<le> j" "j \<le> lst"
    using header_name_loop_total [OF assms(1), of it] assms(2) by auto
  then show ?thesis by (cases b) (auto simp: parse_message_header_name_def)
qed

lemma parse_message_header_value_total:
  assumes "clean mem" "lst + 1 \<le> length mem" "it \<le> lst + 1"
  shows "\<exists>j v e. parse_message_header_value mem lst it ec = Some (j, v, e) \<and> it \<le> j \<and> j \<le> lst + 1"
proof -
  obtain j b where skip: "skip_lws mem lst it = Some (j, b)" "it \<le> j" "b \<longrightarrow> j < lst"
    "it \<le> lst \<longrightarrow> j \<le> lst" "lst \<le> it \<longrightarrow> j = it"
    using skip_lws_total [of lst mem it] assms(2) by auto
  show ?thesis
  proof (cases b)
    case False
    with skip assms(3) show ?thesis
      by (cases "it \<le> lst") (auto simp: parse_message_header_value_def)
  next
    case True
    with skip have "j \<le> lst" by simp
    from header_value_loop_total [OF assms(1,2) this]
    obtain k c where "header_value_loop mem lst j = Some (k, c)" "j \<le> k" "k \<le> lst" by auto
    with skip True show ?thesis by (cases c) (auto simp: parse_message_header_value_def Let_def)
  qed
qed

text \<open>The four bytes read after a header can lie up to five bytes past the end of the data.\<close>

lemma header_loop_total:
  "clean mem \<Longrightarrow> lst + 5 \<le> length mem \<Longrightarrow> it \<le> lst + 3
    \<Longrightarrow> \<exists>j m' e. header_loop mem lst it m ec = Some (j, m', e) \<and> j \<le> lst + 3"
proof (induction mem lst it m ec rule: header_loop.induct)
  case (1 mem lst it m ec)
  show ?case
  proof (cases "it < lst")
    case False
    with "1.prems" show ?thesis by (subst header_loop.simps) simp
  next
    case True
    obtain i1 n e1 where name: "parse_message_header_name mem lst it ec = Some (i1, n, e1)" "i1 \<le> lst + 1"
      using parse_message_header_name_total [of lst mem it ec] True "1.prems" by auto
    obtain i2 v e2 where val: "parse_message_header_value mem lst i1 e1 = Some (i2, v, e2)" "i2 \<le> lst + 1"
      using parse_message_header_value_total [of mem lst i1 e1] name "1.prems" by auto
    have c: "rd mem i2 = Some (mem ! i2)" "rd mem (i2 + 1) = Some (mem ! (i2 + 1))"
      using val "1.prems" by (simp_all add: rd_in)
    obtain b where b: "at_seq mem (i2 + 2) crlf = Some b"
      using at_crlf_total [of "i2 + 2" mem] val "1.prems" by auto
    let ?m = "um_insert (to_lower n) v m"
    let ?e = "if mem ! (i2 + 1) \<noteq> lf then Some e_invalid_message_header_crlf else e2"
    show ?thesis
    proof (cases "mem ! i2 = cr")
      case cr: True
      show ?thesis
      proof (cases b)
        case True
        with \<open>it < lst\<close> name val c b cr show ?thesis
          by (subst header_loop.simps) (simp add: Let_def)
      next
        case False
        with "1.IH"(1) [OF \<open>it < lst\<close> name(1) refl refl val(1) refl refl refl c(1) _ c(2) refl b]
          "1.prems" \<open>it < lst\<close> name val c b cr
        show ?thesis by (subst header_loop.simps) (simp add: Let_def)
      qed
    next
      case False
      with "1.IH"(2) [OF \<open>it < lst\<close> name(1) refl refl val(1) refl refl refl c(1)]
        "1.prems" \<open>it < lst\<close> name val c
      show ?thesis by (subst header_loop.simps) (simp add: Let_def)
    qed
  qed
qed

lemma parse_message_header_total:
  assumes "clean mem" "lst + 5 \<le> length mem" "it \<le> lst + 3"
  shows "\<exists>j ph m' e. parse_message_header mem lst it m ec = Some (j, ph, m', e) \<and> j \<le> lst + 3"
proof (cases "it + 2 > lst")
  case True
  with assms(3) show ?thesis by (simp add: parse_message_header_def)
next
  case False
  with header_loop_total [OF assms, of m ec] show ?thesis
    by (auto simp: parse_message_header_def)
qed

lemma parse_start_line_total:
  assumes "clean mem" "lst + 5 \<le> length mem" "0 < lst"
  shows "\<exists>j q e. parse_start_line mem lst 0 p = Some (j, q, e) \<and> (e = None \<longrightarrow> j \<le> lst + 3)"
proof -
  have l: "lst \<le> length mem" using assms(2) by simp
  obtain i1 q1 m e1 where m_ok:
      "parse_method mem lst 0 (p\<lparr>ps_phase := ph_start_line_started\<rparr>) = Some (i1, q1, m, e1)"
      "e1 = None \<longrightarrow> i1 < lst"
    using parse_method_total [OF assms(1) l assms(3)] by blast
  show ?thesis
  proof (cases e1)
    case (Some x)
    with m_ok show ?thesis by (simp add: parse_start_line_def)
  next
    case None
    obtain i2 q2 t e2 where t_ok:
        "parse_target mem lst i1 (q1\<lparr>ps_method := m\<rparr>) = Some (i2, q2, t, e2)"
      using parse_target_total [OF l, of i1] m_ok None by blast
    obtain i3 q3 e3 where proto:
        "parse_protocol mem lst i2 (q2\<lparr>ps_target := t\<rparr>) = Some (i3, q3, e3)"
      using parse_protocol_total [OF l] by blast
    show ?thesis
    proof (cases "e2 = None \<and> e3 = None \<and> ps_version q3 = 11 \<and> i3 + 2 \<le> lst")
      case False
      with m_ok t_ok proto None show ?thesis
        by (auto simp: parse_start_line_def)
    next
      case True
      have c: "rd mem i3 = Some (mem ! i3)" "rd mem (i3 + 1) = Some (mem ! (i3 + 1))"
        using True l by (simp_all add: rd_in)
      have "i3 + 2 \<le> lst + 3" using True by simp
      from parse_message_header_total [OF assms(1,2) this, of "ps_headers q3" None]
      obtain i4 ph hs e4 where headers:
          "parse_message_header mem lst (i3 + 2) (ps_headers q3) None = Some (i4, ph, hs, e4)" "i4 \<le> lst + 3"
        by auto
      show ?thesis
        using m_ok t_ok proto None True c headers
        by (auto simp: parse_start_line_def Let_def parse_content_type_eq)
    qed
  qed
qed

subsection \<open>The headers come from the data\<close>

definition short_values :: "nat \<Rightarrow> headers \<Rightarrow> bool" where
  "short_values n m \<longleftrightarrow> (\<forall>k v. um_find m k = Some v \<longrightarrow> length v \<le> n)"

lemma short_values_empty: "short_values n []"
  by (simp add: short_values_def um.find_empty)

lemma short_values_insert: "short_values n m \<Longrightarrow> length v \<le> n \<Longrightarrow> short_values n (um_insert k v m)"
  by (auto simp: short_values_def um.find_insert)

lemma header_value_loop_le:
  "header_value_loop mem lst it = Some (j, b) \<Longrightarrow> it \<le> lst \<Longrightarrow> j \<le> lst"
proof (induction mem lst it rule: header_value_loop.induct)
  case (1 mem lst it)
  then show ?case
    by (subst (asm) header_value_loop.simps) (fastforce simp: option_bind_Some_iff split: if_splits)
qed

lemma skip_lws_le: "skip_lws mem lst it = Some (j, True) \<Longrightarrow> j < lst"
proof (induction mem lst it rule: skip_lws.induct)
  case (1 mem lst it)
  then show ?case
    by (subst (asm) skip_lws.simps) (fastforce simp: option_bind_Some_iff split: if_splits)
qed

lemma header_value_short:
  "parse_message_header_value mem lst it ec = Some (j, v, e) \<Longrightarrow> length v \<le> lst"
  by (auto simp: parse_message_header_value_def option_bind_Some_iff Let_def bytes_def split: if_splits
      dest!: skip_lws_le header_value_loop_le)

lemma header_loop_short:
  "header_loop mem lst it m ec = Some (j, m', e) \<Longrightarrow> short_values lst m \<Longrightarrow> short_values lst m'"
proof (induction mem lst it m ec rule: header_loop.induct)
  case (1 mem lst it m ec)
  show ?case
  proof (cases "it < lst")
    case False
    with "1.prems" show ?thesis by (subst (asm) header_loop.simps) simp
  next
    case True
    with "1.prems"(1) obtain i1 n e1 i2 v e2 c0 where
      name: "parse_message_header_name mem lst it ec = Some (i1, n, e1)" and
      val: "parse_message_header_value mem lst i1 e1 = Some (i2, v, e2)" and
      c0: "rd mem i2 = Some c0"
      by (subst (asm) header_loop.simps) (auto simp: option_bind_Some_iff Let_def)
    have short: "short_values lst (um_insert (to_lower n) v m)"
      by (rule short_values_insert [OF "1.prems"(2) header_value_short [OF val]])
    show ?thesis
    proof (cases "c0 = cr")
      case cr: True
      with "1.prems"(1) True name val c0 obtain c1 b where
        c1: "rd mem (i2 + 1) = Some c1" and b: "at_seq mem (i2 + 2) crlf = Some b"
        by (subst (asm) header_loop.simps) (auto simp: option_bind_Some_iff Let_def)
      show ?thesis
        using "1.IH"(1) [OF True name refl refl val refl refl refl c0 cr c1 refl b] "1.prems"(1) short
          True name val c0 cr c1 b
        by (subst (asm) (2) header_loop.simps) (auto simp: Let_def split: if_splits)
    next
      case False
      show ?thesis
        using "1.IH"(2) [OF True name refl refl val refl refl refl c0 False] "1.prems"(1) short
          True name val c0 False
        by (subst (asm) (2) header_loop.simps) (auto simp: Let_def)
    qed
  qed
qed

lemma parse_message_header_short:
  "parse_message_header mem lst it m ec = Some (j, ph, m', e) \<Longrightarrow> short_values lst m \<Longrightarrow> short_values lst m'"
  by (auto simp: parse_message_header_def option_bind_Some_iff split: if_splits dest: header_loop_short)

end
