(* ===== verification/Parser_Defined.thy ===== *)
theory Parser_Defined
  imports Parser_Safety
begin

text \<open>
  \<open>parse\<close> has no undefined behaviour but the overflow of \<open>atoi\<close>, when the buffer has room for
  the reads past the end of the data: the upload code first, then the whole of \<open>parse\<close>.
\<close>

lemma boundary_count_total:
  "it + c + length bs \<le> length mem \<Longrightarrow> it < length mem \<Longrightarrow> \<exists>n. boundary_count mem it c bs k = Some n"
proof (induction bs arbitrary: c k)
  case Nil
  show ?case by simp
next
  case (Cons b bs)
  then have "\<exists>n. boundary_count mem it (Suc c) bs j = Some n" for j by simp
  with Cons.prems show ?case by (simp add: rd_in)
qed

lemma verify_total:
  "lst + length bound \<le> length mem
    \<Longrightarrow> \<exists>j b. verify_boundary_value mem lst it len bound = Some (j, b) \<and> (it \<le> lst \<longrightarrow> j \<le> lst)
          \<and> (b \<longrightarrow> j < lst)"
proof (induction mem lst it len bound rule: verify_boundary_value.induct)
  case (1 mem lst it len bound)
  show ?case
  proof (cases "it < lst")
    case False
    then show ?thesis by (subst verify_boundary_value.simps) (simp, blast)
  next
    case True
    have "it + 0 + length (take len bound) \<le> length mem" "it < length mem"
      using True "1.prems" by simp_all
    from boundary_count_total [OF this, of 0]
    obtain n where n: "boundary_count mem it 0 (take len bound) 0 = Some n" by blast
    show ?thesis
    proof (cases "n = len")
      case False
      with "1.IH" [OF True n] "1.prems" True n show ?thesis
        by (subst verify_boundary_value.simps) auto
    next
      case eq: True
      with True n show ?thesis by (subst verify_boundary_value.simps) (simp, blast)
    qed
  qed
qed

lemma skip_dashes_total:
  "lst \<le> length mem \<Longrightarrow> it \<le> lst \<Longrightarrow> \<exists>j. skip_dashes mem lst it = Some j \<and> j \<le> lst"
proof (induction mem lst it rule: skip_dashes.induct)
  case (1 mem lst it)
  show ?case
  proof (cases "it < lst \<and> mem ! it = CHR ''-''")
    case True
    with "1.IH" [of "mem ! it"] "1.prems" show ?thesis
      by (subst skip_dashes.simps) (auto simp: rd_in)
  next
    case False
    with "1.prems" show ?thesis by (subst skip_dashes.simps) (auto simp: rd_in)
  qed
qed

lemma boundary_line_total:
  "lst + 3 \<le> length mem \<Longrightarrow> it \<le> lst
    \<Longrightarrow> \<exists>j b. boundary_line_loop mem lst it = Some (j, b) \<and> j \<le> lst"
proof (induction mem lst it rule: boundary_line_loop.induct)
  case (1 mem lst it)
  show ?case
  proof (cases "it < lst")
    case False
    with "1.prems" show ?thesis by (subst boundary_line_loop.simps) (simp, blast)
  next
    case True
    then obtain b where b: "at_seq mem it (''--'' @ crlf) = Some b"
      using at_seq_total [of it "''--'' @ crlf" mem] "1.prems" by auto
    obtain d where d: "at_seq mem it crlf = Some d"
      using at_crlf_total [of it mem] True "1.prems" by auto
    show ?thesis
    proof (cases "b \<or> d")
      case bd: True
      with True b d show ?thesis
        by (subst boundary_line_loop.simps) (auto simp del: at_seq.simps append.simps)
    next
      case False
      with "1.IH" [OF True b _ d] "1.prems" True b d show ?thesis
        by (subst boundary_line_loop.simps) (auto simp del: at_seq.simps append.simps)
    qed
  qed
qed

lemma media_end_total:
  "lst \<le> length mem \<Longrightarrow> \<exists>j b. media_end_loop mem lst it = Some (j, b)"
proof (induction mem lst it rule: media_end_loop.induct)
  case (1 mem lst it)
  show ?case
  proof (cases "it < lst")
    case False
    then show ?thesis by (subst media_end_loop.simps) (simp, blast)
  next
    case True
    then have c: "rd mem it = Some (mem ! it)" using "1.prems" by (simp add: rd_in)
    show ?thesis
    proof (cases "mem ! it = CHR ''-'' \<or> it + 2 > lst")
      case t: True
      with "1.IH"(1,2) [OF True c] "1.prems" True c show ?thesis
        by (subst media_end_loop.simps) auto
    next
      case False
      then obtain b where b: "at_seq mem it crlf = Some b"
        using at_crlf_total [of it mem] "1.prems" by auto
      with "1.IH"(3) [OF True c _ _ b] "1.prems" True False c show ?thesis
        by (subst media_end_loop.simps) auto
    qed
  qed
qed

lemma first_part_total:
  assumes "clean mem" "lst + 5 + length v \<le> length mem" "it \<le> lst"
  shows "\<exists>j q e. parse_first_part mem lst it p v ec = Some (j, q, e)
    \<and> ps_boundary q = ps_boundary p \<and> ps_headers q = ps_headers p"
proof -
  have l: "lst \<le> length mem" "lst + length v \<le> length mem" "lst + 3 \<le> length mem" "lst + 5 \<le> length mem"
    using assms(2) by simp_all
  obtain i1 where i1: "skip_dashes mem lst it = Some i1" "i1 \<le> lst"
    using skip_dashes_total [OF l(1) assms(3)] by blast
  obtain i2 b where i2: "verify_boundary_value mem lst i1 (length v) v = Some (i2, b)" "i2 \<le> lst"
    using verify_total [OF l(2), of i1 "length v"] i1(2) by blast
  obtain i3 c where i3: "boundary_line_loop mem lst i2 = Some (i3, c)" "i3 \<le> lst"
    using boundary_line_total [OF l(3) i2(2)] by blast
  show ?thesis
  proof (cases "c \<or> bytes mem i2 i3 \<noteq> v")
    case True
    with i1 i2 i3 show ?thesis by (auto simp: parse_first_part_def Let_def)
  next
    case False
    have "i3 + 2 \<le> lst + 3" using i3(2) by simp
    from parse_message_header_total [OF assms(1) l(4) this, of "[]" ec]
    obtain j ph m e where "parse_message_header mem lst (i3 + 2) [] ec = Some (j, ph, m, e)" by blast
    with i1 i2 i3 False show ?thesis
      by (cases "um_find m ''content-type''") (simp_all add: parse_first_part_def Let_def)
  qed
qed

lemma length_dropWhile_drop: "length (dropWhile P (drop n (take k (drop m xs)))) \<le> length xs"
  by (rule order_trans [OF length_dropWhile_le]) simp

lemma media_begin_total:
  assumes "clean mem" "2 * lst + 5 \<le> length mem" "short_values lst (ps_headers p)"
    "length (ps_boundary p) \<le> lst"
  shows "\<exists>j q e. parse_media_type_begin mem lst it p ec = Some (j, q, e)
    \<and> length (ps_boundary q) \<le> lst \<and> ps_headers q = ps_headers p"
proof (cases "um_find (ps_headers p) ''content-type''")
  case None
  with assms(4) show ?thesis by (simp add: parse_media_type_begin_def)
next
  case (Some ct)
  then have ct: "length ct \<le> lst" using assms(3) by (auto simp: short_values_def)
  show ?thesis
  proof (cases "find_str ct ''boundary='' 0")
    case None
    with Some assms(4) show ?thesis by (simp add: parse_media_type_begin_def)
  next
    case pos: (Some i)
    let ?w = "take (length ct) (drop i ct)"
    let ?v = "dropWhile (\<lambda>c. c = CHR ''='' \<or> c = CHR ''-'') (drop 8 ?w)"
    let ?p = "p\<lparr>ps_phase := ph_media_type, ps_boundary := ?v\<rparr>"
    have v: "length ?w \<le> lst" "length ?v \<le> lst"
      using ct length_dropWhile_drop [of _ 8 "length ct" i ct] by (auto intro: order_trans)
    show ?thesis
    proof (cases "take 8 ?w \<noteq> ''boundary'' \<or> it + 4 > lst")
      case True
      then consider "take 8 ?w \<noteq> ''boundary''" | "take 8 ?w = ''boundary''" "it + 4 > lst" by blast
      then show ?thesis
        by cases (use Some pos v in \<open>simp_all add: parse_media_type_begin_def Let_def del: length_take length_drop\<close>)
    next
      case False
      have "it + length (crlf @ crlf) \<le> length mem" using False assms(2) by simp
      then obtain b where b: "at_seq mem it (crlf @ crlf) = Some b" using at_seq_total by blast
      have room: "lst + 5 + length ?v \<le> length mem" using v(2) assms(2) by linarith
      have "(if b then it + 4 else it) \<le> lst" using False by simp
      from first_part_total [OF assms(1) room this, of "?p\<lparr>ps_boundary_length := length ?v\<rparr>" ec]
      obtain j q e where "parse_first_part mem lst (if b then it + 4 else it)
          (?p\<lparr>ps_boundary_length := length ?v\<rparr>) ?v ec = Some (j, q, e)"
        "ps_boundary q = ?v" "ps_headers q = ps_headers p" by auto
      with Some pos False b v show ?thesis
        by (simp add: parse_media_type_begin_def Let_def del: length_take length_drop)
    qed
  qed
qed

text \<open>The announced length is one that \<open>atoi\<close> can read.\<close>

definition length_ok :: "headers \<Rightarrow> bool" where
  "length_ok m \<longleftrightarrow> announced m \<noteq> None"

lemma media_more_total:
  assumes "lst + length (ps_boundary p) \<le> length mem" "length_ok (ps_headers p)"
  shows "\<exists>r. parse_media_type_more mem lst it p = Some r
    \<and> (\<forall>j q. r = Inr (j, q) \<longrightarrow> ps_boundary q = ps_boundary p \<and> ps_headers q = ps_headers p)"
proof (cases "um_find (ps_headers p) ''content-length''")
  case None
  then show ?thesis by (simp add: parse_media_type_more_def)
next
  case (Some h)
  then obtain n where n: "atoi h = Some n" using assms(2) by (auto simp: length_ok_def announced_def)
  show ?thesis
  proof (cases "it = lst")
    case True
    with Some show ?thesis by (simp add: parse_media_type_more_def)
  next
    case False
    obtain j b where j: "verify_boundary_value mem lst it (ps_boundary_length p) (ps_boundary p) = Some (j, b)"
      using verify_total [OF assms(1)] by blast
    obtain k c where k: "(if b then media_end_loop mem lst j else Some (j, False)) = Some (k, c)"
      using media_end_total [of lst mem j] assms(1) by (cases b) auto
    show ?thesis
      using Some n False j k by (auto simp: parse_media_type_more_def Let_def)
  qed
qed

lemma media_total:
  assumes "clean mem" "2 * lst + 5 \<le> length mem" "short_values lst (ps_headers p)"
    "length (ps_boundary p) \<le> lst" "length_ok (ps_headers p)"
  shows "\<exists>r. parse_media_type mem lst it p ec = Some r
    \<and> (\<forall>j q e. r = Inr (j, q, e) \<longrightarrow> length (ps_boundary q) \<le> lst \<and> ps_headers q = ps_headers p)"
proof -
  have more: "\<exists>r. parse_media_type_more mem lst i q = Some r
    \<and> (\<forall>j q'. r = Inr (j, q') \<longrightarrow> length (ps_boundary q') \<le> lst \<and> ps_headers q' = ps_headers p)"
    if "length (ps_boundary q) \<le> lst" "ps_headers q = ps_headers p" for i q
    using media_more_total [of lst q mem i] that assms(2,5) by fastforce
  show ?thesis
  proof (cases "ps_phase p = ph_content_type_finished")
    case True
    obtain j q e where b: "parse_media_type_begin mem lst it p ec = Some (j, q, e)"
      "length (ps_boundary q) \<le> lst" "ps_headers q = ps_headers p"
      using media_begin_total [OF assms(1-4)] by blast
    obtain r where "parse_media_type_more mem lst j q = Some r"
      "\<forall>j q'. r = Inr (j, q') \<longrightarrow> length (ps_boundary q') \<le> lst \<and> ps_headers q' = ps_headers p"
      using more [OF b(2,3)] by blast
    with True b(1) show ?thesis by (cases r) (auto simp: parse_media_type_def)
  next
    case False
    obtain r where "parse_media_type_more mem lst it p = Some r"
      "\<forall>j q'. r = Inr (j, q') \<longrightarrow> length (ps_boundary q') \<le> lst \<and> ps_headers q' = ps_headers p"
      using more [OF assms(4) refl] by blast
    with False assms(4) show ?thesis by (cases r) (auto simp: parse_media_type_def)
  qed
qed

text \<open>A parser between two calls: what the segments so far left in it.\<close>

definition parser_ok :: "nat \<Rightarrow> parser \<Rightarrow> bool" where
  "parser_ok lst p \<longleftrightarrow> short_values lst (ps_headers p) \<and> length (ps_boundary p) \<le> lst
     \<and> length_ok (ps_headers p)
     \<and> (ps_phase p = ph_content_type_finished \<or> ps_phase p = ph_body_pending \<longrightarrow> ps_content_type p \<noteq> None)"

lemma parse_more_total:
  assumes "clean mem" "2 * lst + 5 \<le> length mem" "short_values lst (ps_headers p)"
    "length (ps_boundary p) \<le> lst" "length_ok (ps_headers p)"
  shows "\<exists>r. parse_more mem lst it p ec = Some r"
proof -
  obtain r where "parse_media_type mem lst it p ec = Some r" using media_total [OF assms] by blast
  then show ?thesis by (cases r) (auto simp: parse_more_def)
qed

lemma parse_content_total:
  assumes "clean mem" "2 * lst + 5 \<le> length mem" "parser_ok lst p"
  shows "\<exists>r. parse_content mem lst it p ec = Some r"
proof (cases "ps_phase p = ph_content_type_finished \<or> ps_phase p = ph_body_pending")
  case False
  with parse_more_total [OF assms(1,2), of p it ec] assms(3) show ?thesis
    by (simp add: parse_content_def parser_ok_def)
next
  case True
  then obtain ct where ct: "ps_content_type p = Some ct" using assms(3) by (auto simp: parser_ok_def)
  have ok: "short_values lst (ps_headers p)" "length (ps_boundary p) \<le> lst" "length_ok (ps_headers p)"
    using assms(3) by (simp_all add: parser_ok_def)
  show ?thesis
  proof (cases "ct \<in> {ct_image, ct_image_jpeg, ct_multipart_formdata}")
    case media: True
    obtain r where r: "parse_media_type mem lst it p ec = Some r"
      "\<forall>j q e. r = Inr (j, q, e) \<longrightarrow> length (ps_boundary q) \<le> lst \<and> ps_headers q = ps_headers p"
      using media_total [OF assms(1,2) ok] by blast
    have "\<exists>x. parse_more mem lst j q e = Some x" if "r = Inr (j, q, e)" for j q e
      using parse_more_total [OF assms(1,2), of q j e] r(2) that ok by simp
    with True ct media r(1) show ?thesis by (cases r) (auto simp: parse_content_def)
  next
    case False
    with True ct show ?thesis
      using parse_more_total [OF assms(1,2) ok, of it ec]
      by (cases "parse_body mem lst it p") (auto simp: parse_content_def)
  qed
qed

lemma parse_rest_total:
  assumes "clean mem" "2 * lst + 5 \<le> length mem" "parser_ok lst p"
  shows "\<exists>r. parse_rest mem lst it p ec = Some r"
proof -
  have "\<exists>b. body_missing lst it p = Some b"
    using assms(3)
    by (auto simp: body_missing_def parser_ok_def length_ok_def announced_def split: option.splits)
  then obtain b where "body_missing lst it p = Some b" by blast
  with parse_content_total [OF assms, of it ec] show ?thesis by (cases b) (auto simp: parse_rest_def)
qed

text \<open>What \<open>parse_start_line\<close> leaves in a new parser.\<close>

definition idle_phase :: "parse_phase \<Rightarrow> bool" where
  "idle_phase ph \<longleftrightarrow> ph \<noteq> ph_not_started \<and> ph \<noteq> ph_content_type_finished
     \<and> ph \<noteq> ph_body_pending \<and> ph \<noteq> ph_finished"

definition same_tables :: "parser \<Rightarrow> parser \<Rightarrow> bool" where
  "same_tables q p \<longleftrightarrow> ps_headers q = ps_headers p \<and> ps_boundary q = ps_boundary p"

lemma parse_method_keeps:
  "parse_method mem lst it p = Some (j, q, m, e) \<Longrightarrow> same_tables q p \<and> idle_phase (ps_phase q)"
  by (auto simp: parse_method_def Let_def option_bind_Some_iff same_tables_def idle_phase_def
      split: if_split_asm)

lemma parse_target_keeps:
  "parse_target mem lst it p = Some (j, q, m, e) \<Longrightarrow> same_tables q p \<and> idle_phase (ps_phase q)"
  by (auto simp: parse_target_def Let_def option_bind_Some_iff same_tables_def idle_phase_def
      split: if_split_asm)

lemma parse_protocol_keeps:
  "parse_protocol mem lst it p = Some (j, q, e) \<Longrightarrow> same_tables q p \<and> idle_phase (ps_phase q)"
  by (auto simp: parse_protocol_def Let_def option_bind_Some_iff same_tables_def idle_phase_def
      simp del: expect_seq.simps split: if_split_asm)

text \<open>The headers, read after the protocol's line feed, and the content type they name.\<close>

definition start_line_headers ::
    "char list \<Rightarrow> nat \<Rightarrow> nat \<Rightarrow> parser \<Rightarrow> (nat \<times> parser \<times> http_error option) option" where
  "start_line_headers mem lst it p =
     do {
       (it, phase, headers, ec) \<leftarrow> parse_message_header mem lst (it + 2) (ps_headers p) None;
       let p = parse_content_type headers (p\<lparr>ps_phase := phase, ps_headers := headers\<rparr>);
       ct \<leftarrow> ps_content_type p;
       if \<not> supported_content_type ct then Some (it, p, Some e_content_type_not_implemented)
       else Some (it, p, ec)
     }"

lemma start_line_headers_keeps:
  assumes "start_line_headers mem lst it p = Some (j, q, e)"
  shows "\<exists>i ph hs ec. parse_message_header mem lst (it + 2) (ps_headers p) None = Some (i, ph, hs, ec)
    \<and> q = parse_content_type hs (p\<lparr>ps_phase := ph, ps_headers := hs\<rparr>)
    \<and> (e = None \<longrightarrow> supported_content_type (ct_of_headers hs))"
proof -
  obtain i ph hs ec where m: "parse_message_header mem lst (it + 2) (ps_headers p) None = Some (i, ph, hs, ec)"
    using assms by (auto simp: start_line_headers_def option_bind_Some_iff)
  with assms show ?thesis
    by (auto simp: start_line_headers_def Let_def parse_content_type_eq split: if_split_asm)
qed

lemma parse_start_line_keeps:
  assumes start: "parse_start_line mem lst it p = Some (j, q, e)"
  shows "(short_values lst (ps_headers p) \<longrightarrow> short_values lst (ps_headers q)) \<and> ps_boundary q = ps_boundary p
    \<and> (idle_phase (ps_phase q) \<and> ps_headers q = ps_headers p
         \<or> ps_phase q = ph_content_type_finished \<and> ps_content_type q \<noteq> None)
    \<and> (e = None \<longrightarrow> (\<exists>ct. ps_content_type q = Some ct \<and> supported_content_type ct))"
proof -
  obtain i1 q1 m e1 where m_ok:
      "parse_method mem lst it (p\<lparr>ps_phase := ph_start_line_started\<rparr>) = Some (i1, q1, m, e1)"
    using start by (auto simp: parse_start_line_def option_bind_Some_iff)
  from parse_method_keeps [OF m_ok] have
    q1: "same_tables q1 p" "idle_phase (ps_phase q1)" by (simp_all add: same_tables_def)
  show ?thesis
  proof (cases e1)
    case (Some x)
    with start m_ok have "q = q1" "e = Some x" by (simp_all add: parse_start_line_def)
    with q1 show ?thesis by (simp add: same_tables_def)
  next
    case None
    then obtain i2 q2 t e2 where t_ok:
        "parse_target mem lst i1 (q1\<lparr>ps_method := m\<rparr>) = Some (i2, q2, t, e2)"
      using start m_ok by (auto simp: parse_start_line_def option_bind_Some_iff)
    from parse_target_keeps [OF t_ok] have
      q2: "same_tables q2 p" "idle_phase (ps_phase q2)" using q1 by (simp_all add: same_tables_def)
    show ?thesis
    proof (cases e2)
      case (Some x)
      with start m_ok t_ok None have "q = q2" "e = Some x" by (simp_all add: parse_start_line_def)
      with q2 show ?thesis by (simp add: same_tables_def)
    next
      case n2: None
      then obtain i3 q3 e3 where proto:
          "parse_protocol mem lst i2 (q2\<lparr>ps_target := t\<rparr>) = Some (i3, q3, e3)"
        using start m_ok t_ok None by (auto simp: parse_start_line_def option_bind_Some_iff)
      from parse_protocol_keeps [OF proto] have
        q3: "same_tables q3 p" "idle_phase (ps_phase q3)" using q2 by (simp_all add: same_tables_def)
      show ?thesis
      proof (cases "q = q3 \<and> e \<noteq> None")
        case True
        with q3 show ?thesis by (auto simp: same_tables_def)
      next
        case False
        then have "start_line_headers mem lst i3 q3 = Some (j, q, e)"
          using start m_ok t_ok proto None n2
          by (cases e3; cases "rd mem i3"; cases "rd mem (i3 + 1)")
            (auto simp: parse_start_line_def start_line_headers_def split: if_split_asm)
        from start_line_headers_keeps [OF this] obtain i4 ph hs e4 where headers:
            "parse_message_header mem lst (i3 + 2) (ps_headers q3) None = Some (i4, ph, hs, e4)"
          and q: "q = parse_content_type hs (q3\<lparr>ps_phase := ph, ps_headers := hs\<rparr>)"
            "e = None \<longrightarrow> supported_content_type (ct_of_headers hs)" by blast
        have "short_values lst (ps_headers p) \<longrightarrow> short_values lst hs"
          using parse_message_header_short [OF headers] q3 by (simp add: same_tables_def)
        with q q3 show ?thesis by (auto simp: parse_content_type_eq same_tables_def)
      qed
    qed
  qed
qed

lemma parse_start_line_phase:
  "parse_start_line mem lst it p = Some (j, q, e) \<Longrightarrow> ps_phase q \<noteq> ph_finished"
  by (drule parse_start_line_keeps) (auto simp: idle_phase_def)

lemma parse_new_total:
  assumes "clean mem" "2 * sz + 5 \<le> length mem"
    and lengths: "\<And>j q e. parse_start_line mem sz 0 (new_parser\<lparr>ps_phase := ph_start_line\<rparr>) = Some (j, q, e)
      \<Longrightarrow> length_ok (ps_headers q)"
  shows "\<exists>r. parse mem sz new_parser = Some r"
proof (cases "sz = 0")
  case True
  then show ?thesis by (simp add: parse_def new_parser_def)
next
  case False
  let ?p = "new_parser\<lparr>ps_phase := ph_start_line\<rparr>"
  have "sz + 5 \<le> length mem" using assms(2) by simp
  from parse_start_line_total [OF assms(1) this, of ?p] False
  obtain j q e where start: "parse_start_line mem sz 0 ?p = Some (j, q, e)" by blast
  have "parser_ok sz q"
    using parse_start_line_keeps [OF start] short_values_empty [of sz] lengths [OF start] by (auto simp: parser_ok_def new_parser_def idle_phase_def)
  from parse_rest_total [OF assms(1,2) this, of j e] False start show ?thesis
    by (simp add: parse_def new_parser_def)
qed

text \<open>
  A parser that has begun a request and waits for more: its next call does not go through the start
  line again, and reads at most the boundary's length past the data.
\<close>

definition mid_request :: "nat \<Rightarrow> parser \<Rightarrow> bool" where
  "mid_request B p \<longleftrightarrow> ps_phase p \<noteq> ph_not_started \<and> ps_phase p \<noteq> ph_content_type_finished
     \<and> length (ps_boundary p) \<le> B \<and> length_ok (ps_headers p)
     \<and> (ps_phase p = ph_body_pending \<longrightarrow> ps_content_type p \<noteq> None)"

lemma more_phases:
  assumes "parse_media_type_more mem lst it p = Some (Inr (j, q))"
  shows "ps_phase q \<in> {ps_phase p, ph_media_type_need_more, ph_media_type_finished}"
  using assms
  by (auto simp: parse_media_type_more_def Let_def option_bind_Some_iff split: if_splits option.splits)

lemma more_mid:
  assumes "lst + B \<le> length mem" "mid_request B p" "ps_phase p \<noteq> ph_body_pending"
  shows "\<exists>r. parse_media_type_more mem lst it p = Some r
    \<and> (\<forall>j q. r = Inr (j, q) \<longrightarrow> mid_request B q \<and> ps_phase q \<noteq> ph_body_pending)"
proof -
  have "lst + length (ps_boundary p) \<le> length mem" "length_ok (ps_headers p)"
    using assms(1,2) by (auto simp: mid_request_def)
  from media_more_total [OF this, of it] obtain r where r: "parse_media_type_more mem lst it p = Some r"
    "\<forall>j q. r = Inr (j, q) \<longrightarrow> ps_boundary q = ps_boundary p \<and> ps_headers q = ps_headers p" by blast
  have "mid_request B q \<and> ps_phase q \<noteq> ph_body_pending" if "r = Inr (j, q)" for j q
    using more_phases [of mem lst it p j q] r that assms(2,3) by (auto simp: mid_request_def)
  with r(1) show ?thesis by blast
qed

lemma parse_more_mid:
  assumes "lst + B \<le> length mem" "mid_request B p"
  shows "\<exists>r. parse_more mem lst it p ec = Some r \<and> (\<forall>p' e. r = Inr (None, p', e) \<longrightarrow> mid_request B p')"
proof (cases "ps_phase p = ph_media_type_need_more")
  case True
  then obtain r where r: "parse_media_type_more mem lst it p = Some r" "\<forall>j q. r = Inr (j, q) \<longrightarrow> mid_request B q"
    using more_mid [OF assms, of it] by auto
  with True show ?thesis
    by (cases r) (auto simp: parse_more_def parse_media_type_def parse_finish_def)
next
  case False
  with assms(2) show ?thesis by (auto simp: parse_more_def parse_finish_def)
qed

lemma parse_content_mid:
  assumes "lst + B \<le> length mem" "mid_request B p"
  shows "\<exists>r. parse_content mem lst it p ec = Some r \<and> (\<forall>p' e. r = Inr (None, p', e) \<longrightarrow> mid_request B p')"
proof (cases "ps_phase p = ph_body_pending")
  case False
  with assms(2) have "parse_content mem lst it p ec = parse_more mem lst it p ec"
    by (simp add: parse_content_def mid_request_def)
  with parse_more_mid [OF assms] show ?thesis by simp
next
  case True
  then obtain ct where ct: "ps_content_type p = Some ct" using assms(2) by (auto simp: mid_request_def)
  show ?thesis
  proof (cases "ct \<in> {ct_text, ct_application_json, ct_form_urlencoded, ct_not_specified}")
    case tx: True
    with True ct show ?thesis
      by (cases "parse_body mem lst it p") (auto simp: parse_content_def)
  next
    case False
    have "parse_media_type mem lst it p ec = Some (Inr (it, p, ec))" using True by (simp add: parse_media_type_def)
    with True ct False have "parse_content mem lst it p ec = parse_more mem lst it p ec"
      by (auto simp: parse_content_def)
    with parse_more_mid [OF assms] show ?thesis by simp
  qed
qed

lemma parse_mid:
  assumes "sz + B \<le> length mem" "mid_request B p"
  shows "\<exists>r. parse mem sz p = Some r \<and> (\<forall>p' e. r = Inr (None, p', e) \<longrightarrow> mid_request B p')"
proof -
  have "parse mem sz p = parse_content mem sz 0 p None"
    using assms(2) by (simp add: parse_def parse_rest_def body_missing_def mid_request_def)
  with parse_content_mid [OF assms] show ?thesis by simp
qed


lemma parse_content_first:
  assumes mem: "clean mem" "2 * lst + 5 \<le> length mem" and ok: "parser_ok lst p" "ps_phase p = ph_content_type_finished"
    and ec: "ec = None \<longrightarrow> (\<exists>ct. ps_content_type p = Some ct \<and> supported_content_type ct)"
    and r: "parse_content mem lst it p ec = Some (Inr (None, p', None))"
  shows "mid_request lst p'"
proof -
  have room: "lst + lst \<le> length mem" using mem(2) by simp
  have o: "short_values lst (ps_headers p)" "length (ps_boundary p) \<le> lst" "length_ok (ps_headers p)"
    using ok(1) by (simp_all add: parser_ok_def)
  obtain ct where ct: "ps_content_type p = Some ct" using ok by (auto simp: parser_ok_def)
  show ?thesis
  proof (cases "ct \<in> {ct_image, ct_image_jpeg, ct_multipart_formdata}")
    case True
    obtain i q e where b: "parse_media_type_begin mem lst it p ec = Some (i, q, e)"
      "length (ps_boundary q) \<le> lst" "ps_headers q = ps_headers p"
      using media_begin_total [OF mem o(1,2)] by blast
    have q: "mid_request lst q" "ps_phase q \<noteq> ph_body_pending"
      using begin_phase [OF b(1)] b(2,3) o(3) by (auto simp: mid_request_def)
    obtain s where s: "parse_media_type_more mem lst i q = Some s"
      "\<forall>j q. s = Inr (j, q) \<longrightarrow> mid_request lst q \<and> ps_phase q \<noteq> ph_body_pending"
      using more_mid [OF room q] by blast
    have "parse_content mem lst it p ec =
        (case s of Inl x \<Rightarrow> Some (Inl x) | Inr (j, q1) \<Rightarrow> parse_more mem lst j q1 e)"
      using True ok(2) ct b(1) s(1) by (auto simp: parse_content_def parse_media_type_def split: sum.split)
    with r obtain j q1 where q1: "s = Inr (j, q1)" "parse_more mem lst j q1 e = Some (Inr (None, p', None))"
      by (auto split: sum.split_asm)
    with s(2) parse_more_mid [OF room, of q1 j e] show ?thesis by auto
  next
    case False
    with r ok(2) ct ec show ?thesis
      by (auto simp: parse_content_def parse_more_def parse_finish_def supported_content_type_def
          split: if_split_asm sum.split_asm)
  qed
qed

lemma parse_first:
  assumes mem: "clean mem" "2 * sz + 5 \<le> length mem" and sz: "sz \<noteq> 0"
    and start: "parse_start_line mem sz 0 (new_parser\<lparr>ps_phase := ph_start_line\<rparr>) = Some (j, q, e)" "length_ok (ps_headers q)"
    and r: "parse mem sz new_parser = Some (Inr (None, p', None))"
  shows "mid_request sz p'"
proof -
  have rest: "parse_rest mem sz j q e = Some (Inr (None, p', None))"
    using r sz start(1) by (simp add: parse_def new_parser_def)
  note keeps = parse_start_line_keeps [OF start(1)]
  have ok: "parser_ok sz q" and bs: "length (ps_boundary q) \<le> sz"
    using keeps short_values_empty [of sz] start(2) by (auto simp: parser_ok_def new_parser_def idle_phase_def)
  have room: "sz + sz \<le> length mem" using mem(2) by simp
  show ?thesis
  proof (cases "ps_phase q = ph_content_type_finished")
    case False
    then have "mid_request sz q"
      using keeps bs start(2) by (auto simp: mid_request_def idle_phase_def)
    moreover have "body_missing sz j q = Some False" using False by (simp add: body_missing_def)
    ultimately show ?thesis
      using rest parse_content_mid [OF room, of q j e] by (auto simp: parse_rest_def)
  next
    case True
    obtain b where b: "body_missing sz j q = Some b" using rest by (auto simp: parse_rest_def option_bind_Some_iff)
    show ?thesis
    proof (cases b)
      case True
      with rest b ok bs \<open>ps_phase q = _\<close> show ?thesis by (auto simp: parse_rest_def mid_request_def parser_ok_def)
    next
      case False
      with rest b have c: "parse_content mem sz j q e = Some (Inr (None, p', None))" by (simp add: parse_rest_def)
      have "e = None \<longrightarrow> (\<exists>ct. ps_content_type q = Some ct \<and> supported_content_type ct)"
        using keeps by blast
      from parse_content_first [OF mem ok True this c] show ?thesis .
    qed
  qed
qed

text \<open>
  Successive calls of \<open>parse\<close>, one per segment, each with the bytes of the buffer behind the segment:
  none of them, up to the first that returns a request, an error or an exception, has undefined
  behaviour.
\<close>

fun segments_defined :: "(string \<times> string) list \<Rightarrow> parser \<Rightarrow> bool" where
  "segments_defined [] p = True"
| "segments_defined ((d, slack) # ds) p =
     (case parse (d @ slack) (length d) p of
        None \<Rightarrow> False
      | Some (Inr (None, p', None)) \<Rightarrow> segments_defined ds p'
      | _ \<Rightarrow> True)"

lemma segments_defined_mid:
  "mid_request B p \<Longrightarrow> list_all (\<lambda>(d, slack). B \<le> length slack) ds \<Longrightarrow> segments_defined ds p"
proof (induction ds arbitrary: p)
  case Nil
  show ?case by simp
next
  case (Cons s ds)
  obtain d slack where s: "s = (d, slack)" by (cases s)
  then have "length d + B \<le> length (d @ slack)" using Cons.prems(2) by simp
  from parse_mid [OF this Cons.prems(1)] obtain r where
    "parse (d @ slack) (length d) p = Some r" "\<forall>p' e. r = Inr (None, p', e) \<longrightarrow> mid_request B p'" by blast
  with Cons s show ?case by (auto split: sum.split option.split prod.split)
qed

text \<open>The length the first segment's headers announce, if they are read, is one \<open>atoi\<close> can read.\<close>

definition announces_int :: "string \<Rightarrow> string \<Rightarrow> bool" where
  "announces_int d slack \<longleftrightarrow>
     (case parse_start_line (d @ slack) (length d) 0 (new_parser\<lparr>ps_phase := ph_start_line\<rparr>) of
        None \<Rightarrow> True
      | Some (j, q, e) \<Rightarrow> length_ok (ps_headers q))"

lemma segments_defined_new:
  assumes "clean (d @ slack)" "2 * length d + 5 \<le> length (d @ slack)" "d \<noteq> []"
    and later: "list_all (\<lambda>(c, s). length d \<le> length s) ds"
  shows "segments_defined ((d, slack) # ds) new_parser \<longleftrightarrow> announces_int d slack"
proof -
  let ?mem = "d @ slack" and ?sz = "length d" and ?p = "new_parser\<lparr>ps_phase := ph_start_line\<rparr>"
  have "?sz + 5 \<le> length ?mem" "0 < ?sz" using assms(2,3) by simp_all
  from parse_start_line_total [OF assms(1) this(1), of ?p] this(2)
  obtain j q e where start: "parse_start_line ?mem ?sz 0 ?p = Some (j, q, e)" by blast
  then have a: "announces_int d slack = length_ok (ps_headers q)" by (simp add: announces_int_def)
  show ?thesis
  proof (cases "length_ok (ps_headers q)")
    case True
    obtain r where r: "parse ?mem ?sz new_parser = Some r"
      using parse_new_total [OF assms(1,2)] start True by auto
    have "segments_defined ds p'" if "r = Inr (None, p', None)" for p'
      using parse_first [OF assms(1,2) _ start True] r that assms(3) later by (auto intro: segments_defined_mid)
    with r True a show ?thesis by (auto split: sum.split option.split prod.split)
  next
    case False
    have "ps_phase q = ph_content_type_finished"
    proof (rule ccontr)
      assume "ps_phase q \<noteq> ph_content_type_finished"
      then have "ps_headers q = []" using parse_start_line_keeps [OF start] by (auto simp: new_parser_def)
      with False show False by (simp add: length_ok_def announced_def um_find_def)
    qed
    then have "body_missing ?sz j q = None"
      using False by (auto simp: body_missing_def length_ok_def announced_def split: option.splits)
    then have "parse ?mem ?sz new_parser = None"
      using start assms(3) by (simp add: parse_def parse_rest_def new_parser_def)
    with False a show ?thesis by simp
  qed
qed

end
