(* ===== verification/Parser_Upload.thy ===== *)
theory Parser_Upload
  imports Parser_Correct
begin

text \<open>
  The parser on an upload: a \<open>multipart/form-data\<close> request whose body, with one part, comes in the
  same segment as its head.
\<close>

subsection \<open>The loops\<close>

lemma at_drop: "at mem s T \<Longrightarrow> j \<le> length T \<Longrightarrow> at mem (s + j) (drop j T)"
  using at_append [of mem s "take j T" "drop j T"] by simp

lemma at_seq_mismatch:
  "at mem it ys \<Longrightarrow> take (length p) ys \<noteq> take (length ys) p \<Longrightarrow> at_seq mem it p = Some False"
proof (induction p arbitrary: it ys)
  case Nil
  then show ?case by simp
next
  case (Cons c p)
  then obtain y ys' where ys: "ys = y # ys'" by (cases ys) auto
  with Cons.prems have y: "rd mem it = Some y" "at mem (Suc it) ys'" by simp_all
  then show ?case using Cons.IH [OF y(2)] Cons.prems(2) ys by auto
qed

lemma skip_dashes_scan:
  "list_all (\<lambda>c. c = CHR ''-'') ds \<Longrightarrow> at mem it (ds @ [c]) \<Longrightarrow> c \<noteq> CHR ''-'' \<Longrightarrow> it + length ds < lst
    \<Longrightarrow> skip_dashes mem lst it = Some (it + length ds)"
proof (induction ds arbitrary: it)
  case Nil
  then show ?case by (subst skip_dashes.simps) simp
next
  case (Cons d ds)
  then show ?case using Cons.IH [of "Suc it"] by (subst skip_dashes.simps) simp
qed

text \<open>
  The count of \<open>verify_boundary_value\<close> reaches the length of the value exactly where the value
  stands, when it does not begin with a dash.
\<close>

lemma boundary_count_bound:
  assumes "at mem (it + c) ys" "length bs \<le> length ys" "rd mem it = Some x"
  shows "\<exists>n. boundary_count mem it c bs m = Some n \<and> n \<le> m + length bs
    \<and> (n = m + length bs \<longleftrightarrow> bs = [] \<or> take (length bs) ys = bs \<and> x \<noteq> CHR ''-'')"
  using assms(1,2)
proof (induction bs arbitrary: c ys m)
  case Nil
  then show ?case by simp
next
  case (Cons b bs)
  then obtain y ys' where ys: "ys = y # ys'" by (cases ys) auto
  have y: "rd mem (it + c) = Some y" "at mem (it + Suc c) ys'" "length bs \<le> length ys'"
    using Cons.prems ys by simp_all
  note IH = Cons.IH [OF y(2,3)]
  show ?case
  proof (cases "y = b \<and> x \<noteq> CHR ''-''")
    case True
    with IH [of "m + 1"] y(1) assms(3) ys show ?thesis by auto
  next
    case False
    obtain k where k: "boundary_count mem it c (b # bs) m = boundary_count mem it (Suc c) bs k" "k \<le> m"
    proof (cases "y = b")
      case True
      with False y(1) assms(3) show ?thesis by (intro that [of m]) simp_all
    next
      case ne: False
      with y(1) show ?thesis by (intro that [of 0]) simp_all
    qed
    obtain n where n: "boundary_count mem it (Suc c) bs k = Some n" "n \<le> k + length bs" using IH [of k] by auto
    have "\<not> (take (length (b # bs)) ys = b # bs \<and> x \<noteq> CHR ''-'')" using False ys by auto
    with k n show ?thesis by (intro exI [of _ n]) auto
  qed
qed

lemma boundary_here:
  assumes "at mem it ys" "length v \<le> length ys" "v \<noteq> []" "hd v \<noteq> CHR ''-''"
  shows "\<exists>n. boundary_count mem it 0 v 0 = Some n \<and> (n = length v \<longleftrightarrow> take (length v) ys = v)"
proof -
  obtain y ys' where ys: "ys = y # ys'" using assms(2,3) by (cases ys) auto
  then have x: "rd mem it = Some y" using assms(1) by simp
  have "take (length v) ys = v \<Longrightarrow> y \<noteq> CHR ''-''" using assms(3,4) ys by (cases v) auto
  moreover have "at mem (it + 0) ys" using assms(1) by simp
  ultimately show ?thesis using boundary_count_bound [OF _ assms(2) x, of 0 0] assms(3) by auto
qed

lemma verify_boundary_scan:
  assumes "at mem s T" "lst = s + length T" "v \<noteq> []" "hd v \<noteq> CHR ''-''" "find_str T v 0 = Some k"
  shows "verify_boundary_value mem lst s (length v) v = Some (s + k, True)"
proof -
  have k: "k + length v \<le> length T" "take (length v) (drop k T) = v"
    using find_str_Some [OF assms(5)] by auto
  have "verify_boundary_value mem lst (s + j) (length v) v = Some (s + k, True)" if "j \<le> k" for j
    using that
  proof (induction "k - j" arbitrary: j)
    case 0
    then have j: "j = k" by simp
    have lt: "s + k < lst" using k(1) assms(2,3) by (cases v) auto
    have "at mem (s + k) (drop k T)" using at_drop [OF assms(1)] k(1) by simp
    from boundary_here [OF this _ assms(3,4)] k obtain n where "boundary_count mem (s + k) 0 v 0 = Some n" "n = length v"
      by auto
    with lt j show ?case by (subst verify_boundary_value.simps) simp
  next
    case (Suc d)
    then have j: "j < k" by simp
    have lt: "s + j < lst" and fits: "length v \<le> length T - j" using j k(1) assms(2) by linarith+
    have "at mem (s + j) (drop j T)" using at_drop [OF assms(1)] j k(1) by simp
    moreover have "take (length v) (drop j T) \<noteq> v" using find_str_first [OF assms(5) _ j] by simp
    ultimately obtain n where "boundary_count mem (s + j) 0 v 0 = Some n" "n \<noteq> length v"
      using boundary_here [of mem "s + j" "drop j T" v] assms(3,4) fits by auto
    moreover have "verify_boundary_value mem lst (s + Suc j) (length v) v = Some (s + k, True)"
      using Suc.hyps(1) [of "Suc j"] Suc.hyps(2) j by simp
    ultimately show ?case using lt by (subst verify_boundary_value.simps) simp
  qed
  from this [of 0] show ?thesis by simp
qed

text \<open>A line that holds the boundary and does not close the body ends at its CRLF.\<close>

definition closing_line :: "string \<Rightarrow> bool" where
  "closing_line v \<longleftrightarrow> (\<exists>u. v = u @ ''--'')"

lemma closing_line_Cons: "\<not> closing_line (x # v) \<Longrightarrow> \<not> closing_line v"
  unfolding closing_line_def by (metis append_Cons)

lemma boundary_line_scan:
  "list_all is_print_c v \<Longrightarrow> \<not> closing_line v \<Longrightarrow> at mem it (v @ crlf) \<Longrightarrow> it + length v < lst
    \<Longrightarrow> boundary_line_loop mem lst it = Some (it + length v, False)"
proof (induction v arbitrary: it)
  case Nil
  then have "at_seq mem it (''--'' @ crlf) = Some False"
    by (intro at_seq_mismatch [of mem it crlf]) (auto simp: crlf_def cr_def)
  with Nil show ?case by (subst boundary_line_loop.simps) (simp add: scan_simps)
next
  case (Cons x v)
  have "take 4 ((x # v) @ crlf) \<noteq> take (length ((x # v) @ crlf)) (''--'' @ crlf)"
  proof
    assume *: "take 4 ((x # v) @ crlf) = take (length ((x # v) @ crlf)) (''--'' @ crlf)"
    then obtain y v' where v: "v = y # v'" by (cases v) (auto simp: crlf_def cr_def)
    have "v' = []" using * v Cons.prems(1) by (cases v') (auto simp: crlf_def dest: print_not_cr)
    with * v Cons.prems(2) show False by (simp add: closing_line_def crlf_def)
  qed
  then have "at_seq mem it (''--'' @ crlf) = Some False"
    by (intro at_seq_mismatch [OF Cons.prems(3)]) (simp add: crlf_def eval_nat_numeral)
  moreover have "rd mem it = Some x" "x \<noteq> cr" using Cons.prems(1,3) by (auto simp: print_not_cr)
  ultimately show ?case
    using Cons.IH [of "Suc it"] Cons.prems closing_line_Cons [OF Cons.prems(2)]
    by (subst boundary_line_loop.simps) (simp add: at_crlf_differs)
qed

lemma media_end_scan:
  "list_all is_print_c v \<Longrightarrow> at mem it (v @ crlf) \<Longrightarrow> it + length v + 2 \<le> lst
    \<Longrightarrow> media_end_loop mem lst it = Some (it + length v + 2, True)"
proof (induction v arbitrary: it)
  case Nil
  then have "rd mem it = Some cr" "cr \<noteq> CHR ''-''" by (auto simp: crlf_def cr_def)
  with Nil show ?case by (subst media_end_loop.simps) (simp add: scan_simps)
next
  case (Cons x v)
  then have "rd mem it = Some x" "x \<noteq> cr" by (auto simp: print_not_cr)
  then show ?case
    using Cons.IH [of "Suc it"] Cons.prems by (subst media_end_loop.simps) (simp add: at_crlf_differs)
qed

subsection \<open>The upload\<close>

text \<open>What \<open>parse_media_type_begin\<close> makes of the \<open>content-type\<close> header.\<close>

definition boundary_of :: "string \<Rightarrow> string option" where
  "boundary_of ct = map_option (\<lambda>pos. dropWhile (\<lambda>c. c = CHR ''='' \<or> c = CHR ''-'') (drop (pos + 8) ct))
     (find_str ct ''boundary='' 0)"

definition boundary_wf :: "string \<Rightarrow> bool" where
  "boundary_wf v \<longleftrightarrow> v \<noteq> [] \<and> list_all is_print_c v \<and> \<not> closing_line v"

definition dashes :: "string \<Rightarrow> bool" where
  "dashes ds \<longleftrightarrow> list_all (\<lambda>c. c = CHR ''-'') ds"

lemma boundary_no_dash: "boundary_of ct = Some v \<Longrightarrow> v \<noteq> [] \<Longrightarrow> hd v \<noteq> CHR ''-''"
  by (auto simp: boundary_of_def dest!: hd_dropWhile [of "\<lambda>c. c = CHR ''='' \<or> c = CHR ''-''"])

lemma boundary_taken:
  assumes "find_str ct ''boundary='' 0 = Some pos"
  shows "take 8 (drop pos ct) = ''boundary''"
proof -
  have "take 9 (drop pos ct) = ''boundary=''"
    using find_str_Some [OF assms] by (simp add: eval_nat_numeral)
  then have "take 8 (take 9 (drop pos ct)) = ''boundary''" by simp
  then show ?thesis by simp
qed

lemma begin_first_part:
  assumes "um_find (ps_headers p) ''content-type'' = Some ct" "boundary_of ct = Some v"
    "at mem it (crlf @ crlf)" "it + 4 \<le> lst"
  shows "parse_media_type_begin mem lst it p ec =
    parse_first_part mem lst (it + 4)
      (p\<lparr>ps_phase := ph_media_type, ps_boundary := v, ps_boundary_length := length v\<rparr>) v ec"
proof -
  obtain pos where pos: "find_str ct ''boundary='' 0 = Some pos"
    "v = dropWhile (\<lambda>c. c = CHR ''='' \<or> c = CHR ''-'') (drop (pos + 8) ct)"
    using assms(2) by (auto simp: boundary_of_def)
  have all: "take (length ct) (drop pos ct) = drop pos ct" by simp
  have "at_seq mem it (crlf @ crlf) = Some True" using assms(3) by (rule at_seq_at)
  then show ?thesis
    using assms(1,4) pos boundary_taken [OF pos(1)]
    by (simp add: parse_media_type_begin_def Let_def all add.commute)
qed

lemma first_part_scan:
  assumes v: "boundary_wf v" "hd v \<noteq> CHR ''-''" and ds: "dashes ds"
    and hs: "hs \<noteq> []" "list_all ht_wf hs" "um_find (insert_headers hs []) ''content-type'' \<noteq> None"
    and mem: "at mem it (ds @ v @ crlf @ head_block hs @ crlf @ T)"
    and len: "lst = it + length (ds @ v @ crlf @ head_block hs @ crlf @ T)"
  shows "parse_first_part mem lst it p v ec =
    Some (it + length (ds @ v @ crlf @ head_block hs @ crlf),
      p\<lparr>ps_phase := ph_headers_finished, ps_upload_headers := insert_headers hs []\<rparr>, ec)"
proof -
  let ?s = "it + length ds" and ?R = "v @ crlf @ head_block hs @ crlf @ T"
  let ?h = "it + length ds + length v + 2"
  have vs: "v \<noteq> []" "list_all is_print_c v" "\<not> closing_line v" using v(1) by (auto simp: boundary_wf_def)
  obtain x v' where x: "v = x # v'" using vs(1) by (cases v) auto
  have at_R: "at mem ?s ?R" using mem by simp
  have skip: "skip_dashes mem lst it = Some ?s"
    by (rule skip_dashes_scan [where c = x]) (use ds v x mem len in \<open>auto simp: dashes_def\<close>)
  have "find_str ?R v 0 = Some 0" by (subst find_str.simps) simp
  then have verify: "verify_boundary_value mem lst ?s (length v) v = Some (?s, True)"
    using verify_boundary_scan [OF at_R _ vs(1) v(2), of lst 0] len by simp
  have line: "boundary_line_loop mem lst ?s = Some (?s + length v, False)"
    by (rule boundary_line_scan [OF vs(2,3)]) (use at_R len in \<open>auto simp: crlf_def\<close>)
  have bound: "bytes mem ?s (?s + length v) = v" using at_R by (simp add: at_bytes)
  obtain h hs' where "hs = h # hs'" using hs(1) by (cases hs) auto
  then have two: "2 \<le> length (head_block hs)" by (simp add: head_block_def)
  have "header_loop mem lst ?h [] ec = Some (?h + length (head_block hs) - 2, insert_headers hs [], ec)"
    by (rule header_loop_scan [OF hs(1,2)]) (use at_R len in \<open>auto simp: crlf_def add.assoc\<close>)
  then have "parse_message_header mem lst ?h [] ec =
      Some (?h + length (head_block hs) - 2, ph_headers_finished, insert_headers hs [], ec)"
    using len two by (simp add: parse_message_header_def)
  then show ?thesis
    using skip verify line bound hs(3) two
    by (auto simp: parse_first_part_def Let_def crlf_def)
qed

lemma more_scan:
  assumes v: "boundary_wf v" "hd v \<noteq> CHR ''-''"
    and p: "ps_boundary p = v" "ps_boundary_length p = length v" "ps_readed p = of_nat (length (ps_multipart p))"
    and cl: "um_find (ps_headers p) ''content-length'' = Some l" "atoi l = Some n"
    and e: "list_all is_print_c e"
    and first: "find_str (pre @ v @ e @ crlf @ rest) v 0 = Some (length pre)"
    and mem: "at mem it (pre @ v @ e @ crlf @ rest)"
    and len: "lst = it + length (pre @ v @ e @ crlf @ rest)"
    and small: "length (ps_multipart p @ pre @ v @ e @ crlf) \<le> vector_max_size"
  shows "\<exists>p'. parse_media_type_more mem lst it p = Some (Inr (it + length (pre @ v @ e @ crlf), p'))
    \<and> p' = p\<lparr>ps_readed := of_nat (length (ps_multipart p @ pre @ v @ e @ crlf)),
      ps_multipart := ps_multipart p @ pre @ v @ e @ crlf,
      ps_uploads := ps_uploads p @
        [\<lparr>up_bytes = ps_multipart p @ pre @ v @ e @ crlf, up_headers = ps_upload_headers p\<rparr>],
      ps_phase := ph_media_type_finished\<rparr>"
proof -
  let ?u = "pre @ v @ e @ crlf" and ?w = "ps_multipart p @ pre @ v @ e @ crlf"
  have vs: "v \<noteq> []" "list_all is_print_c v" using v(1) by (auto simp: boundary_wf_def)
  have ne: "it \<noteq> lst" using len vs(1) by auto
  have verify: "verify_boundary_value mem lst it (length v) v = Some (it + length pre, True)"
    by (rule verify_boundary_scan [OF mem len vs(1) v(2) first])
  have "media_end_loop mem lst (it + length pre) = Some (it + length pre + length (v @ e) + 2, True)"
    by (rule media_end_scan) (use vs(2) e mem len in \<open>auto simp: crlf_def\<close>)
  then have media: "media_end_loop mem lst (it + length pre) = Some (it + length ?u, True)"
    by (simp add: crlf_def)
  have u: "bytes mem it (it + length ?u) = ?u" by (rule at_bytes) (use mem in simp)
  have sum: "ps_readed p + word_of_int (int (it + length ?u) - int it) = of_nat (length ?w)"
    using p(3) by simp
  have "length ?w < 2 ^ 64" using small by (simp add: vector_max_size_def)
  then have readed: "unat (of_nat (length ?w) :: 64 word) = length ?w"
    by (simp add: of_nat_inverse del: length_append)
  show ?thesis
    using ne verify media u readed cl p(1,2) sum small
    by (simp add: parse_media_type_more_def Let_def del: length_append)
qed

text \<open>
  A segment in which no boundary begins.  The search compares the whole boundary at every place, so
  at the last places it reads what stands in the buffer behind the segment.
\<close>

definition quiet :: "string \<Rightarrow> string \<Rightarrow> string \<Rightarrow> bool" where
  "quiet v d slack \<longleftrightarrow> length v \<le> length slack
     \<and> (case find_str (d @ slack) v 0 of None \<Rightarrow> True | Some k \<Rightarrow> length d \<le> k)"

lemma quiet_nowhere: "quiet v d slack \<Longrightarrow> j < length d \<Longrightarrow> take (length v) (drop j (d @ slack)) \<noteq> v"
  using find_str_None [of "d @ slack" v 0 j] find_str_first [of "d @ slack" v 0 _ j]
  by (auto simp: quiet_def split: option.splits)

lemma verify_boundary_quiet:
  assumes "at mem s (d @ slack)" "lst = s + length d" "v \<noteq> []" "hd v \<noteq> CHR ''-''" "quiet v d slack"
  shows "verify_boundary_value mem lst s (length v) v = Some (lst, False)"
proof -
  have "verify_boundary_value mem lst (s + j) (length v) v = Some (lst, False)" if "j \<le> length d" for j
    using that
  proof (induction "length d - j" arbitrary: j)
    case 0
    then show ?case using assms(2) by (subst verify_boundary_value.simps) simp
  next
    case (Suc k)
    then have j: "j < length d" by simp
    have lt: "s + j < lst" and fits: "length v \<le> length (drop j (d @ slack))"
      using j assms(2,5) by (auto simp: quiet_def)
    have here: "at mem (s + j) (drop j (d @ slack))" using at_drop [OF assms(1), of j] j by (simp del: drop_append at_append)
    obtain n where "boundary_count mem (s + j) 0 v 0 = Some n" "n \<noteq> length v"
      using boundary_here [OF here fits assms(3,4)] quiet_nowhere [OF assms(5) j] by auto
    moreover have "verify_boundary_value mem lst (s + Suc j) (length v) v = Some (lst, False)"
      using Suc.hyps(1) [of "Suc j"] Suc.hyps(2) j by simp
    ultimately show ?case using lt by (subst verify_boundary_value.simps) simp
  qed
  from this [of 0] show ?thesis by simp
qed

lemma more_waits:
  assumes v: "boundary_wf v" "hd v \<noteq> CHR ''-''"
    and p: "ps_boundary p = v" "ps_boundary_length p = length v" "ps_readed p = of_nat (length (ps_multipart p))"
    and cl: "um_find (ps_headers p) ''content-length'' = Some l" "atoi l = Some n"
    and quiet: "quiet v d slack" and mem: "at mem it (d @ slack)" and len: "lst = it + length d"
    and more: "int (length (ps_multipart p @ d)) < n"
  shows "parse_media_type_more mem lst it p = Some (Inr (lst,
    p\<lparr>ps_readed := of_nat (length (ps_multipart p @ d)), ps_multipart := ps_multipart p @ d,
      ps_phase := ph_media_type_need_more\<rparr>))"
proof (cases "d = []")
  case True
  with len p cl show ?thesis by (simp add: parse_media_type_more_def)
next
  case False
  let ?w = "ps_multipart p @ d"
  have n: "n \<le> int_max" using cl(2) by (simp add: atoi_def Let_def split: if_split_asm)
  then have w: "length ?w < 2 ^ 31" using more by (simp add: int_max_def)
  then have readed: "unat (of_nat (length ?w) :: 64 word) = length ?w"
    by (simp add: of_nat_inverse del: length_append)
  obtain k where k: "n = int k" using more by (metis le_less_trans less_imp_le nonneg_int_cases of_nat_0_le_iff)
  have "unat (of_nat k :: 64 word) = k" using n k by (simp add: of_nat_inverse int_max_def)
  then have less: "(of_nat (length ?w) :: 64 word) < word_of_int n"
    using readed more k by (simp add: word_less_nat_alt del: length_append)
  have bs: "bytes mem it lst = d" by (rule at_bytesI [OF _ len]) (use mem in simp)
  have sum: "ps_readed p + word_of_int (int lst - int it) = of_nat (length ?w)"
    using p(3) len by simp
  have small: "\<not> vector_max_size < length ?w" using w by (simp add: vector_max_size_def)
  have "verify_boundary_value mem lst it (length v) v = Some (lst, False)"
    using verify_boundary_quiet [OF mem len _ v(2) quiet] v(1) by (simp add: boundary_wf_def)
  with False len bs sum small less readed cl p(1,2) show ?thesis
    by (simp add: parse_media_type_more_def Let_def del: length_append)
qed

text \<open>
  The text of an upload begins with the head of the request, a line of dashes and the boundary, and the
  headers of the part.  Its content ends with CR LF, dashes, and the next text that holds the
  boundary, up to the end of that line (\<open>up_mark\<close> is what follows the boundary in it, two dashes in
  the line that closes the body).
\<close>

record upload_text =
  up_request :: request_text
  up_boundary :: string
  up_dashes :: string
  up_part_headers :: "header_text list"
  up_mark :: string

definition up_head :: "upload_text \<Rightarrow> string" where
  "up_head u = rt_head (up_request u) @ crlf @ up_dashes u @ up_boundary u @ crlf
     @ head_block (up_part_headers u) @ crlf"

definition up_end :: "upload_text \<Rightarrow> string" where
  "up_end u = up_boundary u @ up_mark u @ crlf"

definition up_wf :: "upload_text \<Rightarrow> bool" where
  "up_wf u \<longleftrightarrow> rt_wf (up_request u)
     \<and> ct_of_headers (rt_table (up_request u)) = ct_multipart_formdata
     \<and> boundary_of (the (um_find (rt_table (up_request u)) ''content-type'')) = Some (up_boundary u)
     \<and> boundary_wf (up_boundary u) \<and> dashes (up_dashes u) \<and> list_all is_print_c (up_mark u)
     \<and> up_part_headers u \<noteq> [] \<and> list_all ht_wf (up_part_headers u)
     \<and> um_find (insert_headers (up_part_headers u) []) ''content-type'' \<noteq> None
     \<and> (\<exists>l n. um_find (rt_table (up_request u)) ''content-length'' = Some l \<and> atoi l = Some n)"

lemma up_wfD:
  assumes "up_wf u"
  shows "\<exists>ct. um_find (rt_table (up_request u)) ''content-type'' = Some ct \<and> boundary_of ct = Some (up_boundary u)"
    "hd (up_boundary u) \<noteq> CHR ''-''"
    "\<exists>l n. um_find (rt_table (up_request u)) ''content-length'' = Some l \<and> atoi l = Some n
      \<and> announced (rt_table (up_request u)) = Some n"
proof -
  note wf = assms [unfolded up_wf_def]
  obtain ct where ct: "um_find (rt_table (up_request u)) ''content-type'' = Some ct" "boundary_of ct = Some (up_boundary u)"
    using wf by (cases "um_find (rt_table (up_request u)) ''content-type''") (auto simp: ct_of_headers_def)
  then show "\<exists>ct. um_find (rt_table (up_request u)) ''content-type'' = Some ct \<and> boundary_of ct = Some (up_boundary u)"
    by blast
  show "hd (up_boundary u) \<noteq> CHR ''-''" using boundary_no_dash [OF ct(2)] wf by (simp add: boundary_wf_def)
  show "\<exists>l n. um_find (rt_table (up_request u)) ''content-length'' = Some l \<and> atoi l = Some n
      \<and> announced (rt_table (up_request u)) = Some n"
    using wf by (auto simp: announced_def)
qed

text \<open>The parser in the part: it has the head of the request and the headers of the part.\<close>

definition in_part :: "upload_text \<Rightarrow> parser" where
  "in_part u = (head_parsed (up_request u))\<lparr>ps_phase := ph_headers_finished, ps_boundary := up_boundary u,
     ps_boundary_length := length (up_boundary u), ps_upload_headers := insert_headers (up_part_headers u) []\<rparr>"

definition up_answer :: "upload_text \<Rightarrow> string \<Rightarrow> http_request" where
  "up_answer u bs = mk_upload_request (to_method (rt_method (up_request u))) 11 (rt_target (up_request u))
     (rt_table (up_request u)) [\<lparr>up_bytes = bs, up_headers = insert_headers (up_part_headers u) []\<rparr>]"

lemma parse_upload_head:
  assumes u: "up_wf u" and mem: "at mem 0 (up_head u @ d)" and sz: "sz = length (up_head u @ d)"
  shows "parse mem sz new_parser =
    do {
      r \<leftarrow> parse_media_type_more mem sz (length (up_head u)) (in_part u);
      (case r of Inl e \<Rightarrow> Some (Inl e) | Inr (it, p) \<Rightarrow> parse_more mem sz it p None)
    }"
proof -
  let ?r = "up_request u" and ?v = "up_boundary u" and ?hs = "up_part_headers u"
  let ?it = "length (rt_head ?r) - 2"
  note wf = u [unfolded up_wf_def]
  obtain ct where ct: "um_find (rt_table ?r) ''content-type'' = Some ct" "boundary_of ct = Some ?v"
    using up_wfD(1) [OF u] by blast
  obtain n where n: "announced (rt_table ?r) = Some n" using up_wfD(3) [OF u] by blast
  let ?body = "up_dashes u @ ?v @ crlf @ head_block ?hs @ crlf @ d"
  have whole: "up_head u @ d = rt_head ?r @ crlf @ ?body" by (simp add: up_head_def)
  have msg: "at mem 0 (rt_head ?r @ crlf @ ?body)" and size: "sz = length (rt_head ?r @ crlf @ ?body)"
    using mem sz unfolding whole by blast+
  note ends = head_ends_crlf [OF _ msg]
  have blank: "at mem ?it (crlf @ crlf)" "at mem (?it + 4) ?body" "4 \<le> length (rt_head ?r)"
    using ends wf by (simp_all add: crlf_def eval_nat_numeral)
  have len: "sz = ?it + 4 + length ?body" using size blank(3) by (simp add: crlf_def)
  have far: "?it + 4 < sz" using len wf by (auto simp: boundary_wf_def)
  let ?p1 = "(head_parsed ?r)\<lparr>ps_phase := ph_media_type, ps_boundary := ?v, ps_boundary_length := length ?v\<rparr>"
  have "?it + 4 + length (up_dashes u @ ?v @ crlf @ head_block ?hs @ crlf) = length (up_head u)"
    using blank(3) by (simp add: up_head_def crlf_def)
  then have begin1: "parse_media_type_begin mem sz ?it (head_parsed ?r) None = Some (length (up_head u), in_part u, None)"
    using begin_first_part [of "head_parsed ?r" ct ?v mem ?it sz None]
      first_part_scan [OF _ up_wfD(2) [OF u] _ _ _ _ blank(2) len, of ?p1 None] ct blank(1) far wf
    by (simp add: head_parsed_def in_part_def)
  have "parse mem sz new_parser = parse_rest mem sz ?it (head_parsed ?r) None"
    by (rule parse_head) (use msg wf size in \<open>auto simp: supported_content_type_def\<close>)
  moreover have "body_missing sz ?it (head_parsed ?r) = Some False"
    using body_missing_head [OF n, of sz ?it] far by simp
  ultimately have "parse mem sz new_parser = parse_content mem sz ?it (head_parsed ?r) None"
    by (simp add: parse_rest_def)
  then show ?thesis
    using wf begin1
    by (auto simp: parse_content_def parse_media_type_def head_parsed_def intro!: Option.bind_cong split: sum.split)
qed

subsection \<open>Uploads in one segment and in many\<close>

definition waiting :: "upload_text \<Rightarrow> string \<Rightarrow> parser" where
  "waiting u data = (in_part u)\<lparr>ps_readed := of_nat (length data), ps_multipart := data,
     ps_phase := ph_media_type_need_more\<rparr>"

lemmas upload_state_defs = in_part_def head_parsed_def new_parser_def

lemma parse_waiting:
  "parse mem sz (waiting u data) =
    do {
      r \<leftarrow> parse_media_type_more mem sz 0 (waiting u data);
      (case r of Inl e \<Rightarrow> Some (Inl e) | Inr (it, p) \<Rightarrow> Some (parse_finish p None))
    }"
  by (auto simp: parse_def parse_rest_def body_missing_def parse_content_def parse_more_def parse_media_type_def
      waiting_def intro!: Option.bind_cong split: sum.split)

lemma upload_waits:
  assumes u: "up_wf u" "announced (rt_table (up_request u)) = Some n"
    and q: "quiet (up_boundary u) d slack" "at mem it (d @ slack)" "int (length (data @ d)) < n"
    and p: "p = waiting u data \<or> p = in_part u \<and> data = []"
  shows "parse_media_type_more mem (it + length d) it p = Some (Inr (it + length d, waiting u (data @ d)))"
proof -
  obtain l where l: "um_find (rt_table (up_request u)) ''content-length'' = Some l" "atoi l = Some n"
    using up_wfD(3) [OF u(1)] u(2) by auto
  show ?thesis
    using more_waits [of "up_boundary u" p l n d slack mem it "it + length d"] u(1) up_wfD(2) [OF u(1)] l q p
    by (auto simp: waiting_def upload_state_defs up_wf_def simp del: at_append length_append)
qed

lemma upload_ends:
  assumes u: "up_wf u"
    and first: "find_str (pre @ up_end u @ rest) (up_boundary u) 0 = Some (length pre)"
    and small: "length (data @ pre @ up_end u) \<le> vector_max_size"
    and mem: "at mem it (pre @ up_end u @ rest)" "sz = it + length (pre @ up_end u @ rest)"
    and p: "p = waiting u data \<or> p = in_part u \<and> data = []"
  shows "\<exists>j q. parse_media_type_more mem sz it p = Some (Inr (j, q)) \<and> ps_phase q = ph_media_type_finished
    \<and> mk_upload_request (to_method (ps_method q)) (ps_version q) (ps_target q) (ps_headers q) (ps_uploads q) =
        up_answer u (data @ pre @ up_end u)"
proof -
  obtain l n where l: "um_find (rt_table (up_request u)) ''content-length'' = Some l" "atoi l = Some n"
    using up_wfD(3) [OF u] by auto
  show ?thesis
    using more_scan [of "up_boundary u" p l n "up_mark u" pre rest mem it sz]
      u up_wfD(2) [OF u] l first small mem p
    by (auto simp: waiting_def upload_state_defs up_wf_def up_answer_def up_end_def simp del: at_append length_append)
qed

lemma parse_upload:
  assumes u: "up_wf u"
    and first: "find_str (pre @ up_end u @ rest) (up_boundary u) 0 = Some (length pre)"
    and small: "length (pre @ up_end u) \<le> vector_max_size"
    and mem: "at mem 0 (up_head u @ pre @ up_end u @ rest)"
    and sz: "sz = length (up_head u @ pre @ up_end u @ rest)"
  shows "\<exists>p. parse mem sz new_parser = Some (Inr (Some (up_answer u (pre @ up_end u)), p, None))
    \<and> ps_phase p = ph_finished"
proof -
  have "at mem (length (up_head u)) (pre @ up_end u @ rest)" using mem by simp
  from upload_ends [OF u first, of "[]" mem "length (up_head u)" sz "in_part u"] this small sz
  obtain j q where "parse_media_type_more mem sz (length (up_head u)) (in_part u) = Some (Inr (j, q))"
    "ps_phase q = ph_media_type_finished"
    "mk_upload_request (to_method (ps_method q)) (ps_version q) (ps_target q) (ps_headers q) (ps_uploads q) =
        up_answer u (pre @ up_end u)"
    by auto
  with parse_upload_head [OF u mem sz] show ?thesis by (simp add: parse_more_def parse_finish_def)
qed

lemma parse_upload_first:
  assumes u: "up_wf u" "announced (rt_table (up_request u)) = Some n"
    and q: "quiet (up_boundary u) d slack" "int (length d) < n"
  shows "parse (up_head u @ d @ slack) (length (up_head u @ d)) new_parser = Some (Inr (None, waiting u d, None))"
proof -
  let ?mem = "up_head u @ d @ slack" and ?it = "length (up_head u)"
  have a: "at ?mem ?it (d @ slack)" using at_prefix [of "up_head u" "d @ slack" "[]"] by simp
  have "at ?mem 0 (up_head u @ d)" using at_whole [of "up_head u @ d" slack] by simp
  moreover have "parse_media_type_more ?mem (?it + length d) ?it (in_part u) = Some (Inr (?it + length d, waiting u d))"
    using upload_waits [OF u q(1) a, of "[]" "in_part u"] q(2) by simp
  moreover obtain l where "um_find (rt_table (up_request u)) ''content-length'' = Some l"
    using up_wfD(3) [OF u(1)] by auto
  then have "parse_media_type_more mem j j (waiting u d) = Some (Inr (j, waiting u d))" for mem j
    by (simp add: parse_media_type_more_def waiting_def upload_state_defs)
  then have "parse_more mem j j (waiting u d) None = Some (Inr (None, waiting u d, None))" for mem j
    by (simp add: parse_more_def parse_media_type_def waiting_def parse_finish_def)
  ultimately show ?thesis
    using parse_upload_head [OF u(1), of ?mem d "?it + length d"] by simp
qed

text \<open>A session gives the segments to its parser one after the other, until there is a request.\<close>

fun parse_segments :: "(string \<times> string) list \<Rightarrow> parser \<Rightarrow> (http_request option \<times> parser) option" where
  "parse_segments [] p = Some (None, p)"
| "parse_segments ((d, slack) # ds) p =
     (case parse (d @ slack) (length d) p of
        Some (Inr (None, p', None)) \<Rightarrow> parse_segments ds p'
      | Some (Inr (Some rq, p', None)) \<Rightarrow> Some (Some rq, p')
      | _ \<Rightarrow> None)"

definition seg_data :: "(string \<times> string) list \<Rightarrow> string" where
  "seg_data ds = concat (map fst ds)"

lemma segments_wait:
  assumes u: "up_wf u" "announced (rt_table (up_request u)) = Some n"
  shows "list_all (\<lambda>(d, slack). quiet (up_boundary u) d slack) ds \<Longrightarrow> int (length (data @ seg_data ds)) < n
    \<Longrightarrow> parse_segments (ds @ es) (waiting u data) = parse_segments es (waiting u (data @ seg_data ds))"
proof (induction ds arbitrary: data)
  case Nil
  then show ?case by (simp add: seg_data_def)
next
  case (Cons x ds)
  obtain d slack where x: "x = (d, slack)" by (cases x)
  have q: "quiet (up_boundary u) d slack" using Cons.prems(1) x by simp
  have "at (d @ slack) 0 (d @ slack)" using at_whole [of "d @ slack" "[]"] by simp
  then have "parse_media_type_more (d @ slack) (length d) 0 (waiting u data) = Some (Inr (length d, waiting u (data @ d)))"
    using upload_waits [OF u q, of "d @ slack" 0 data "waiting u data"] Cons.prems(2) x by (simp add: seg_data_def)
  then have "parse (d @ slack) (length d) (waiting u data) = Some (Inr (None, waiting u (data @ d), None))"
    by (simp add: parse_waiting) (simp add: waiting_def parse_finish_def)
  moreover have "parse_segments (ds @ es) (waiting u (data @ d)) = parse_segments es (waiting u ((data @ d) @ seg_data ds))"
    by (rule Cons.IH) (use Cons.prems x in \<open>simp_all add: seg_data_def\<close>)
  ultimately show ?case using x by (simp add: seg_data_def)
qed

lemma parse_upload_last:
  assumes u: "up_wf u"
    and first: "find_str (pre @ up_end u @ rest) (up_boundary u) 0 = Some (length pre)"
    and small: "length (data @ pre @ up_end u) \<le> vector_max_size"
  shows "\<exists>p. parse ((pre @ up_end u @ rest) @ slack) (length (pre @ up_end u @ rest)) (waiting u data) =
      Some (Inr (Some (up_answer u (data @ pre @ up_end u)), p, None)) \<and> ps_phase p = ph_finished"
proof -
  let ?T = "pre @ up_end u @ rest"
  have a: "at (?T @ slack) 0 ?T" by (rule at_whole)
  from upload_ends [OF u first small a, of "length ?T" "waiting u data"]
  obtain j q where "parse_media_type_more (?T @ slack) (length ?T) 0 (waiting u data) = Some (Inr (j, q))"
    "ps_phase q = ph_media_type_finished"
    "mk_upload_request (to_method (ps_method q)) (ps_version q) (ps_target q) (ps_headers q) (ps_uploads q) =
        up_answer u (data @ pre @ up_end u)"
    by auto
  then show ?thesis by (simp add: parse_waiting parse_finish_def)
qed

end
