(* ===== verification/Parser_Theorems.thy ===== *)
theory Parser_Theorems
  imports Parser_Defined Parser_Upload
begin

text \<open>
  The properties of the request parser, each followed by its witness: a concrete request on
  which the hypotheses hold.
\<close>

subsection \<open>A header name that the data end in\<close>

lemma header_loop_name_end:
  assumes "list_all is_valid_token name" "name \<noteq> []" "at mem it name" "it + length name = lst"
    "lst + 5 \<le> length mem"
  shows "\<exists>j e. header_loop mem lst it m ec = Some (j, um_insert (to_lower name) [] m, e) \<and> lst < j"
proof -
  have it: "it < lst" using assms(2,4) by (cases name) auto
  have name: "parse_message_header_name mem lst it ec = Some (lst + 1, name, ec)"
    using header_name_loop_end [OF assms(1,3,4)] at_bytesI [OF assms(3), of lst] assms(4)
    by (simp add: parse_message_header_name_def)
  have val: "parse_message_header_value mem lst (lst + 1) ec = Some (lst + 1, [], Some e_incomplete_message_header)"
    unfolding parse_message_header_value_def by (subst skip_lws.simps) simp
  have stop: "header_loop mem lst k m' e = Some (k, m', e)" if "lst \<le> k" for k m' e
    using that by (subst header_loop.simps) simp
  obtain b where b: "at_seq mem (lst + 1 + 2) crlf = Some b"
    using at_crlf_total [of "lst + 1 + 2" mem] assms(5) by auto
  have c: "rd mem (lst + 1) = Some (mem ! (lst + 1))" "rd mem (lst + 1 + 1) = Some (mem ! (lst + 1 + 1))"
    using assms(5) by (simp_all add: rd_in)
  show ?thesis
    using it name val b c stop
    by (subst header_loop.simps) (simp add: Let_def del: at_seq.simps)
qed

lemma announced_name_only:
  "um_find m ''content-length'' = None \<Longrightarrow> announced (um_insert k [] m) = Some 0"
  by (simp add: announced_def um.find_insert atoi_def int_min_def int_max_def)

text \<open>The buffer of the attack: a valid request line, then a name and no colon.\<close>

definition cut_name :: "string \<Rightarrow> string \<Rightarrow> string \<Rightarrow> string" where
  "cut_name m t name = request_line m t (CHR ''1'') (CHR ''1'') @ name"

lemma one_digit: "is_dec (CHR ''1'')" "dec_val (CHR ''1'') = 1"
  by (simp_all add: is_dec_def dec_val_def)

lemma parse_cut_name:
  assumes wf: "line_wf m t" and name: "list_all is_valid_token name" "2 \<le> length name"
    "to_lower name \<noteq> ''content-type''" and slack: "5 \<le> length slack"
  shows "parse (cut_name m t name @ slack) (length (cut_name m t name)) new_parser = Some (Inl Length_error)"
proof -
  let ?l = "request_line m t (CHR ''1'') (CHR ''1'')"
  let ?mem = "cut_name m t name @ slack" and ?lst = "length (cut_name m t name)"
  let ?p = "new_parser\<lparr>ps_phase := ph_start_line\<rparr>"
  let ?hs = "um_insert (to_lower name) [] []"
  have line: "at ?mem 0 ?l" using at_whole [of ?l "name @ slack"] by (simp add: cut_name_def)
  have at_name: "at ?mem (length ?l) name" using at_prefix [of ?l name slack] by (simp add: cut_name_def)
  have ne: "name \<noteq> []" using name(2) by auto
  obtain j e where loop: "header_loop ?mem ?lst (length ?l) [] None = Some (j, ?hs, e)" "?lst < j"
    using header_loop_name_end [OF name(1) ne at_name, of ?lst "[]" None] slack
    by (auto simp: cut_name_def)
  have header: "parse_message_header ?mem ?lst (length ?l) [] None = Some (j, ph_headers_finished, ?hs, e)"
    using loop name(2) by (simp add: parse_message_header_def cut_name_def)
  have ct: "ct_of_headers ?hs = ct_not_specified"
    using name(3) by (simp add: ct_of_headers_def um.find_insert um.find_empty)
  obtain q where start: "parse_start_line ?mem ?lst 0 ?p = Some (j, q, e)"
    and q: "ps_phase q = ph_content_type_finished" "ps_headers q = ?hs" "ps_content_type q = Some ct_not_specified"
    using parse_start_line_line [OF line wf one_digit(1) one_digit(1), of ?lst ?p] header ct
    by (simp add: Let_def one_digit parse_content_type_eq supported_content_type_def new_parser_def cut_name_def)
  have "body_missing ?lst j q = Some False"
    using announced_name_only [of "[]" "to_lower name"] q
    by (auto simp: body_missing_def announced_def um.find_empty split: option.splits)
  then have "parse_rest ?mem ?lst j q e = Some (Inl Length_error)"
    using q loop(2) by (simp add: parse_rest_def parse_content_def parse_body_def)
  with start show ?thesis by (simp add: parse_def new_parser_def cut_name_def request_line_def)
qed

subsection \<open>Properties\<close>

text \<open>
  C10. A request in one segment: a request line, at least one header and the empty line, followed
  by any body, is parsed into the request with that method, target, version 1.1 and the header
  table of the lines (names lowered, values without the leading white space), with no error and
  the parser finished.  The content type is one of those with a text body, and an announced
  content length is either 0 or comes with a body.  The body of the request is the whole rest of
  the data from the CR LF of the last header on: it begins with the four bytes CR LF CR LF that
  separate the head from the body.
\<close>

theorem parse_whole_request:
  assumes "rt_wf r" "text_content (ct_of_headers (rt_table r))"
    "announced (rt_table r) = Some n" "n \<le> 0 \<or> body \<noteq> []"
  shows "parse (rt_head r @ crlf @ body @ slack) (length (rt_head r @ crlf @ body)) new_parser =
    Some (Inr (Some (rt_request r (crlf @ crlf @ body)),
               (head_parsed r)\<lparr>ps_phase := ph_finished\<rparr>, None))"
proof -
  have "at (rt_head r @ crlf @ body @ slack) 0 (rt_head r @ crlf @ body)"
    using at_whole [of "rt_head r @ crlf @ body" slack] by simp
  from parse_text_whole [OF assms(1) this refl assms(2-4)] show ?thesis by simp
qed

definition demo_request :: request_text where
  "demo_request = \<lparr>rt_method = ''GET'', rt_target = ''/a'',
     rt_headers = [\<lparr>ht_name = ''Host'', ht_space = '' '', ht_value = ''x''\<rparr>,
                   \<lparr>ht_name = ''HOST'', ht_space = '''', ht_value = ''y''\<rparr>]\<rparr>"

lemma demo_wf: "rt_wf demo_request"
  by code_simp

lemma demo_plain:
  "text_content (ct_of_headers (rt_table demo_request))" "announced (rt_table demo_request) = Some 0"
  by code_simp+

theorem parse_whole_request_witness:
  "rt_wf demo_request \<and>
   parse (rt_head demo_request @ crlf @ ''hi'' @ ''zz'') (length (rt_head demo_request @ crlf @ ''hi'')) new_parser =
     Some (Inr (Some (rt_request demo_request (crlf @ crlf @ ''hi'')),
                (head_parsed demo_request)\<lparr>ps_phase := ph_finished\<rparr>, None))"
  using parse_whole_request [OF demo_wf demo_plain, of "''hi''" "''zz''"] demo_wf by simp

lemma parse_two_text:
  assumes "rt_wf r" "text_content (ct_of_headers (rt_table r))" "announced (rt_table r) = Some n" "n > 0"
  shows "parse (rt_head r @ crlf @ slack) (length (rt_head r @ crlf)) new_parser =
           Some (Inr (None, (head_parsed r)\<lparr>ps_phase := ph_body_pending\<rparr>, None))
    \<and> parse (body @ slack') (length body) ((head_parsed r)\<lparr>ps_phase := ph_body_pending\<rparr>) =
           Some (Inr (Some (rt_request r body), (head_parsed r)\<lparr>ps_phase := ph_finished\<rparr>, None))"
proof
  have "at (rt_head r @ crlf @ slack) 0 (rt_head r @ crlf)"
    using at_whole [of "rt_head r @ crlf" slack] by simp
  from parse_text_pending [OF assms(1) this refl text_content_supported [OF assms(2)] assms(3,4)]
  show "parse (rt_head r @ crlf @ slack) (length (rt_head r @ crlf)) new_parser =
      Some (Inr (None, (head_parsed r)\<lparr>ps_phase := ph_body_pending\<rparr>, None))" .
next
  let ?q = "(head_parsed r)\<lparr>ps_phase := ph_body_pending\<rparr>"
  have ct: "ps_content_type ?q = Some (ct_of_headers (rt_table r))" by (simp add: head_parsed_def)
  have "parse_content (body @ slack') (length body) 0 ?q None =
    Some (Inr (Some (rt_request r body), (head_parsed r)\<lparr>ps_phase := ph_finished\<rparr>, None))"
    by (subst parse_content_text [OF _ ct assms(2)])
       (simp_all add: head_parsed_def rt_request_def bytes_def)
  then show "parse (body @ slack') (length body) ?q =
      Some (Inr (Some (rt_request r body), (head_parsed r)\<lparr>ps_phase := ph_finished\<rparr>, None))"
    by (simp add: parse_def parse_rest_def body_missing_def)
qed

text \<open>
  C20. A request in two segments: when the first segment ends with the empty line and announces a
  positive content length, the parser returns no request and no error and waits; the next
  segment, of any length \<open>n > 0\<close> and whatever was announced, is taken as the whole body and
  finishes the request.
\<close>

theorem parse_two_segments:
  assumes "rt_wf r" "text_content (ct_of_headers (rt_table r))" "announced (rt_table r) = Some n" "n > 0"
  shows "parse_segments [(rt_head r @ crlf, slack)] new_parser = Some (None, (head_parsed r)\<lparr>ps_phase := ph_body_pending\<rparr>)
    \<and> parse_segments [(rt_head r @ crlf, slack), (body, slack')] new_parser =
        Some (Some (rt_request r body), (head_parsed r)\<lparr>ps_phase := ph_finished\<rparr>)"
  using parse_two_text [OF assms, of slack body slack'] by simp

definition demo_post :: request_text where
  "demo_post = \<lparr>rt_method = ''POST'', rt_target = ''/p'',
     rt_headers = [\<lparr>ht_name = ''Content-Length'', ht_space = '' '', ht_value = ''9''\<rparr>]\<rparr>"

lemma demo_post_wf: "rt_wf demo_post"
  by code_simp

lemma demo_post_length:
  "text_content (ct_of_headers (rt_table demo_post))" "announced (rt_table demo_post) = Some 9"
  by code_simp+

theorem parse_two_segments_witness:
  "parse_segments [(rt_head demo_post @ crlf, []), (''ab'', [])] new_parser =
     Some (Some (rt_request demo_post ''ab''), (head_parsed demo_post)\<lparr>ps_phase := ph_finished\<rparr>)"
  using parse_two_segments [OF demo_post_wf demo_post_length, of "[]" "''ab''" "[]"] by simp

text \<open>
  Header lookup in a parsed request: the table maps a name to the value of the first header
  line whose lowered name it is, and its keys are distinct; a repeated header never replaces the
  first one.
\<close>

lemma header_table_first_wins:
  "um_find (rt_table r) k = map_of (map ht_entry (rt_headers r)) k \<and> um_inv (rt_table r)"
  by (simp add: find_rt_table rt_table_inv)

text \<open>The announced length of a request: the value of its \<open>content-length\<close> header.\<close>

lemma announces_int_text:
  assumes "rt_wf r"
  shows "announces_int (rt_head r @ crlf) slack \<longleftrightarrow> announced (rt_table r) \<noteq> None"
  using parse_start_line_text [OF assms at_whole [of "rt_head r @ crlf" slack], of "length (rt_head r @ crlf)"
      "new_parser\<lparr>ps_phase := ph_start_line\<rparr>"]
  by (simp add: announces_int_def length_ok_def new_parser_def del: at_append)

definition demo_length :: "string \<Rightarrow> request_text" where
  "demo_length n = \<lparr>rt_method = ''PUT'', rt_target = ''/p'',
     rt_headers = [\<lparr>ht_name = ''Content-Length'', ht_space = '' '', ht_value = n\<rparr>]\<rparr>"

text \<open>
  C12. Where the parser is defined: a new parser gets any segments whatever, one per call, the
  first with room for its own length and five bytes more behind it and no byte for which the
  \<open>ctype\<close> functions are undefined, each later one with room for the first one's length behind it.
  Then no call has undefined behaviour, up to the one that returns a request, an error or an
  exception, if and only if the content length announced in the first segment, when its headers
  are read, fits an \<open>int\<close>: \<open>atoi\<close> of a longer one is the one undefined step that remains.
\<close>

theorem parse_defined:
  assumes "\<forall>c \<in> set (d @ slack). ctype_ok c" "length d + 5 \<le> length slack"
    and "list_all (\<lambda>(c, s). length d \<le> length s) ds"
  shows "segments_defined ((d, slack) # ds) new_parser \<longleftrightarrow> d = [] \<or> announces_int d slack"
proof (cases "d = []")
  case True
  then show ?thesis by (simp add: parse_def new_parser_def)
next
  case False
  with segments_defined_new [of d slack ds] assms show ?thesis by (simp add: clean_def)
qed

theorem parse_defined_witness:
  "segments_defined [(rt_head (demo_length ''9'') @ crlf, replicate 60 (CHR ''x'')), (''ab'', replicate 60 (CHR ''x''))] new_parser
    \<and> \<not> segments_defined [(rt_head (demo_length ''9999999999'') @ crlf, replicate 60 (CHR ''x''))] new_parser"
proof -
  let ?a = "rt_head (demo_length ''9'') @ crlf" and ?b = "rt_head (demo_length ''9999999999'') @ crlf"
    and ?x = "replicate 60 (CHR ''x'')"
  have wf: "rt_wf (demo_length ''9'')" "rt_wf (demo_length ''9999999999'')" by code_simp+
  have "announced (rt_table (demo_length ''9'')) = Some 9" by code_simp
  moreover have "rt_table (demo_length ''9999999999'') = [(''content-length'', ''9999999999'')]" by code_simp
  then have "announced (rt_table (demo_length ''9999999999'')) = None"
    by (simp add: announced_def um_find_def atoi_def Let_def int_max_def is_space_c_def is_dec_def dec_val_def)
  ultimately have "announces_int ?a ?x" "\<not> announces_int ?b ?x" using wf by (simp_all add: announces_int_text)
  moreover have "\<forall>c \<in> set (?a @ ?x). ctype_ok c" "\<forall>c \<in> set (?b @ ?x). ctype_ok c"
    "length ?a + 5 \<le> length ?x" "length ?b + 5 \<le> length ?x"
    "list_all (\<lambda>(c, s). length ?a \<le> length s) [(''ab'', ?x)]" "?b \<noteq> []" by code_simp+
  ultimately show ?thesis
    using parse_defined [of ?a ?x "[(''ab'', ?x)]"] parse_defined [of ?b ?x "[]"]
    by (simp only: list.pred_inject simp_thms)
qed
text \<open>
  An exception for a remote peer to raise: a valid request line followed by two or more
  token characters and no colon, where the segment ends, makes \<open>parse\<close> throw
  \<open>std::length_error\<close>: the header loop leaves the pointer past the end of the data, the error it
  set does not stop \<open>parse\<close>, and \<open>parse_body\<close> copies a string of negative length.
\<close>

lemma parse_cut_name_throws:
  assumes "line_wf m t" "list_all is_valid_token name" "2 \<le> length name"
    "to_lower name \<noteq> ''content-type''" "5 \<le> length slack"
  shows "parse (cut_name m t name @ slack) (length (cut_name m t name)) new_parser = Some (Inl Length_error)"
  by (rule parse_cut_name [OF assms])

lemma parse_cut_name_throws_witness:
  "parse (cut_name ''GET'' ''/'' ''ab'' @ ''12345'') (length (cut_name ''GET'' ''/'' ''ab'')) new_parser
     = Some (Inl Length_error)"
  by (rule parse_cut_name_throws) code_simp+

text \<open>
  C30. The same data in a buffer they fill to the end: \<open>parse\<close> reads past the end of the
  allocation, which is undefined behaviour.
\<close>

theorem parse_cut_name_overread:
  assumes "line_wf m t" "list_all is_valid_token name" "2 \<le> length name"
  shows "parse (cut_name m t name) (length (cut_name m t name)) new_parser = None"
proof -
  let ?l = "request_line m t (CHR ''1'') (CHR ''1'')"
  let ?mem = "cut_name m t name" and ?lst = "length (cut_name m t name)"
  let ?p = "new_parser\<lparr>ps_phase := ph_start_line\<rparr>"
  have line: "at ?mem 0 ?l" using at_whole [of ?l name] by (simp add: cut_name_def)
  have at_name: "at ?mem (length ?l) name" using at_prefix [of ?l name "[]"] by (simp add: cut_name_def)
  have ne: "name \<noteq> []" using assms(3) by auto
  have "parse_message_header_name ?mem ?lst (length ?l) None = Some (?lst + 1, name, None)"
    using header_name_loop_end [OF assms(2) at_name, of ?lst] at_bytesI [OF at_name, of ?lst]
    by (simp add: parse_message_header_name_def cut_name_def)
  moreover have "parse_message_header_value ?mem ?lst (?lst + 1) None =
      Some (?lst + 1, [], Some e_incomplete_message_header)"
    unfolding parse_message_header_value_def by (subst skip_lws.simps) simp
  moreover have "rd ?mem (?lst + 1) = None" by (simp add: rd_out)
  moreover have "length ?l < ?lst" using ne by (simp add: cut_name_def)
  ultimately have "header_loop ?mem ?lst (length ?l) [] None = None"
    by (subst header_loop.simps) (simp add: Let_def)
  then have "parse_message_header ?mem ?lst (length ?l) [] None = None"
    using assms(3) by (simp add: parse_message_header_def cut_name_def)
  then have "parse_start_line ?mem ?lst 0 ?p = None"
    using parse_start_line_line [OF line assms(1) one_digit(1) one_digit(1), of ?lst ?p]
    by (simp add: Let_def one_digit new_parser_def cut_name_def)
  then show ?thesis by (simp add: parse_def new_parser_def cut_name_def request_line_def)
qed

theorem parse_cut_name_overread_witness:
  "parse (cut_name ''GET'' ''/'' ''ab'') (length (cut_name ''GET'' ''/'' ''ab'')) new_parser = None"
  by (rule parse_cut_name_overread) code_simp+

text \<open>
  Version check: a request line with any other version digits than 1.1 is rejected with
  \<open>bad_version\<close> whatever follows it, no request is returned and no header is stored.
\<close>

lemma parse_rejects_version:
  assumes "line_wf m t" "is_dec a" "is_dec b" "\<not> (a = CHR ''1'' \<and> b = CHR ''1'')"
  shows "\<exists>p. parse (request_line m t a b @ rest) (length (request_line m t a b @ rest)) new_parser =
      Some (Inr (None, p, Some e_bad_version)) \<and> ps_headers p = [] \<and> ps_phase p = ph_protocol_version_finished"
proof -
  let ?mem = "request_line m t a b @ rest"
  let ?p = "new_parser\<lparr>ps_phase := ph_start_line\<rparr>"
  let ?v = "10 * int (dec_val a) + int (dec_val b)"
  let ?q = "?p\<lparr>ps_phase := ph_protocol_version_finished, ps_method := m, ps_target := t, ps_version := ?v\<rparr>"
  have eq: "c = CHR ''1'' \<longleftrightarrow> dec_val c = 1" if "is_dec c" for c
  proof
    assume "dec_val c = 1"
    with that have "(of_char c :: nat) = of_char (CHR ''1'')" by (simp add: dec_val_def is_dec_def)
    then show "c = CHR ''1''" by (simp only: of_char_eq_iff)
  qed (simp add: dec_val_def)
  have "dec_val a < 10" "dec_val b < 10"
    using assms(2,3) by (auto simp: is_dec_def dec_val_def)
  then have v: "?v \<noteq> 11" using assms(4) eq [OF assms(2)] eq [OF assms(3)] by auto
  have start: "parse_start_line ?mem (length ?mem) 0 ?p = Some (length m + length t + 10, ?q, Some e_bad_version)"
    using parse_start_line_line [OF at_whole [of "request_line m t a b" rest] assms(1-3), of "length ?mem" ?p] v by (simp add: Let_def)
  have "parse ?mem (length ?mem) new_parser = parse_rest ?mem (length ?mem) (length m + length t + 10) ?q (Some e_bad_version)"
    using start by (simp add: parse_def new_parser_def request_line_def)
  also have "\<dots> = Some (Inr (None, ?q, Some e_bad_version))"
    by (simp add: parse_rest_def body_missing_def parse_content_def parse_more_def parse_finish_def)
  finally show ?thesis by (simp add: new_parser_def)
qed

lemma parse_rejects_version_witness:
  "\<exists>p. parse (request_line ''GET'' ''/'' (CHR ''1'') (CHR ''0'') @ crlf)
      (length (request_line ''GET'' ''/'' (CHR ''1'') (CHR ''0'') @ crlf)) new_parser =
    Some (Inr (None, p, Some e_bad_version)) \<and> ps_headers p = [] \<and> ps_phase p = ph_protocol_version_finished"
  by (rule parse_rejects_version) code_simp+

text \<open>
  Unsupported content types are refused: for a well-formed head with any other content type,
  \<open>parse\<close> returns no request and the error \<open>content_type_not_implemented\<close>.
\<close>

lemma parse_rejects_content_type:
  assumes "rt_wf r" "\<not> supported_content_type (ct_of_headers (rt_table r))"
    "announced (rt_table r) = Some n"
  shows "\<exists>p. parse (rt_head r @ crlf @ rest) (length (rt_head r @ crlf @ rest)) new_parser =
    Some (Inr (None, p, Some e_content_type_not_implemented))"
proof -
  let ?mem = "rt_head r @ crlf @ rest" and ?it = "length (rt_head r) - 2"
  let ?p = "new_parser\<lparr>ps_phase := ph_start_line\<rparr>"
  have head: "at ?mem 0 (rt_head r @ crlf)" using at_whole [of "rt_head r @ crlf" rest] by simp
  have start: "parse_start_line ?mem (length ?mem) 0 ?p = Some (?it, head_parsed r, Some e_content_type_not_implemented)"
    using parse_start_line_text [OF assms(1) head, of "length ?mem" ?p] assms(2)
    by (simp add: new_parser_def head_parsed_def)
  have unknown: "ct_of_headers (rt_table r) = ct_unknown"
    using assms(2) by (auto simp: ct_of_headers_def content_type_of_def supported_content_type_def split: option.splits)
  have "parse ?mem (length ?mem) new_parser =
      parse_rest ?mem (length ?mem) ?it (head_parsed r) (Some e_content_type_not_implemented)"
    using start by (simp add: parse_def new_parser_def rt_head_def request_line_def)
  moreover have "parse_content ?mem (length ?mem) ?it (head_parsed r) (Some e_content_type_not_implemented) =
      Some (Inr (None, head_parsed r, Some e_content_type_not_implemented))"
    by (simp add: parse_content_def head_parsed_def unknown parse_more_def parse_finish_def)
  ultimately show ?thesis
    using body_missing_head [OF assms(3), of "length ?mem" ?it] by (auto simp: parse_rest_def)
qed

definition demo_xml :: request_text where
  "demo_xml = \<lparr>rt_method = ''PUT'', rt_target = ''/x'',
     rt_headers = [\<lparr>ht_name = ''Content-Type'', ht_space = '' '', ht_value = ''text/xml''\<rparr>]\<rparr>"

lemma parse_rejects_content_type_witness:
  "\<exists>p. parse (rt_head demo_xml @ crlf @ ''<a/>'') (length (rt_head demo_xml @ crlf @ ''<a/>'')) new_parser =
    Some (Inr (None, p, Some e_content_type_not_implemented))"
  by (rule parse_rejects_content_type [where n = 0]) code_simp+

text \<open>
  Requests and phases: a call of \<open>parse\<close> on a parser that has not finished returns a request
  exactly when it leaves the parser finished, and a finished parser returns no request and no
  error and does not change any more.  (The session tests the phase, then the request.)
\<close>

lemma parse_request_iff_finished:
  assumes "parse mem sz p = Some (Inr (rq, p', e))" "ps_phase p \<noteq> ph_finished"
  shows "(rq \<noteq> None \<longleftrightarrow> ps_phase p' = ph_finished) \<and>
    (ps_phase p' = ph_finished \<longrightarrow> parse mem' sz' p' = Some (Inr (None, p', None)))"
proof
  show "rq \<noteq> None \<longleftrightarrow> ps_phase p' = ph_finished"
    using assms
    by (auto simp: parse_def option_bind_Some_iff split: if_split_asm dest: parse_start_line_phase parse_rest_phase)
  show "ps_phase p' = ph_finished \<longrightarrow> parse mem' sz' p' = Some (Inr (None, p', None))"
    by (simp add: parse_def parse_rest_def body_missing_def parse_content_def parse_more_def parse_finish_def)
qed

lemma parse_request_iff_finished_witness:
  "(None :: http_request option) \<noteq> None \<longleftrightarrow> ps_phase new_parser = ph_finished"
proof -
  have "parse [] 0 new_parser = Some (Inr (None, new_parser, Some e_need_more))"
    "ps_phase new_parser \<noteq> ph_finished"
    by (simp_all add: parse_def new_parser_def)
  from parse_request_iff_finished [OF this, of "[]" 0] show ?thesis by simp
qed

text \<open>
  C22. An upload in one segment.  A well-formed head announces \<open>multipart/form-data\<close> with a boundary and
  a content length; then come a line of dashes and the boundary, the headers of the part (a
  content type among them), and \<open>pre\<close>: the content, CR LF and dashes, up to the first place
  where the boundary occurs again.  The parser finishes the request with one upload that has the
  headers of the part.  Its bytes are not the content but all of \<open>pre\<close> and the rest of that line with
  its CR LF: the delimiter is kept.  What stands after the line (a second part, when it does not
  close the body) is dropped, and the announced length is not looked at.
\<close>

theorem upload_is_parsed:
  assumes "up_wf u" "find_str (pre @ up_end u @ rest) (up_boundary u) 0 = Some (length pre)"
    "length (pre @ up_end u) \<le> vector_max_size"
  shows "\<exists>p. parse (up_head u @ pre @ up_end u @ rest @ slack) (length (up_head u @ pre @ up_end u @ rest)) new_parser =
      Some (Inr (Some (up_answer u (pre @ up_end u)), p, None)) \<and> ps_phase p = ph_finished"
  using parse_upload [OF assms, of "up_head u @ pre @ up_end u @ rest @ slack"]
    at_whole [of "up_head u @ pre @ up_end u @ rest" slack] by simp

definition demo_multipart :: upload_text where
  "demo_multipart = \<lparr>
     up_request = \<lparr>rt_method = ''POST'', rt_target = ''/f'', rt_headers =
       [\<lparr>ht_name = ''Content-Type'', ht_space = '' '', ht_value = ''multipart/form-data; boundary=--b7''\<rparr>,
        \<lparr>ht_name = ''Content-Length'', ht_space = '' '', ht_value = ''40''\<rparr>]\<rparr>,
     up_boundary = ''b7'', up_dashes = ''----'',
     up_part_headers = [\<lparr>ht_name = ''Content-Type'', ht_space = '' '', ht_value = ''text/plain''\<rparr>],
     up_mark = ''--''\<rparr>"

lemma demo_multipart_wf: "up_wf demo_multipart"
proof -
  have "um_find (rt_table (up_request demo_multipart)) ''content-length'' = Some ''40''" "atoi ''40'' = Some 40"
    by code_simp+
  moreover have "\<not> closing_line ''b7''" by (auto simp: closing_line_def append_eq_Cons_conv)
  moreover have "rt_wf (up_request demo_multipart)"
    "ct_of_headers (rt_table (up_request demo_multipart)) = ct_multipart_formdata"
    "boundary_of (the (um_find (rt_table (up_request demo_multipart)) ''content-type'')) = Some (up_boundary demo_multipart)"
    "list_all is_print_c (up_boundary demo_multipart)" "dashes (up_dashes demo_multipart)"
    "list_all is_print_c (up_mark demo_multipart)" "list_all ht_wf (up_part_headers demo_multipart)"
    "um_find (insert_headers (up_part_headers demo_multipart) []) ''content-type'' \<noteq> None"
    by code_simp+
  ultimately show ?thesis by (simp add: up_wf_def boundary_wf_def demo_multipart_def)
qed

lemma demo_multipart_small:
  "length pre \<le> 100 \<Longrightarrow> length (pre @ up_end demo_multipart) \<le> vector_max_size"
  by (simp add: demo_multipart_def up_end_def crlf_def vector_max_size_def)

theorem upload_is_parsed_witness:
  "\<exists>p. parse (up_head demo_multipart @ (''hello'' @ crlf @ ''----'') @ up_end demo_multipart @ ''epilogue'' @ ''zz'')
        (length (up_head demo_multipart @ (''hello'' @ crlf @ ''----'') @ up_end demo_multipart @ ''epilogue'')) new_parser =
      Some (Inr (Some (up_answer demo_multipart ((''hello'' @ crlf @ ''----'') @ up_end demo_multipart)), p, None))
    \<and> ps_phase p = ph_finished"
  by (rule upload_is_parsed [OF demo_multipart_wf _ demo_multipart_small]) code_simp+

text \<open>
  C21. An upload in many segments.  The first one holds the head, the first line with the boundary and
  the headers of the part, and the content goes on in the others.  In none of them, read together with
  what the buffer has behind it, does the boundary begin, and what has arrived is shorter than the
  announced length: after each the parser waits, with the bytes of all of them.  The segment in
  which the boundary is then found ends the upload, with the bytes of all segments up to the end of that
  line.  (So a boundary of which the segments hold a piece each is never seen.)
\<close>

theorem upload_in_segments:
  assumes "up_wf u" "announced (rt_table (up_request u)) = Some n"
    and "list_all (\<lambda>(d, slack). quiet (up_boundary u) d slack) ((d0, slack0) # ds)"
    and "int (length (d0 @ seg_data ds)) < n"
    and "find_str (pre @ up_end u @ rest) (up_boundary u) 0 = Some (length pre)"
    and "length ((d0 @ seg_data ds) @ pre @ up_end u) \<le> vector_max_size"
  shows "parse_segments ((up_head u @ d0, slack0) # ds) new_parser = Some (None, waiting u (d0 @ seg_data ds))
    \<and> (\<exists>p. parse_segments ((up_head u @ d0, slack0) # ds @ [(pre @ up_end u @ rest, slack)]) new_parser =
          Some (Some (up_answer u ((d0 @ seg_data ds) @ pre @ up_end u)), p) \<and> ps_phase p = ph_finished)"
proof -
  have q: "quiet (up_boundary u) d0 slack0" "list_all (\<lambda>(d, slack). quiet (up_boundary u) d slack) ds"
    using assms(3) by simp_all
  have "parse ((up_head u @ d0) @ slack0) (length (up_head u @ d0)) new_parser = Some (Inr (None, waiting u d0, None))"
    using parse_upload_first [OF assms(1,2) q(1)] assms(4) by simp
  then have "parse_segments ((up_head u @ d0, slack0) # ds @ es) new_parser =
      parse_segments es (waiting u (d0 @ seg_data ds))" for es
    using segments_wait [OF assms(1,2) q(2) assms(4), of es] by simp
  from this [of "[]"] this [of "[(pre @ up_end u @ rest, slack)]"]
    parse_upload_last [OF assms(1,5,6), of slack]
  show ?thesis by auto
qed

theorem upload_in_segments_witness:
  "parse_segments [(up_head demo_multipart @ ''he'', ''zz''), (''ll'', ''zz'')] new_parser =
      Some (None, waiting demo_multipart ''hell'')
    \<and> (\<exists>p. parse_segments [(up_head demo_multipart @ ''he'', ''zz''), (''ll'', ''zz''),
            ((''o'' @ crlf @ ''----'') @ up_end demo_multipart @ [], [])] new_parser =
          Some (Some (up_answer demo_multipart (''hell'' @ (''o'' @ crlf @ ''----'') @ up_end demo_multipart)), p)
        \<and> ps_phase p = ph_finished)"
proof -
  have "announced (rt_table (up_request demo_multipart)) = Some 40"
    "list_all (\<lambda>(d, slack). quiet (up_boundary demo_multipart) d slack) [(''he'', ''zz''), (''ll'', ''zz'')]"
    "int (length (''he'' @ seg_data [(''ll'', ''zz'')])) < 40"
    "find_str ((''o'' @ crlf @ ''----'') @ up_end demo_multipart @ []) (up_boundary demo_multipart) 0 =
      Some (length (''o'' @ crlf @ ''----''))"
    by code_simp+
  from upload_in_segments [OF demo_multipart_wf this, of "[]"]
  show ?thesis
    using demo_multipart_small [of "''hello'' @ crlf @ ''----''"] by (simp add: seg_data_def crlf_def)
qed

lemma pending_upload_step:
  assumes "ps_phase p = ph_body_pending" "ps_content_type p = Some ct"
    "ct \<in> {ct_image, ct_image_jpeg, ct_multipart_formdata}"
  shows "parse mem sz p = Some (Inr (None, p, None))"
  using assms
  by (auto simp: parse_def parse_rest_def body_missing_def parse_content_def parse_media_type_def
      parse_more_def parse_finish_def)

text \<open>
  C29. An upload whose body does not come with its head is never read: after a segment that ends with
  the head of an upload and announces a body, no sequence of further segments, whatever they hold
  and however many there are, gives a request or an error, and the parser does not change.
\<close>

theorem pending_upload_is_stuck:
  assumes "rt_wf r" "ct_of_headers (rt_table r) \<in> {ct_image_jpeg, ct_multipart_formdata}"
    "announced (rt_table r) = Some n" "n > 0"
  shows "parse_segments ((rt_head r @ crlf, slack) # ds) new_parser =
    Some (None, (head_parsed r)\<lparr>ps_phase := ph_body_pending\<rparr>)"
proof -
  let ?p = "(head_parsed r)\<lparr>ps_phase := ph_body_pending\<rparr>"
  have "at ((rt_head r @ crlf) @ slack) 0 (rt_head r @ crlf)" by (rule at_whole)
  from parse_text_pending [OF assms(1) this refl _ assms(3,4)] assms(2)
  have "parse ((rt_head r @ crlf) @ slack) (length (rt_head r @ crlf)) new_parser = Some (Inr (None, ?p, None))"
    by (auto simp: supported_content_type_def)
  moreover have "parse mem sz ?p = Some (Inr (None, ?p, None))" for mem sz
    by (rule pending_upload_step) (use assms(2) in \<open>auto simp: head_parsed_def\<close>)
  then have "parse_segments ds ?p = Some (None, ?p)"
    by (induction ds) auto
  ultimately show ?thesis by simp
qed

definition demo_upload :: request_text where
  "demo_upload = \<lparr>rt_method = ''POST'', rt_target = ''/u'',
     rt_headers = [\<lparr>ht_name = ''Content-Type'', ht_space = '' '', ht_value = ''multipart/form-data; boundary=b''\<rparr>,
                   \<lparr>ht_name = ''Content-Length'', ht_space = '' '', ht_value = ''40''\<rparr>]\<rparr>"

theorem pending_upload_is_stuck_witness:
  "parse_segments [(rt_head demo_upload @ crlf, ''zz''), (''--b'' @ crlf, []), (''x'', [])] new_parser =
     Some (None, (head_parsed demo_upload)\<lparr>ps_phase := ph_body_pending\<rparr>)"
  by (rule pending_upload_is_stuck [where n = 40]) code_simp+

end
