(* ===== verification/Route.thy ===== *)
theory Route
  imports Http_Message String_Utils
begin

text \<open>
  \<open>server/http/middlewares/route.hpp\<close>: the class \<open>route\<close>.  The path of a route is parsed by its
  constructor into a fixed part (\<open>ro_uri_target\<close>) and the names of the path parameters; matching
  a request binds their values.  Positions are indexes; a read at the end of a \<open>std::string\<close>
  gives its terminating NUL (\<open>str_at\<close>).
\<close>

record route_param =
  rp_name :: string
  rp_value :: string
  rp_bind_pos :: nat

type_synonym path_parameters = "route_param list"

text \<open>A callback returns the response as it left it, and the exception it threw, if any.\<close>

type_synonym 'x route_callback =
  "http_request \<Rightarrow> http_response \<Rightarrow> path_parameters \<Rightarrow> 'x http_context \<Rightarrow> http_response \<times> cpp_exn option"

record 'x route =
  ro_path :: string
  ro_uri_target :: string
  ro_method :: http_method
  ro_params :: path_parameters
  ro_callback :: "'x route_callback option"
  ro_context :: "'x http_context"

subsection \<open>Parsing the path\<close>

text \<open>The first position from \<open>it\<close> on of a slash that a colon follows.\<close>

function find_bind :: "string \<Rightarrow> nat \<Rightarrow> nat option" where
  "find_bind path it =
     (if it < length path then
        if path ! it = CHR ''/'' \<and> str_at path (it + 1) = CHR '':'' then Some it
        else find_bind path (Suc it)
      else None)"
  by pat_completeness auto
termination
  by (relation "measure (\<lambda>(path, it). length path - it)") auto

declare find_bind.simps [simp del]

text \<open>
  \<open>extract_next_bind_key\<close> with \<open>it\<close> at the colon: the new position and the name.  The last two
  loops of the source scan for the next slash.
\<close>

definition extract_next_bind_key :: "string \<Rightarrow> nat \<Rightarrow> nat \<times> string" where
  "extract_next_bind_key path it =
     (let begin = it + 1; end = length path in
      case find_bind path begin of
        Some i \<Rightarrow> (i, bytes path begin i)
      | None \<Rightarrow>
          if path ! (end - 1) = CHR ''/'' then (end, bytes path begin (end - 1))
          else (case find_char path (CHR ''/'') begin of
                  Some i \<Rightarrow> (i, bytes path begin i)
                | None \<Rightarrow> (end, bytes path begin end)))"

lemma find_bind_ge: "find_bind path it = Some i \<Longrightarrow> it \<le> i \<and> i < length path"
proof (induction path it rule: find_bind.induct)
  case (1 path it)
  then show ?case by (subst (asm) find_bind.simps) (fastforce split: if_splits)
qed

lemma extract_ge: "it < length path \<Longrightarrow> extract_next_bind_key path it = (j, k) \<Longrightarrow> it < j"
  by (auto simp: extract_next_bind_key_def Let_def split: option.splits if_splits
      dest!: find_bind_ge find_char_Some)

function bind_loop :: "string \<Rightarrow> nat \<Rightarrow> path_parameters \<Rightarrow> path_parameters" where
  "bind_loop path it params =
     (if it < length path then
        if path ! it = CHR '':'' then
          (let (it', key) = extract_next_bind_key path it
           in bind_loop path (it' + 1)
                (params @ [\<lparr>rp_name = key, rp_value = [], rp_bind_pos = it\<rparr>]))
        else bind_loop path (Suc it) params
      else params)"
  by pat_completeness auto
termination
proof (relation "measure (\<lambda>(path, it, params). length path - it)", goal_cases)
  case 1
  show ?case by simp
next
  case (2 path it params x j key)
  then have "it < j" using extract_ge [of it path j key] by simp
  then show ?case using 2 by simp
qed simp

declare bind_loop.simps [simp del]

definition parse_route :: "string \<Rightarrow> cpp_exn + string \<times> path_parameters" where
  "parse_route path =
     (if \<not> starts_with path ''/'' then Inl (Runtime_error (''Route not started with slash '' @ [CHR 0x27, CHR ''/'', CHR 0x27]))
      else if path = [] then Inl (Runtime_error ''Route is empty'')
      else
        (case find_bind path 1 of
           None \<Rightarrow> Inr (path, [])
         | Some i \<Rightarrow> Inr (take i path, bind_loop path (i + 1) [])))"

text \<open>The two constructors.\<close>

definition make_route :: "http_method \<Rightarrow> string \<Rightarrow> 'x route_callback option \<Rightarrow> cpp_exn + 'x route" where
  "make_route m path cb =
     (case parse_route path of
        Inl e \<Rightarrow> Inl e
      | Inr (uri, params) \<Rightarrow>
          Inr \<lparr>ro_path = path, ro_uri_target = uri, ro_method = m, ro_params = params,
               ro_callback = cb, ro_context = []\<rparr>)"

definition set_callback :: "'x route_callback \<Rightarrow> 'x route \<Rightarrow> 'x route" where
  "set_callback cb r = r\<lparr>ro_callback := Some cb\<rparr>"

subsection \<open>Matching a request\<close>

text \<open>
  The search for the fixed part: at a slash the text before it is compared; the source moves the
  pointer there and again at the end of the turn, so the byte after a slash is skipped.
\<close>

function match_loop :: "string \<Rightarrow> string \<Rightarrow> nat \<Rightarrow> nat option" where
  "match_loop target uri it =
     (if it < length target then
        if target ! it = CHR ''/'' then
          (if take it target = uri then Some (it + 1) else match_loop target uri (it + 2))
        else match_loop target uri (it + 1)
      else None)"
  by pat_completeness auto
termination
  by (relation "measure (\<lambda>(target, uri, it). length target - it)") auto

declare match_loop.simps [simp del]

definition next_value :: "string \<Rightarrow> nat \<Rightarrow> nat \<times> string" where
  "next_value target it =
     (let j = (case find_char target (CHR ''/'') it of Some j \<Rightarrow> j | None \<Rightarrow> max it (length target))
      in (j, bytes target it j))"

definition put_value :: "string \<Rightarrow> string \<Rightarrow> string \<Rightarrow> cpp_exn + string" where
  "put_value full name v =
     (case find_str full name 0 of
        None \<Rightarrow> Inr full
      | Some k \<Rightarrow> replace_at full (word_of_nat k - 1) (length name + 1) v)"

fun bind_values :: "string \<Rightarrow> nat \<Rightarrow> string \<Rightarrow> path_parameters \<Rightarrow> path_parameters \<times> (cpp_exn + string)" where
  "bind_values target it full [] = ([], Inr full)"
| "bind_values target it full (p # ps) =
     (let (j, v) = next_value target it;
          it' = (if str_at target j = CHR ''/'' then j + 1 else j);
          p' = p\<lparr>rp_value := v\<rparr>
      in case put_value full (rp_name p) v of
           Inl e \<Rightarrow> (p' # ps, Inl e)
         | Inr full' \<Rightarrow> (let (ps', res) = bind_values target it' full' ps in (p' # ps', res)))"

definition is_match_with_target_request ::
    "string \<Rightarrow> http_method \<Rightarrow> 'x route \<Rightarrow> 'x route \<times> (cpp_exn + bool)" where
  "is_match_with_target_request target method r =
     (if \<not> starts_with target ''/'' then (r, Inr False)
      else if target = [] then (r, Inr False)
      else if method \<noteq> ro_method r then (r, Inr False)
      else if target = ro_uri_target r then (r, Inr True)
      else
        (case match_loop target (ro_uri_target r) 0 of
           None \<Rightarrow> (r, Inr False)
         | Some it \<Rightarrow>
             (let (params, full) = bind_values target it (ro_path r) (ro_params r);
                  r' = r\<lparr>ro_params := params\<rparr>
              in case full of
                   Inl e \<Rightarrow> (r', Inl e)
                 | Inr full_path_binded \<Rightarrow> (r', Inr (target = full_path_binded)))))"

subsection \<open>The interface of a route\<close>

text \<open>
  What the middlewares rely on.  \<open>same\<close> says that two routes differ in the bound values and the
  context only: the verdict on a request does not depend on what an earlier request left there,
  and matching changes nothing else.  The routes are shared objects: a store maps the address of
  a route to it, and \<open>first_match\<close> is the first address of a list whose route accepts.
\<close>

locale matcher =
  fixes matches :: "string \<Rightarrow> http_method \<Rightarrow> 'r \<Rightarrow> 'r \<times> ('e + bool)"
    and same :: "'r \<Rightarrow> 'r \<Rightarrow> bool"
  assumes same_refl: "same r r"
    and same_trans: "same a b \<Longrightarrow> same b c \<Longrightarrow> same a c"
    and matches_same: "same r (fst (matches t m r))"
    and verdict_same: "same a b \<Longrightarrow> snd (matches t m a) = snd (matches t m b)"
begin

definition verdict :: "string \<Rightarrow> http_method \<Rightarrow> 'r \<Rightarrow> 'e + bool" where
  "verdict t m r = snd (matches t m r)"

definition same_store :: "(nat \<Rightarrow> 'r) \<Rightarrow> (nat \<Rightarrow> 'r) \<Rightarrow> bool" where
  "same_store h h' \<longleftrightarrow> (\<forall>i. same (h i) (h' i))"

fun first_match :: "string \<Rightarrow> http_method \<Rightarrow> (nat \<Rightarrow> 'r) \<Rightarrow> nat list \<Rightarrow> 'e + nat option" where
  "first_match t m h [] = Inr None"
| "first_match t m h (k # ks) =
     (case verdict t m (h k) of
        Inl e \<Rightarrow> Inl e
      | Inr b \<Rightarrow> if b then Inr (Some k) else first_match t m h ks)"

lemma verdict_cong: "same a b \<Longrightarrow> verdict t m a = verdict t m b"
  using verdict_same by (simp add: verdict_def)

lemma same_store_refl [simp]: "same_store h h"
  by (simp add: same_store_def same_refl)

lemma same_store_trans: "same_store h h' \<Longrightarrow> same_store h' h'' \<Longrightarrow> same_store h h''"
  using same_trans unfolding same_store_def by blast

lemma same_store_upd: "same_store h h' \<Longrightarrow> same (h' k) r \<Longrightarrow> same_store h (h'(k := r))"
  using same_trans by (auto simp: same_store_def)

lemma same_store_match: "same_store h h' \<Longrightarrow> same_store h (h'(k := fst (matches t m (h' k))))"
  by (rule same_store_upd [OF _ matches_same])

lemma same_store_verdict: "same_store h h' \<Longrightarrow> verdict t m (h' k) = verdict t m (h k)"
  using verdict_cong by (simp add: same_store_def) metis

lemma first_match_cong: "same_store h h' \<Longrightarrow> first_match t m h' ks = first_match t m h ks"
  by (induction ks) (auto simp: same_store_verdict split: sum.split)

lemma first_match_Some:
  "first_match t m h ks = Inr (Some k) \<Longrightarrow> k \<in> set ks \<and> verdict t m (h k) = Inr True"
  by (induction ks) (auto split: sum.split_asm if_split_asm)

lemma first_match_split:
  "\<forall>i\<in>set ks. snd (matches t m (h i)) = Inr False \<Longrightarrow> snd (matches t m (h k)) = Inr True \<Longrightarrow>
    first_match t m h (ks @ k # ks') = Inr (Some k)"
  by (induction ks) (simp_all add: verdict_def)

lemma first_match_None:
  "first_match t m h ks = Inr None \<longleftrightarrow> (\<forall>k\<in>set ks. verdict t m (h k) = Inr False)"
  by (induction ks) (auto split: sum.split)

end

text \<open>Two routes that differ in the values of the parameters and the context only.\<close>

definition same_route :: "'x route \<Rightarrow> 'x route \<Rightarrow> bool" where
  "same_route a b \<longleftrightarrow> ro_path a = ro_path b \<and> ro_uri_target a = ro_uri_target b
     \<and> ro_method a = ro_method b \<and> map rp_name (ro_params a) = map rp_name (ro_params b)
     \<and> map rp_bind_pos (ro_params a) = map rp_bind_pos (ro_params b)
     \<and> ro_callback a = ro_callback b"

lemma bind_values_keeps:
  "map rp_name (fst (bind_values target it full ps)) = map rp_name ps
    \<and> map rp_bind_pos (fst (bind_values target it full ps)) = map rp_bind_pos ps"
  by (induction ps arbitrary: it full) (auto simp: Let_def case_prod_beta split: sum.split)

lemma bind_values_names:
  "map rp_name ps = map rp_name qs \<Longrightarrow>
    snd (bind_values target it full ps) = snd (bind_values target it full qs)"
proof (induction ps arbitrary: it full qs)
  case Nil
  then show ?case by simp
next
  case (Cons p ps)
  then obtain q qs' where "qs = q # qs'" "rp_name q = rp_name p" "map rp_name ps = map rp_name qs'"
    by (cases qs) auto
  with Cons.IH [OF this(3)] show ?case
    by (auto simp: Let_def case_prod_beta split: sum.split)
qed

lemma is_match_same: "same_route r (fst (is_match_with_target_request t m r))"
  using bind_values_keeps
  by (auto simp: is_match_with_target_request_def same_route_def Let_def case_prod_beta split: option.split sum.split)

lemma is_match_context: "ro_context (fst (is_match_with_target_request t m r)) = ro_context r"
  by (auto simp: is_match_with_target_request_def Let_def case_prod_beta split: option.split sum.split)

lemma is_match_verdict_same:
  assumes "same_route a b"
  shows "snd (is_match_with_target_request t m a) = snd (is_match_with_target_request t m b)"
proof (cases "match_loop t (ro_uri_target b) 0")
  case None
  with assms show ?thesis by (simp add: is_match_with_target_request_def same_route_def)
next
  case (Some it)
  have "snd (bind_values t it (ro_path b) (ro_params a)) = snd (bind_values t it (ro_path b) (ro_params b))"
    using assms by (intro bind_values_names) (simp add: same_route_def)
  with Some assms show ?thesis
    by (auto simp: is_match_with_target_request_def same_route_def Let_def case_prod_beta split: sum.split)
qed

interpretation rm: matcher is_match_with_target_request same_route
proof
  show "same_route r r" for r :: "'x route" by (simp add: same_route_def)
  show "same_route a b \<Longrightarrow> same_route b c \<Longrightarrow> same_route a c" for a b c :: "'x route"
    by (simp add: same_route_def)
  show "same_route r (fst (is_match_with_target_request t m r))" for t m and r :: "'x route"
    by (rule is_match_same)
  show "same_route a b \<Longrightarrow> snd (is_match_with_target_request t m a) = snd (is_match_with_target_request t m b)"
    for t m and a b :: "'x route"
    by (rule is_match_verdict_same)
qed

end
