(* ===== verification/Route_Correct.thy ===== *)
theory Route_Correct
  imports Route
begin

text \<open>
  Lemmas about \<open>Route\<close>: paths and targets as lists of segments (\<open>slashes\<close>), the scans of the
  constructor and of the matching loop over such lists, and the substitution of the values.
\<close>

definition slashes :: "string list \<Rightarrow> string" where
  "slashes ss = concat (map (\<lambda>s. CHR ''/'' # s) ss)"

lemma slashes_simps [simp]:
  "slashes [] = []" "slashes (s # ss) = CHR ''/'' # s @ slashes ss"
  by (simp_all add: slashes_def)

lemma slashes_append [simp]: "slashes (ss @ ts) = slashes ss @ slashes ts"
  by (simp add: slashes_def)

definition plain_seg :: "string \<Rightarrow> bool" where
  "plain_seg s \<longleftrightarrow> s \<noteq> [] \<and> CHR ''/'' \<notin> set s \<and> hd s \<noteq> CHR '':''"

text \<open>The path of a route: fixed segments, then one \<open>:name\<close> per parameter.\<close>

definition param_path :: "string list \<Rightarrow> string list \<Rightarrow> string" where
  "param_path segs names = slashes (segs @ map (Cons (CHR '':'')) names)"

fun params_from :: "nat \<Rightarrow> string list \<Rightarrow> path_parameters" where
  "params_from p [] = []"
| "params_from p (n # ns) =
     \<lparr>rp_name = n, rp_value = [], rp_bind_pos = p + 1\<rparr> # params_from (p + 2 + length n) ns"

lemma map_name_params_from [simp]: "map rp_name (params_from p ns) = ns"
  by (induction ns arbitrary: p) auto

text \<open>The name \<open>n\<close> occurs in \<open>pre/:n\<close> at its own place first.\<close>

definition fresh_name :: "string \<Rightarrow> string \<Rightarrow> bool" where
  "fresh_name pre n \<longleftrightarrow> find_str (pre @ ''/:'' @ n) n 0 = Some (length pre + 2)"

fun unambiguous :: "string \<Rightarrow> string list \<Rightarrow> string list \<Rightarrow> bool" where
  "unambiguous pre (n # ns) (v # vs) \<longleftrightarrow> fresh_name pre n \<and> unambiguous (pre @ CHR ''/'' # v) ns vs"
| "unambiguous pre ns vs \<longleftrightarrow> True"

subsection \<open>The scan for a parameter\<close>

fun bind_in :: "string \<Rightarrow> nat option" where
  "bind_in [] = None"
| "bind_in (c # cs) =
     (if c = CHR ''/'' \<and> cs \<noteq> [] \<and> hd cs = CHR '':'' then Some 0 else map_option Suc (bind_in cs))"

lemma find_bind_in: "find_bind path it = map_option ((+) it) (bind_in (drop it path))"
proof (induction path it rule: find_bind.induct)
  case (1 path it)
  show ?case
  proof (cases "it < length path")
    case True
    then obtain c cs where d: "drop it path = c # cs" "path ! it = c" "drop (Suc it) path = cs"
      by (metis Cons_nth_drop_Suc)
    have "str_at path (it + 1) = CHR '':'' \<longleftrightarrow> cs \<noteq> [] \<and> hd cs = CHR '':''"
      using d(3) by (auto simp: str_at_def nul_def hd_drop_conv_nth)
    with 1 True d show ?thesis
      by (simp add: find_bind.simps [of path it] option.map_comp comp_def)
  next
    case False
    then show ?thesis by (simp add: find_bind.simps [of path it])
  qed
qed

lemma bind_in_free: "CHR ''/'' \<notin> set s \<Longrightarrow> bind_in s = None"
  by (induction s) auto

lemma map_option_plus: "map_option ((+) 0) x = (x :: nat option)"
    "map_option (\<lambda>x. Suc (n + x)) y = map_option ((+) (Suc n)) y"
  by (cases x; simp) (cases y; simp)

lemma bind_in_skip: "CHR ''/'' \<notin> set s \<Longrightarrow> bind_in (s @ t) = map_option ((+) (length s)) (bind_in t)"
  by (induction s) (auto simp: map_option_plus option.map_comp comp_def)

lemma bind_in_slashes:
  "\<forall>s\<in>set segs. plain_seg s \<Longrightarrow>
    bind_in (slashes segs @ t) = map_option ((+) (length (slashes segs))) (bind_in t)"
proof (induction segs)
  case Nil
  then show ?case by (simp add: map_option.id [unfolded id_def])
next
  case (Cons s segs)
  then have "hd (s @ slashes segs @ t) \<noteq> CHR '':''" by (simp add: plain_seg_def)
  with Cons show ?case
    by (simp add: bind_in_skip plain_seg_def option.map_comp comp_def add.assoc)
qed

lemma find_bind_base:
  assumes "\<forall>s\<in>set segs. plain_seg s" "segs \<noteq> []"
  shows "find_bind (slashes segs @ slashes (map (Cons (CHR '':'')) ns)) 1 =
    (if ns = [] then None else Some (length (slashes segs)))"
proof -
  obtain s ss where segs: "segs = s # ss" using assms by (cases segs) auto
  let ?t = "slashes (map (Cons (CHR '':'')) ns)"
  have "bind_in ?t = (if ns = [] then None else Some 0)" by (cases ns) auto
  then have "bind_in (s @ slashes ss @ ?t) = (if ns = [] then None else Some (length s + length (slashes ss)))"
    using assms segs by (simp add: bind_in_skip bind_in_slashes plain_seg_def)
  then show ?thesis using segs by (simp add: find_bind_in)
qed

subsection \<open>The constructor\<close>

lemma extract_name:
  assumes "CHR ''/'' \<notin> set n"
  shows "extract_next_bind_key (pre @ CHR '':'' # n @ slashes (map (Cons (CHR '':'')) ns)) (length pre)
    = (length pre + 1 + length n, n)" (is "extract_next_bind_key ?p _ = _")
proof -
  have b: "bytes ?p (length pre + 1) (length pre + 1 + length n) = n" by (simp add: bytes_def)
  have fb: "find_bind ?p (length pre + 1) = (if ns = [] then None else Some (length pre + 1 + length n))"
    using assms by (cases ns) (simp_all add: find_bind_in bind_in_skip bind_in_free)
  show ?thesis
  proof (cases "ns = []")
    case True
    have "last (CHR '':'' # n) \<noteq> CHR ''/''" using assms by (cases n rule: rev_cases) auto
    then have l: "?p ! (length ?p - 1) \<noteq> CHR ''/''"
      using True last_conv_nth [of ?p] by simp
    have "find_char ?p (CHR ''/'') (length pre + 1) = None"
    proof (rule ccontr)
      assume "find_char ?p (CHR ''/'') (length pre + 1) \<noteq> None"
      then obtain i where "find_char ?p (CHR ''/'') (length pre + 1) = Some i" by blast
      from find_char_Some [OF this] True
      have "length pre + 1 \<le> i" "i < length ?p" "?p ! i = CHR ''/''" by auto
      then have "n ! (i - (length pre + 1)) = CHR ''/''" "i - (length pre + 1) < length n"
        using True by (auto simp: nth_append nth_Cons')
      with assms show False using nth_mem by metis
    qed
    with True fb l b show ?thesis by (simp add: extract_next_bind_key_def)
  next
    case False
    with fb b show ?thesis by (simp add: extract_next_bind_key_def)
  qed
qed

lemma bind_loop_params:
  "\<forall>n\<in>set ns. CHR ''/'' \<notin> set n \<Longrightarrow>
    bind_loop (pre @ slashes (map (Cons (CHR '':'')) ns)) (length pre + 1) acc = acc @ params_from (length pre) ns"
proof (induction ns arbitrary: pre acc)
  case Nil
  then show ?case by (simp add: bind_loop.simps)
next
  case (Cons n ns)
  let ?p = "pre @ slashes (map (Cons (CHR '':'')) (n # ns))"
  have "extract_next_bind_key ?p (length pre + 1) = (length pre + 2 + length n, n)"
    using extract_name [of n "pre @ ''/''" ns] Cons.prems by simp
  then have "bind_loop ?p (length pre + 1) acc =
      bind_loop ?p (length pre + 2 + length n + 1) (acc @ [\<lparr>rp_name = n, rp_value = [], rp_bind_pos = length pre + 1\<rparr>])"
    by (subst bind_loop.simps) (simp add: nth_append)
  also have "\<dots> = (acc @ [\<lparr>rp_name = n, rp_value = [], rp_bind_pos = length pre + 1\<rparr>])
      @ params_from (length pre + 2 + length n) ns"
    using Cons.IH [of "pre @ CHR ''/'' # CHR '':'' # n"
        "acc @ [\<lparr>rp_name = n, rp_value = [], rp_bind_pos = length pre + 1\<rparr>]"] Cons.prems by simp
  finally show ?case by simp
qed

lemma parse_route_params:
  assumes "\<forall>s\<in>set segs. plain_seg s" "segs \<noteq> []" "\<forall>n\<in>set ns. CHR ''/'' \<notin> set n"
  shows "parse_route (param_path segs ns) = Inr (slashes segs, params_from (length (slashes segs)) ns)"
proof -
  obtain s ss where segs: "segs = s # ss" using assms by (cases segs) auto
  then have st: "starts_with (param_path segs ns) ''/''" "param_path segs ns \<noteq> []"
    by (simp_all add: param_path_def starts_with_def)
  show ?thesis
  proof (cases "ns = []")
    case True
    with st find_bind_base [OF assms(1,2), of ns] show ?thesis
      by (simp add: parse_route_def param_path_def)
  next
    case False
    with st find_bind_base [OF assms(1,2), of ns] bind_loop_params [OF assms(3), of "slashes segs" "[]"]
    show ?thesis by (simp add: parse_route_def param_path_def)
  qed
qed

subsection \<open>The scan of a target\<close>

lemma match_loop_Some:
  "match_loop t u it = Some j \<Longrightarrow> t = u @ CHR ''/'' # drop j t \<and> j = length u + 1"
proof (induction t u it rule: match_loop.induct)
  case (1 t u it)
  show ?case
  proof (cases "it < length t \<and> t ! it = CHR ''/'' \<and> take it t = u")
    case True
    then have "t = take it t @ CHR ''/'' # drop (Suc it) t" by (metis id_take_nth_drop)
    with True "1.prems" show ?thesis by (auto simp: match_loop.simps [of t u it] min_def)
  next
    case False
    with 1 show ?thesis by (auto simp: match_loop.simps [of t u it] split: if_splits)
  qed
qed

lemma match_loop_skip:
  "CHR ''/'' \<notin> set s \<Longrightarrow> match_loop (pre @ s @ post) u (length pre) = match_loop (pre @ s @ post) u (length pre + length s)"
proof (induction s arbitrary: pre)
  case Nil
  then show ?case by simp
next
  case (Cons c s)
  then have "match_loop (pre @ (c # s) @ post) u (length pre) = match_loop (pre @ (c # s) @ post) u (length pre + 1)"
    using Cons.prems by (subst match_loop.simps) (auto simp: nth_append)
  with Cons.IH [of "pre @ [c]"] Cons.prems show ?case by simp
qed

lemma match_loop_base:
  "\<forall>s\<in>set segs. s \<noteq> [] \<and> CHR ''/'' \<notin> set s \<Longrightarrow>
    match_loop (pre @ slashes segs @ CHR ''/'' # rest) (pre @ slashes segs) (length pre)
      = Some (length pre + length (slashes segs) + 1)"
proof (induction segs arbitrary: pre)
  case Nil
  then show ?case by (subst match_loop.simps) (simp add: nth_append)
next
  case (Cons s segs)
  then obtain c s' where s: "s = c # s'" "c \<noteq> CHR ''/''" "CHR ''/'' \<notin> set s'" by (cases s) auto
  let ?t = "pre @ slashes (s # segs) @ CHR ''/'' # rest" and ?u = "pre @ slashes (s # segs)"
  have "match_loop ?t ?u (length pre) = match_loop ?t ?u (length pre + 2)"
    by (subst match_loop.simps) (simp add: nth_append)
  also have "\<dots> = match_loop ?t ?u (length pre + 2 + length s')"
    using match_loop_skip [OF s(3), of "pre @ [CHR ''/'', c]" "slashes segs @ CHR ''/'' # rest" ?u] s by simp
  also have "\<dots> = Some (length pre + length (slashes (s # segs)) + 1)"
    using Cons.IH [of "pre @ CHR ''/'' # s"] Cons.prems s by simp
  finally show ?case .
qed

subsection \<open>Binding the values\<close>

lemma find_str_more: "find_str s sub pos = Some i \<Longrightarrow> find_str (s @ post) sub pos = Some i"
proof (induction s sub pos rule: find_str.induct)
  case (1 s sub pos)
  then have le: "pos + length sub \<le> length s" by (auto simp: find_str.simps [of s sub pos] split: if_splits)
  then have "take (length sub) (drop pos (s @ post)) = take (length sub) (drop pos s)" by simp
  with 1 le show ?case
    by (simp add: find_str.simps [of s sub pos] find_str.simps [of "s @ post" sub pos] split: if_splits)
qed

lemma put_value_fresh:
  assumes "fresh_name pre n" "length pre + 2 < 2 ^ 64"
  shows "put_value (pre @ CHR ''/'' # CHR '':'' # n @ post) n v = Inr (pre @ CHR ''/'' # v @ post)"
proof -
  have f: "find_str (pre @ CHR ''/'' # CHR '':'' # n @ post) n 0 = Some (length pre + 2)"
    using find_str_more [of "pre @ ''/:'' @ n" n 0 _ post] assms(1) by (simp add: fresh_name_def)
  have "(word_of_nat (length pre + 2) :: u64) - 1 = word_of_nat (length pre + 1)" by simp
  moreover have "unat (word_of_nat (length pre + 1) :: u64) = length pre + 1"
    using assms(2) by (subst unat_of_nat) simp
  ultimately show ?thesis
    by (simp add: put_value_def f replace_at_def)
qed

lemma next_value_seg:
  assumes "CHR ''/'' \<notin> set v"
  shows "next_value (pre @ v @ slashes vs) (length pre) = (length pre + length v, v)" (is "next_value ?t _ = _")
proof -
  have "(case find_char ?t (CHR ''/'') (length pre) of Some j \<Rightarrow> j | None \<Rightarrow> max (length pre) (length ?t))
      = length pre + length v"
  proof (cases "find_char ?t (CHR ''/'') (length pre)")
    case None
    from find_char_None [OF this] have "vs = []" by (cases vs) auto
    with None show ?thesis by simp
  next
    case (Some j)
    from find_char_Some [OF this]
    have j: "length pre \<le> j" "j < length ?t" "?t ! j = CHR ''/''" "CHR ''/'' \<notin> set (bytes ?t (length pre) j)" by auto
    have "\<not> j < length pre + length v"
    proof
      assume "j < length pre + length v"
      then have lt: "j - length pre < length v" using j by simp
      then have "v ! (j - length pre) = CHR ''/''" using j by (simp add: nth_append)
      with lt assms show False by (metis nth_mem)
    qed
    moreover have "\<not> length pre + length v < j"
    proof
      assume lt: "length pre + length v < j"
      with j have "vs \<noteq> []" by auto
      then obtain w ws where "vs = w # ws" by (cases vs) auto
      with lt have "CHR ''/'' \<in> set (bytes ?t (length pre) j)"
        by (auto simp: bytes_def take_Cons' )
      with j show False by simp
    qed
    ultimately show ?thesis using Some by simp
  qed
  then show ?thesis by (simp add: next_value_def Let_def bytes_def)
qed

definition set_values :: "path_parameters \<Rightarrow> string list \<Rightarrow> path_parameters" where
  "set_values ps vs = map2 (\<lambda>p v. p\<lparr>rp_value := v\<rparr>) ps vs"

lemma set_values_values: "length ps = length vs \<Longrightarrow> map rp_value (set_values ps vs) = vs"
  by (induction ps vs rule: list_induct2) (auto simp: set_values_def)

lemma set_values_names: "length ps = length vs \<Longrightarrow> map rp_name (set_values ps vs) = map rp_name ps"
  by (induction ps vs rule: list_induct2) (auto simp: set_values_def)

lemma bind_values_all:
  assumes "map rp_name ps = ns" "length vs = length ns" "\<forall>v\<in>set vs. CHR ''/'' \<notin> set v"
    "unambiguous pre ns vs" "length (pre @ slashes vs) + 1 < 2 ^ 64"
    "vs \<noteq> [] \<Longrightarrow> it = length tp + 1"
  shows "bind_values (tp @ slashes vs) it (pre @ slashes (map (Cons (CHR '':'')) ns)) ps
    = (set_values ps vs, Inr (pre @ slashes vs))"
  using assms
proof (induction ps arbitrary: ns vs pre tp it)
  case Nil
  then show ?case by (simp add: set_values_def)
next
  case (Cons p ps)
  from Cons.prems(1,2) obtain n ns' v vs' where ns: "ns = n # ns'" "vs = v # vs'" "rp_name p = n" "map rp_name ps = ns'"
    by (cases ns; cases vs) auto
  let ?t = "tp @ slashes vs"
  have nv: "next_value ?t it = (it + length v, v)"
    using next_value_seg [of v "tp @ ''/''" vs'] Cons.prems(3,6) ns by simp
  have pv: "put_value (pre @ slashes (map (Cons (CHR '':'')) ns)) n v
      = Inr (pre @ CHR ''/'' # v @ slashes (map (Cons (CHR '':'')) ns'))"
    using put_value_fresh [of pre n "slashes (map (Cons (CHR '':'')) ns')" v] Cons.prems(4,5) ns by simp
  let ?it = "if str_at ?t (it + length v) = CHR ''/'' then it + length v + 1 else it + length v"
  have it': "?it = length (tp @ CHR ''/'' # v) + 1" if "vs' \<noteq> []"
    using that Cons.prems(6) ns by (cases vs') (auto simp: str_at_def nth_append)
  have "bind_values ((tp @ CHR ''/'' # v) @ slashes vs') ?it ((pre @ CHR ''/'' # v) @ slashes (map (Cons (CHR '':'')) ns')) ps
      = (set_values ps vs', Inr ((pre @ CHR ''/'' # v) @ slashes vs'))"
    using Cons.prems ns it' by (intro Cons.IH) auto
  then show ?case using ns nv pv by (simp add: Let_def set_values_def)
qed

end
