(* ===== verification/Route_Theorems.thy ===== *)
theory Route_Theorems
  imports Route_Correct
begin

text \<open>
  The properties of \<open>route\<close>: what a plain route and a route with parameters match, what the
  callback then finds in the parameters, and the two ways the matching goes wrong.
\<close>

lemma make_route_params:
  assumes "\<forall>s\<in>set segs. plain_seg s" "segs \<noteq> []" "\<forall>n\<in>set ns. CHR ''/'' \<notin> set n"
  shows "make_route m (param_path segs ns) cb = Inr \<lparr>ro_path = param_path segs ns, ro_uri_target = slashes segs,
    ro_method = m, ro_params = params_from (length (slashes segs)) ns, ro_callback = cb, ro_context = []\<rparr>"
  using parse_route_params [OF assms] by (simp add: make_route_def)

lemma slashes_neq_Nil: "ss \<noteq> [] \<Longrightarrow> slashes ss \<noteq> []" "ss \<noteq> [] \<Longrightarrow> starts_with (slashes ss @ xs) ''/''"
  by (cases ss; simp add: starts_with_def)+

lemma match_params:
  assumes segs: "\<forall>s\<in>set segs. plain_seg s" "segs \<noteq> []"
    and r: "ro_path r = param_path segs ns" "ro_uri_target r = slashes segs" "ro_method r = m" "map rp_name (ro_params r) = ns"
    and vs: "vs \<noteq> []" "length vs = length ns" "\<forall>v\<in>set vs. CHR ''/'' \<notin> set v" "unambiguous (slashes segs) ns vs"
    and len: "length (slashes (segs @ vs)) + 1 < 2 ^ 64"
  shows "is_match_with_target_request (slashes (segs @ vs)) m r
    = (r\<lparr>ro_params := set_values (ro_params r) vs\<rparr>, Inr True)"
proof -
  obtain v vs' where v: "vs = v # vs'" using vs(1) by (cases vs) auto
  have ml: "match_loop (slashes (segs @ vs)) (slashes segs) 0 = Some (length (slashes segs) + 1)"
    using match_loop_base [of segs "[]" "v @ slashes vs'"] segs v by (simp add: plain_seg_def)
  have bv: "bind_values (slashes (segs @ vs)) (length (slashes segs) + 1) (param_path segs ns) (ro_params r)
      = (set_values (ro_params r) vs, Inr (slashes (segs @ vs)))"
    using bind_values_all [of "ro_params r" ns vs "slashes segs" "length (slashes segs) + 1" "slashes segs"] r vs len
    by (simp add: param_path_def)
  have "slashes (segs @ vs) \<noteq> slashes segs" using v by simp
  with ml bv r segs show ?thesis
    using slashes_neq_Nil(2) [of segs "slashes vs"] slashes_neq_Nil(1) [of segs]
    by (simp add: is_match_with_target_request_def)
qed

text \<open>
  C26. A route whose path has no \<open>/:\<close> after its first character is constructed without an
  exception, and from then on it answers true to exactly the requests with its own method and
  its own path, and a match leaves it unchanged.
\<close>

theorem plain_route_exact:
  assumes "starts_with path ''/''" "find_bind path 1 = None"
  shows "case make_route m path cb of Inl e \<Rightarrow> False
    | Inr r \<Rightarrow> \<forall>t m'. is_match_with_target_request t m' r = (r, Inr (m' = m \<and> t = path))"
proof -
  have "path \<noteq> []" using assms(1) by (auto simp: starts_with_def)
  moreover have "starts_with t ''/'' \<and> t \<noteq> []" if "t = path" for t using that assms(1) \<open>path \<noteq> []\<close> by simp
  ultimately show ?thesis using assms
    by (auto simp: make_route_def parse_route_def is_match_with_target_request_def split: option.split)
qed

theorem plain_route_exact_witness:
  "case make_route m_get ''/users'' (None :: nat route_callback option) of Inl e \<Rightarrow> False
    | Inr r \<Rightarrow> \<forall>t m'. is_match_with_target_request t m' r = (r, Inr (m' = m_get \<and> t = ''/users''))"
proof (rule plain_route_exact)
  show "starts_with ''/users'' ''/''" by code_simp
  show "find_bind ''/users'' 1 = None" by code_simp
qed

text \<open>
  C15. A path of fixed segments followed by \<open>:name\<close> segments is parsed into exactly these names,
  and the route then matches the target with one value per name and hands the callback exactly
  these values under these names, whatever values an earlier request left in it.  Needed: no
  name occurs in the path, with the earlier values in place, before its own position (the corner
  case the source describes in a comment).
\<close>

theorem param_route_binds:
  assumes "\<forall>s\<in>set segs. plain_seg s" "segs \<noteq> []" "\<forall>n\<in>set ns. CHR ''/'' \<notin> set n"
    and "vs \<noteq> []" "length vs = length ns" "\<forall>v\<in>set vs. CHR ''/'' \<notin> set v" "unambiguous (slashes segs) ns vs"
    and "length (slashes (segs @ vs)) + 1 < 2 ^ 64"
  shows "case make_route m (param_path segs ns) cb of Inl e \<Rightarrow> False
    | Inr r \<Rightarrow> \<forall>r'. same_route r r' \<longrightarrow>
        (\<exists>r''. is_match_with_target_request (slashes (segs @ vs)) m r' = (r'', Inr True) \<and> same_route r r''
           \<and> map rp_name (ro_params r'') = ns \<and> map rp_value (ro_params r'') = vs)"
proof -
  have "\<exists>r''. is_match_with_target_request (slashes (segs @ vs)) m r' = (r'', Inr True) \<and> same_route r r''
       \<and> map rp_name (ro_params r'') = ns \<and> map rp_value (ro_params r'') = vs"
    if r: "make_route m (param_path segs ns) cb = Inr r" and s: "same_route r r'" for r r'
  proof -
    from r s make_route_params [OF assms(1-3), of m cb]
    have f: "ro_path r' = param_path segs ns" "ro_uri_target r' = slashes segs" "ro_method r' = m" "map rp_name (ro_params r') = ns"
      by (auto simp: same_route_def)
    then have l: "length (ro_params r') = length vs" using assms(5) by (metis length_map)
    have ma: "is_match_with_target_request (slashes (segs @ vs)) m r'
        = (r'\<lparr>ro_params := set_values (ro_params r') vs\<rparr>, Inr True)"
      by (rule match_params [OF assms(1,2) f assms(4-8)])
    with s have "same_route r (r'\<lparr>ro_params := set_values (ro_params r') vs\<rparr>)"
      using is_match_same [of r' "slashes (segs @ vs)" m] rm.same_trans by fastforce
    with ma l f(4) show ?thesis by (simp add: set_values_names set_values_values)
  qed
  then show ?thesis using make_route_params [OF assms(1-3), of m cb] by simp
qed

theorem param_route_binds_witness:
  "case make_route m_get ''/user/:id/:item'' (None :: nat route_callback option) of Inl e \<Rightarrow> False
    | Inr r \<Rightarrow> \<forall>r'. same_route r r' \<longrightarrow>
        (\<exists>r''. is_match_with_target_request ''/user/42/pen'' m_get r' = (r'', Inr True) \<and> same_route r r''
           \<and> map rp_name (ro_params r'') = [''id'', ''item''] \<and> map rp_value (ro_params r'') = [''42'', ''pen''])"
proof -
  have u: "unambiguous (slashes [''user'']) [''id'', ''item''] [''42'', ''pen'']" by code_simp
  have e: "param_path [''user''] [''id'', ''item''] = ''/user/:id/:item''"
    "slashes ([''user''] @ [''42'', ''pen'']) = ''/user/42/pen''" by (simp_all add: param_path_def)
  show ?thesis
    using param_route_binds [of "[''user'']" "[''id'', ''item'']" "[''42'', ''pen'']" m_get "None :: nat route_callback option", OF _ _ _ _ _ _ u]
    unfolding e by (simp add: plain_seg_def)
qed

text \<open>
  No route, whatever its path, answers true to a request outside its own tree: a match needs
  the route's method and a target that is the fixed part itself or continues it after a slash,
  and it changes nothing of the route but the values of its parameters.
\<close>

lemma match_stays_under_base:
  assumes "is_match_with_target_request t m r = (r', Inr True)"
  shows "m = ro_method r \<and> same_route r r' \<and> ro_context r' = ro_context r
    \<and> (t = ro_uri_target r \<or> (\<exists>rest. t = ro_uri_target r @ CHR ''/'' # rest))"
proof -
  have "t = ro_uri_target r \<or> (\<exists>it. match_loop t (ro_uri_target r) 0 = Some it)" "m = ro_method r"
    using assms by (auto simp: is_match_with_target_request_def split: if_split_asm option.split_asm)
  with is_match_same [of r t m] is_match_context [of t m r] match_loop_Some assms show ?thesis by fastforce
qed

lemma match_stays_under_base_witness:
  "m_get = ro_method \<lparr>ro_path = ''/a/:x'', ro_uri_target = ''/a'', ro_method = m_get, ro_params = params_from 2 [''x''],
       ro_callback = None :: nat route_callback option, ro_context = []\<rparr> \<and> (''/a/1'' = ''/a'' \<or> (\<exists>rest. ''/a/1'' = ''/a'' @ CHR ''/'' # rest))"
proof -
  let ?r = "\<lparr>ro_path = ''/a/:x'', ro_uri_target = ''/a'', ro_method = m_get, ro_params = params_from 2 [''x''],
       ro_callback = None :: nat route_callback option, ro_context = []\<rparr>"
  have "is_match_with_target_request ''/a/1'' m_get ?r = (?r\<lparr>ro_params := set_values (ro_params ?r) [''1'']\<rparr>, Inr True)"
    using match_params [where segs = "[''a'']" and r = ?r and ns = "[''x'']" and m = m_get and vs = "[''1'']"]
    by (simp add: plain_seg_def param_path_def fresh_name_def find_str.simps)
  from match_stays_under_base [OF this] show ?thesis by simp
qed

text \<open>
  A route with parameters also answers true to the request for its bare fixed part, and then
  the callback finds the values of the request that was matched before: after
  \<open>/user/42\<close> a client that asks for \<open>/user\<close> is served with the parameter \<open>42\<close> of the other
  client.
\<close>

lemma base_matches_with_old_values:
  assumes "\<forall>s\<in>set segs. plain_seg s" "segs \<noteq> []" "\<forall>n\<in>set ns. CHR ''/'' \<notin> set n"
    and "vs \<noteq> []" "length vs = length ns" "\<forall>v\<in>set vs. CHR ''/'' \<notin> set v" "unambiguous (slashes segs) ns vs"
    and "length (slashes (segs @ vs)) + 1 < 2 ^ 64"
  shows "case make_route m (param_path segs ns) cb of Inl e \<Rightarrow> False
    | Inr r \<Rightarrow> (case is_match_with_target_request (slashes (segs @ vs)) m r of
          (r', res) \<Rightarrow> is_match_with_target_request (slashes segs) m r' = (r', Inr True) \<and> map rp_value (ro_params r') = vs)"
proof -
  let ?r = "\<lparr>ro_path = param_path segs ns, ro_uri_target = slashes segs,
    ro_method = m, ro_params = params_from (length (slashes segs)) ns, ro_callback = cb, ro_context = []\<rparr>"
  have l: "length (params_from (length (slashes segs)) ns) = length vs"
    using assms(5) map_name_params_from [of "length (slashes segs)" ns] by (metis length_map)
  have "is_match_with_target_request (slashes (segs @ vs)) m ?r = (?r\<lparr>ro_params := set_values (ro_params ?r) vs\<rparr>, Inr True)"
    by (rule match_params) (use assms in simp_all)
  moreover have "starts_with (slashes segs) ''/''" "slashes segs \<noteq> []"
    using slashes_neq_Nil(1) [of segs] slashes_neq_Nil(2) [of segs "[]"] assms(2) by simp_all
  ultimately show ?thesis using make_route_params [OF assms(1-3), of m cb] l
    by (simp add: is_match_with_target_request_def [of "slashes segs"] set_values_values)
qed

lemma base_matches_with_old_values_witness:
  "case make_route m_get ''/user/:id'' (None :: nat route_callback option) of Inl e \<Rightarrow> False
    | Inr r \<Rightarrow> (case is_match_with_target_request ''/user/42'' m_get r of
          (r', res) \<Rightarrow> is_match_with_target_request ''/user'' m_get r' = (r', Inr True) \<and> map rp_value (ro_params r') = [''42''])"
proof -
  have u: "unambiguous (slashes [''user'']) [''id''] [''42'']" by code_simp
  have e: "param_path [''user''] [''id''] = ''/user/:id''" "slashes ([''user''] @ [''42'']) = ''/user/42''"
    "slashes [''user''] = ''/user''" by (simp_all add: param_path_def)
  show ?thesis
    using base_matches_with_old_values [of "[''user'']" "[''id'']" "[''42'']" m_get "None :: nat route_callback option", OF _ _ _ _ _ _ u]
    unfolding e by (simp add: plain_seg_def)
qed

text \<open>
  A route registered with a parameter without a name (\<open>/a/:\<close>) makes the matching itself
  throw \<open>std::out_of_range\<close> on every request with the route's method for a single segment below its
  fixed part: the empty name is found at position 0 and \<open>key_pos - 1\<close> wraps.
\<close>

lemma nameless_parameter_throws:
  assumes "\<forall>s\<in>set segs. plain_seg s" "segs \<noteq> []" "CHR ''/'' \<notin> set v"
    and "length (slashes segs) + 2 < 2 ^ 64 - 1"
  shows "case make_route m (param_path segs [[]]) cb of Inl e \<Rightarrow> False
    | Inr r \<Rightarrow> snd (is_match_with_target_request (slashes (segs @ [v])) m r) = Inl Out_of_range"
proof -
  let ?p = "param_path segs [[]]"
  have "find_str ?p [] 0 = Some 0" by (simp add: find_str.simps)
  moreover have "length ?p = length (slashes segs) + 2" by (simp add: param_path_def)
  moreover have "unat (- 1 :: u64) = 2 ^ 64 - 1" by (simp add: unsigned_minus_1_eq_mask mask_eq_exp_minus_1)
  ultimately have pv: "put_value ?p [] w = Inl Out_of_range" for w
    using assms(4) by (simp add: put_value_def replace_at_def)
  have "match_loop (slashes (segs @ [v])) (slashes segs) 0 = Some (length (slashes segs) + 1)"
    using match_loop_base [of segs "[]" v] assms by (simp add: plain_seg_def)
  moreover have "starts_with (slashes (segs @ [v])) ''/''" "slashes (segs @ [v]) \<noteq> []"
    using slashes_neq_Nil(2) [of segs "slashes [v]"] assms(2) by simp_all
  ultimately show ?thesis using make_route_params [OF assms(1,2), of "[[]]" m cb] pv
    by (simp add: is_match_with_target_request_def Let_def split: prod.split)
qed

lemma nameless_parameter_throws_witness:
  "case make_route m_get ''/a/:'' (None :: nat route_callback option) of Inl e \<Rightarrow> False
    | Inr r \<Rightarrow> snd (is_match_with_target_request ''/a/x'' m_get r) = Inl Out_of_range"
proof -
  have e: "param_path [''a''] [[]] = ''/a/:''" "slashes ([''a''] @ [''x'']) = ''/a/x''" by (simp_all add: param_path_def)
  show ?thesis
    using nameless_parameter_throws [of "[''a'']" "''x''" m_get "None :: nat route_callback option"]
    unfolding e by (simp add: plain_seg_def)
qed

end
