(* ===== verification/Middleware.thy ===== *)
theory Middleware
  imports Route
begin

text \<open>
  The middlewares of \<open>server/http/middlewares/\<close> and the chain \<open>WebSession::on_receive\<close> runs.  The
  routes are shared between the authorization and the routing middleware
  (\<open>shared_ptr<route>\<close>): a store maps addresses to routes and a middleware holds addresses.
  A step gives the store, the response as it was left, and an exception that escapes or the
  result.
\<close>

type_synonym 'x store = "nat \<Rightarrow> 'x route"
type_synonym ('x, 'a) step = "'x store \<times> http_response \<times> (cpp_exn + 'a)"

subsection \<open>auth_middleware.hpp\<close>

datatype auth_authorization_level = al_none | al_guest | al_owner | al_admin

record auth_result =
  ar_success :: bool
  ar_reason :: string

text \<open>
  The authorization callback of the application.  It gets the route as a shared pointer and can
  write its context, which the handler of the route is given later: the callback returns the
  context as it left it.
\<close>

type_synonym 'x auth_callback =
  "string \<Rightarrow> 'x route \<Rightarrow> auth_authorization_level \<Rightarrow> 'x http_context \<times> (cpp_exn + auth_result)"

record 'x auth_middleware =
  am_routes :: "(nat \<times> auth_authorization_level) list"
  am_callback :: "'x auth_callback option"

definition new_auth_middleware :: "'x auth_middleware" where
  "new_auth_middleware = \<lparr>am_routes = [], am_callback = None\<rparr>"

definition authorize_route :: "nat \<Rightarrow> auth_authorization_level \<Rightarrow> 'x auth_middleware \<Rightarrow> 'x auth_middleware" where
  "authorize_route rt level a = a\<lparr>am_routes := am_routes a @ [(rt, level)]\<rparr>"

definition set_auth_callback :: "'x auth_callback option \<Rightarrow> 'x auth_middleware \<Rightarrow> 'x auth_middleware" where
  "set_auth_callback cb a = a\<lparr>am_callback := cb\<rparr>"

definition extract_token :: "string \<Rightarrow> string" where
  "extract_token header_value =
     (case find_str header_value ''Bearer '' 0 of
        None \<Rightarrow> []
      | Some index \<Rightarrow> drop (index + 7) header_value)"

definition auth_header :: "http_request \<Rightarrow> string option" where
  "auth_header req =
     (case um_find (rq_headers req) ''Authorization'' of
        Some v \<Rightarrow> Some v
      | None \<Rightarrow> um_find (rq_headers req) ''authorization'')"

text \<open>The body of a refusal; \<open>CHR 0x22\<close> is the quotation mark.\<close>

definition denied_body :: "string \<Rightarrow> string" where
  "denied_body reason =
     CHR ''{'' # CHR 0x22 # ''error'' @ CHR 0x22 # '': '' @ CHR 0x22 # reason @ CHR 0x22 # ''}''"

text \<open>The checks of the loop's body for a route that matches; true goes on with the loop.\<close>

definition authorize ::
    "'x auth_callback option \<Rightarrow> http_request \<Rightarrow> auth_authorization_level \<Rightarrow> 'x route
      \<Rightarrow> http_response \<Rightarrow> 'x route \<times> http_response \<times> (cpp_exn + bool)" where
  "authorize cb req level r resp =
     (case auth_header req of
        None \<Rightarrow> (r, set_status st_forbidden resp, Inr False)
      | Some v \<Rightarrow>
          if extract_token v = [] then (r, set_status st_forbidden resp, Inr False)
          else (case cb of
              None \<Rightarrow> (r, resp, Inl Assertion_failed)
            | Some f \<Rightarrow>
                (let (ctx, ans) = f (extract_token v) r level; r' = r\<lparr>ro_context := ctx\<rparr>
                 in case ans of
                      Inl e \<Rightarrow> (r', resp, Inl e)
                    | Inr a \<Rightarrow>
                        if \<not> ar_success a
                        then (r', set_status st_unauthorized (set_body (denied_body (ar_reason a)) resp), Inr False)
                        else (r', resp, Inr True))))"

fun auth_loop ::
    "'x auth_callback option \<Rightarrow> http_request \<Rightarrow> (nat \<times> auth_authorization_level) list \<Rightarrow> 'x store
      \<Rightarrow> http_response \<Rightarrow> ('x, bool) step" where
  "auth_loop cb req [] h resp = (h, resp, Inr True)"
| "auth_loop cb req ((k, level) # rs) h resp =
     (case is_match_with_target_request (rq_target req) (rq_method req) (h k) of
        (r, Inl e) \<Rightarrow> (h(k := r), resp, Inl e)
      | (r, Inr b) \<Rightarrow>
          if \<not> b then auth_loop cb req rs (h(k := r)) resp
          else (case authorize cb req level r resp of
              (r', resp', Inr True) \<Rightarrow> auth_loop cb req rs (h(k := r')) resp'
            | (r', resp', out) \<Rightarrow> (h(k := r'), resp', out)))"

definition auth_execute :: "'x auth_middleware \<Rightarrow> 'x store \<Rightarrow> http_request \<Rightarrow> http_response \<Rightarrow> ('x, bool) step" where
  "auth_execute a h req resp =
     (case auth_loop (am_callback a) req (am_routes a) h resp of
        (h', resp', Inl e) \<Rightarrow>
          if is_std_exn e then (h', set_status st_internal_server_error resp', Inr False) else (h', resp', Inl e)
      | (h', resp', Inr b) \<Rightarrow> (h', resp', Inr b))"

subsection \<open>routing_middleware.hpp\<close>

text \<open>Calling a \<open>std::function\<close>: an empty one throws \<open>bad_function_call\<close>.\<close>

definition call_route :: "'x route \<Rightarrow> http_request \<Rightarrow> http_response \<Rightarrow> http_response \<times> cpp_exn option" where
  "call_route r req resp =
     (case ro_callback r of
        None \<Rightarrow> (resp, Some Bad_function_call)
      | Some cb \<Rightarrow> cb req resp (ro_params r) (ro_context r))"

text \<open>The loop, with the value of \<open>route_found\<close> it ends with.\<close>

fun routing_loop :: "nat list \<Rightarrow> 'x store \<Rightarrow> http_request \<Rightarrow> http_response \<Rightarrow> ('x, bool) step" where
  "routing_loop [] h req resp = (h, resp, Inr False)"
| "routing_loop (k # ks) h req resp =
     (case is_match_with_target_request (rq_target req) (rq_method req) (h k) of
        (r, Inl e) \<Rightarrow> (h(k := r), resp, Inl e)
      | (r, Inr b) \<Rightarrow>
          if b then
            (case call_route r req resp of
               (resp', None) \<Rightarrow> (h(k := r), resp', Inr True)
             | (resp', Some e) \<Rightarrow>
                 if is_std_exn e then (h(k := r), set_status st_internal_server_error resp', Inr False)
                 else (h(k := r), resp', Inl e))
          else routing_loop ks (h(k := r)) req resp)"

definition routing_execute :: "nat list \<Rightarrow> 'x store \<Rightarrow> http_request \<Rightarrow> http_response \<Rightarrow> ('x, bool) step" where
  "routing_execute routers h req resp =
     (case routing_loop routers h req resp of
        (h', resp', Inl e) \<Rightarrow> (h', resp', Inl e)
      | (h', resp', Inr route_found) \<Rightarrow>
          (h', if \<not> route_found then set_status st_not_found resp' else resp', Inr False))"

definition add_router :: "nat \<Rightarrow> nat list \<Rightarrow> nat list" where
  "add_router rt routers = routers @ [rt]"

subsection \<open>cors_middleware.hpp\<close>

definition cors_execute :: "http_request \<Rightarrow> http_response \<Rightarrow> http_response \<times> bool" where
  "cors_execute req resp =
     (case um_find (rq_headers req) ''origin'' of
        None \<Rightarrow> (resp, True)
      | Some origin \<Rightarrow>
          (case um_find (rq_headers req) ''host'' of
             None \<Rightarrow> (resp, False)
           | Some host \<Rightarrow>
               if origin = ''http://'' @ host \<or> origin = ''https://'' @ host then (resp, True)
               else
                 (let resp' = add_header ''Access-Control-Allow-Methods'' ''*''
                      (add_header ''Access-Control-Allow-Headers'' ''*''
                        (add_header ''Access-Control-Allow-Origin'' ''*'' resp))
                  in if rq_method req = m_options then (set_status st_no_content resp', False)
                     else (resp', True))))"

subsection \<open>The chain\<close>

text \<open>
  The classes derived from \<open>middleware\<close>; \<open>Mw_user\<close> is one the application defines.
\<close>

datatype 'x middleware =
  Mw_auth "'x auth_middleware"
| Mw_routing "nat list"
| Mw_cors
| Mw_user "http_request \<Rightarrow> http_response \<Rightarrow> http_response \<times> (cpp_exn + bool)"

fun execute :: "'x middleware \<Rightarrow> 'x store \<Rightarrow> http_request \<Rightarrow> http_response \<Rightarrow> ('x, bool) step" where
  "execute (Mw_auth a) h req resp = auth_execute a h req resp"
| "execute (Mw_routing ks) h req resp = routing_execute ks h req resp"
| "execute Mw_cors h req resp = (let (resp', b) = cors_execute req resp in (h, resp', Inr b))"
| "execute (Mw_user f) h req resp = (let (resp', res) = f req resp in (h, resp', res))"

text \<open>The loop of \<open>on_receive\<close>: up to the first middleware that answers false or throws.\<close>

fun run_middlewares :: "'x middleware list \<Rightarrow> 'x store \<Rightarrow> http_request \<Rightarrow> http_response \<Rightarrow> ('x, unit) step" where
  "run_middlewares [] h req resp = (h, resp, Inr ())"
| "run_middlewares (m # ms) h req resp =
     (case execute m h req resp of
        (h', resp', Inl e) \<Rightarrow> (h', resp', Inl e)
      | (h', resp', Inr b) \<Rightarrow> if \<not> b then (h', resp', Inr ()) else run_middlewares ms h' req resp')"

subsection \<open>The authorization middleware\<close>

text \<open>
  The application accepts the request at a route: there is a token, and the callback, given the
  token, the route as matched (with its bound values) and the level, reports a success.
\<close>

definition accepts ::
    "'x auth_callback option \<Rightarrow> http_request \<Rightarrow> auth_authorization_level \<Rightarrow> 'x route \<Rightarrow> bool" where
  "accepts cb req level r =
     (case auth_header req of
        None \<Rightarrow> False
      | Some v \<Rightarrow> extract_token v \<noteq> [] \<and>
          (case cb of
             None \<Rightarrow> False
           | Some f \<Rightarrow> (case snd (f (extract_token v) r level) of Inl e \<Rightarrow> False | Inr a \<Rightarrow> ar_success a)))"

lemma authorize_accepts:
  "authorize cb req level r resp = (r', resp', out) \<Longrightarrow>
    (out = Inr True \<longleftrightarrow> accepts cb req level r) \<and> (out = Inr True \<longrightarrow> resp' = resp)"
  by (auto simp: authorize_def accepts_def Let_def split: option.split_asm sum.split_asm prod.split_asm if_split_asm)

lemma authorize_same: "same_route r0 r \<Longrightarrow> same_route r0 (fst (authorize cb req level r resp))"
  by (auto simp: authorize_def Let_def same_route_def split: option.split sum.split prod.split)

lemma authorize_False:
  "authorize cb req level r resp = (r', resp', Inr False) \<Longrightarrow> rs_status resp' \<in> {st_forbidden, st_unauthorized}"
  by (auto simp: authorize_def Let_def set_status_def split: option.split_asm sum.split_asm prod.split_asm if_split_asm)

lemma authorize_no_token:
  "auth_header req = None \<or> (\<exists>v. auth_header req = Some v \<and> extract_token v = []) \<Longrightarrow>
    authorize cb req level r resp = (r, set_status st_forbidden resp, Inr False)"
  by (auto simp: authorize_def)

lemma match_store:
  assumes "is_match_with_target_request t m (h k) = (r, res)" "rm.same_store h0 h"
  shows "rm.same_store h0 (h(k := r))" "same_route (h0 k) r" "rm.verdict t m (h0 k) = res"
    "rm.same_store h0 (h(k := fst (authorize cb req level r resp)))"
proof -
  have "same_route (h k) r" using is_match_same [of "h k" t m] assms(1) by simp
  then show r: "same_route (h0 k) r" using assms(2) rm.same_trans by (auto simp: rm.same_store_def)
  show "rm.same_store h0 (h(k := r))" "rm.same_store h0 (h(k := fst (authorize cb req level r resp)))"
    using assms(2) r authorize_same [OF r] by (simp_all add: rm.same_store_def)
  show "rm.verdict t m (h0 k) = res"
    using rm.same_store_verdict [OF assms(2), of t m k] assms(1) by (simp add: rm.verdict_def)
qed

text \<open>A protected route lets a request pass: it does not match, or as matched it is accepted.\<close>

definition lets_pass ::
    "'x auth_callback option \<Rightarrow> http_request \<Rightarrow> 'x store \<Rightarrow> nat \<times> auth_authorization_level \<Rightarrow> bool" where
  "lets_pass cb req h kl =
     (case is_match_with_target_request (rq_target req) (rq_method req) (h (fst kl)) of
        (r, Inl e) \<Rightarrow> False
      | (r, Inr b) \<Rightarrow> b \<longrightarrow> accepts cb req (snd kl) r)"

lemma lets_pass_other: "i \<noteq> fst kl \<Longrightarrow> lets_pass cb req (h(i := r)) kl = lets_pass cb req h kl"
  by (simp add: lets_pass_def)

lemma auth_loop_passes:
  "auth_loop cb req rs h resp = (h', resp', out) \<Longrightarrow> distinct (map fst rs) \<Longrightarrow>
    (out = Inr True \<longleftrightarrow> list_all (lets_pass cb req h) rs) \<and> (out = Inr True \<longrightarrow> resp' = resp)"
proof (induction rs arbitrary: h resp)
  case Nil
  then show ?case by auto
next
  case (Cons kl rs)
  obtain k level where kl: "kl = (k, level)" by fastforce
  obtain r res where m: "is_match_with_target_request (rq_target req) (rq_method req) (h k) = (r, res)" by fastforce
  have rest: "list_all (lets_pass cb req (h(k := x))) rs = list_all (lets_pass cb req h) rs" for x
  proof (rule list.pred_cong [OF refl])
    fix z assume "z \<in> set rs"
    then have "k \<noteq> fst z" using Cons.prems(2) kl by force
    then show "lets_pass cb req (h(k := x)) z = lets_pass cb req h z" by (rule lets_pass_other)
  qed
  have first: "lets_pass cb req h kl = (case res of Inl e \<Rightarrow> False | Inr b \<Rightarrow> b \<longrightarrow> accepts cb req level r)"
    using m kl by (simp add: lets_pass_def)
  have d: "distinct (map fst rs)" using Cons.prems(2) by simp
  consider e where "res = Inl e" | "res = Inr False" | "res = Inr True" by (cases res) auto
  then show ?case
  proof cases
    case 1
    with Cons.prems(1) m kl first show ?thesis by auto
  next
    case 2
    with Cons.prems(1) m kl have "auth_loop cb req rs (h(k := r)) resp = (h', resp', out)" by (simp del: fun_upd_apply)
    from Cons.IH [OF this d] rest first 2 show ?thesis by (simp del: fun_upd_apply)
  next
    case 3
    obtain r' resp1 out1 where a: "authorize cb req level r resp = (r', resp1, out1)" by (metis prod_cases3)
    note acc = authorize_accepts [OF a]
    show ?thesis
    proof (cases "out1 = Inr True")
      case True
      with Cons.prems(1) m kl 3 a have "auth_loop cb req rs (h(k := r')) resp1 = (h', resp', out)"
        by (simp del: fun_upd_apply)
      from Cons.IH [OF this d] rest first 3 acc True show ?thesis by (simp del: fun_upd_apply)
    next
      case False
      then have "auth_loop cb req (kl # rs) h resp = (h(k := r'), resp1, out1)"
        using m kl 3 a by (auto split: sum.split bool.split)
      with Cons.prems(1) acc first 3 False show ?thesis by auto
    qed
  qed
qed

lemma auth_loop_False:
  "auth_loop cb req rs h resp = (h', resp', Inr False) \<Longrightarrow> rs_status resp' \<in> {st_forbidden, st_unauthorized}"
proof (induction rs arbitrary: h resp)
  case Nil
  then show ?case by simp
next
  case (Cons kl rs)
  obtain k level where kl: "kl = (k, level)" by fastforce
  obtain r res where m: "is_match_with_target_request (rq_target req) (rq_method req) (h k) = (r, res)"
    by fastforce
  obtain r' resp1 out where a: "authorize cb req level r resp = (r', resp1, out)" by (metis prod_cases3)
  from Cons.prems m a kl authorize_False [of cb req level r resp r' resp1] show ?case
    by (auto split: sum.split_asm if_split_asm bool.split_asm dest: Cons.IH)
qed

lemma auth_execute_outcome:
  "auth_execute a h req resp = (h', resp', out) \<Longrightarrow>
     (out = Inr True \<longrightarrow> auth_loop (am_callback a) req (am_routes a) h resp = (h', resp', Inr True))
   \<and> (out = Inr False \<longrightarrow> rs_status resp' \<in> {st_forbidden, st_unauthorized, st_internal_server_error})
   \<and> (\<forall>e. out = Inl e \<longrightarrow> \<not> is_std_exn e)"
  using auth_loop_False [of "am_callback a" req "am_routes a" h resp]
  by (auto simp: auth_execute_def set_status_def split: prod.split_asm sum.split_asm if_split_asm)

lemma auth_loop_unprotected:
  "\<forall>(k, level)\<in>set rs. rm.verdict (rq_target req) (rq_method req) (h0 k) = Inr False \<Longrightarrow> rm.same_store h0 h \<Longrightarrow>
    \<exists>h'. auth_loop cb req rs h resp = (h', resp, Inr True) \<and> rm.same_store h0 h'"
proof (induction rs arbitrary: h)
  case Nil
  then show ?case by simp
next
  case (Cons kl rs)
  obtain k level where kl: "kl = (k, level)" by fastforce
  obtain r res where m: "is_match_with_target_request (rq_target req) (rq_method req) (h k) = (r, res)"
    by fastforce
  note ms = match_store [OF m Cons.prems(2)]
  with Cons.prems kl m have "res = Inr False" by auto
  have "\<exists>h'. auth_loop cb req rs (h(k := r)) resp = (h', resp, Inr True) \<and> rm.same_store h0 h'"
    by (rule Cons.IH [OF _ ms(1)]) (use Cons.prems(1) in simp)
  with \<open>res = Inr False\<close> kl m show ?case by simp
qed

text \<open>The first protected route that matches decides a request without a token.\<close>

lemma auth_loop_no_token:
  assumes "auth_header req = None \<or> (\<exists>v. auth_header req = Some v \<and> extract_token v = [])"
  shows "rm.same_store h0 h \<Longrightarrow> rm.first_match (rq_target req) (rq_method req) h0 (map fst rs) = Inr (Some k) \<Longrightarrow>
    \<exists>h'. auth_loop cb req rs h resp = (h', set_status st_forbidden resp, Inr False)"
proof (induction rs arbitrary: h)
  case Nil
  then show ?case by simp
next
  case (Cons kl rs)
  obtain k' level where kl: "kl = (k', level)" by fastforce
  obtain r res where m: "is_match_with_target_request (rq_target req) (rq_method req) (h k') = (r, res)"
    by fastforce
  note ms = match_store [OF m Cons.prems(1)]
  show ?case
  proof (cases "res = Inr True")
    case True
    with m kl authorize_no_token [OF assms, of cb level r resp] show ?thesis by simp
  next
    case False
    with Cons.prems(2) kl ms(3) have "res = Inr False"
      "rm.first_match (rq_target req) (rq_method req) h0 (map fst rs) = Inr (Some k)"
      by (auto split: sum.split_asm if_split_asm)
    with Cons.IH [OF ms(1)] m kl show ?thesis by (simp del: fun_upd_apply)
  qed
qed

subsection \<open>The routing middleware\<close>

lemma routing_loop_None:
  "rm.first_match (rq_target req) (rq_method req) h ks = Inr None \<Longrightarrow>
    \<exists>h'. routing_loop ks h req resp = (h', resp, Inr False) \<and> rm.same_store h h'"
proof (induction ks arbitrary: h)
  case Nil
  then show ?case by simp
next
  case (Cons k ks)
  obtain r res where m: "is_match_with_target_request (rq_target req) (rq_method req) (h k) = (r, res)"
    by fastforce
  note ms = match_store [of _ _ h k r res h, OF m rm.same_store_refl]
  with Cons.prems have "res = Inr False" "rm.first_match (rq_target req) (rq_method req) h ks = Inr None"
    by (auto split: sum.split_asm if_split_asm)
  with Cons.IH [of "h(k := r)"] rm.first_match_cong [OF ms(1)] m rm.same_store_trans [OF ms(1)] show ?case
    by (fastforce simp del: fun_upd_apply)
qed

lemma routing_loop_Some:
  assumes "rm.first_match (rq_target req) (rq_method req) h ks = Inr (Some k)"
    "is_match_with_target_request (rq_target req) (rq_method req) (h k) = (r, res)"
  shows "\<exists>h'. rm.same_store h h' \<and> h' k = r \<and> routing_loop ks h req resp =
    (case call_route r req resp of
       (resp', None) \<Rightarrow> (h', resp', Inr True)
     | (resp', Some e) \<Rightarrow>
         if is_std_exn e then (h', set_status st_internal_server_error resp', Inr False) else (h', resp', Inl e))"
  using assms
proof (induction ks arbitrary: h)
  case Nil
  then show ?case by simp
next
  case (Cons k' ks)
  obtain r' res' where m: "is_match_with_target_request (rq_target req) (rq_method req) (h k') = (r', res')"
    by fastforce
  note ms = match_store [of _ _ h k' r' res' h, OF m rm.same_store_refl]
  show ?case
  proof (cases "res' = Inr True")
    case True
    with Cons.prems ms(3) have "k = k'" by simp
    with m Cons.prems(2) have "r' = r" "res = Inr True" using True \<open>k = k'\<close> by simp_all
    with True m ms(1) \<open>k = k'\<close> show ?thesis
      by (intro exI [of _ "h(k' := r)"]) (simp add: fun_upd_same del: fun_upd_apply)
  next
    case False
    with Cons.prems(1) ms(3) have f: "res' = Inr False"
      "rm.first_match (rq_target req) (rq_method req) h ks = Inr (Some k)"
      by (auto split: sum.split_asm if_split_asm)
    from rm.first_match_Some [OF f(2)] ms(3) f(1) have "k \<noteq> k'" by auto
    with Cons.IH [of "h(k' := r')"] Cons.prems(2) f rm.first_match_cong [OF ms(1)]
    obtain h' where "rm.same_store (h(k' := r')) h'" "h' k = r" "routing_loop ks (h(k' := r')) req resp =
      (case call_route r req resp of
         (resp', None) \<Rightarrow> (h', resp', Inr True)
       | (resp', Some e) \<Rightarrow>
           if is_std_exn e then (h', set_status st_internal_server_error resp', Inr False) else (h', resp', Inl e))"
      by fastforce
    with f(1) m rm.same_store_trans [OF ms(1)] show ?thesis by auto
  qed
qed

end
