(* ===== verification/Endpoint.thy ===== *)
theory Endpoint
  imports Middleware
begin

text \<open>
  \<open>helpers/endpoint_context.hpp\<close>: the registration of routes and the helpers of handlers.  JSON is
  a third-party library: membership (\<open>contains\<close>) and the text of \<open>{"error": msg}\<close> (\<open>dump\<close>, which
  throws on text that is not UTF-8) are parameters.
\<close>

record 'x endpoint_context =
  en_routes :: "nat list"
  en_auth :: "'x auth_middleware"
  en_auth_callback :: "'x auth_callback option"

definition new_endpoint_context :: "'x endpoint_context" where
  "new_endpoint_context = \<lparr>en_routes = [], en_auth = new_auth_middleware, en_auth_callback = None\<rparr>"

definition endpoint_add ::
    "nat \<Rightarrow> bool \<Rightarrow> auth_authorization_level \<Rightarrow> 'x endpoint_context \<Rightarrow> 'x endpoint_context" where
  "endpoint_add rt require_authorize auth_level c =
     (let c' = c\<lparr>en_routes := en_routes c @ [rt]\<rparr>
      in if require_authorize then c'\<lparr>en_auth := authorize_route rt auth_level (en_auth c')\<rparr> else c')"

text \<open>The member is \<open>noexcept\<close> and asserts that the callback is defined.\<close>

definition should_add_auth_middleware :: "'x endpoint_context \<Rightarrow> cpp_exn + bool" where
  "should_add_auth_middleware c =
     (let any = \<not> (am_routes (en_auth c) = []);
          cb_is_defined = (any \<and> en_auth_callback c \<noteq> None)
      in if \<not> cb_is_defined then Inl Assertion_failed else Inr any)"

definition configure_auth_callback :: "'x auth_callback option \<Rightarrow> 'x endpoint_context \<Rightarrow> 'x endpoint_context" where
  "configure_auth_callback cb c =
     c\<lparr>en_auth_callback := cb, en_auth := set_auth_callback cb (en_auth c)\<rparr>"

fun json_any_missing_field :: "('j \<Rightarrow> string \<Rightarrow> bool) \<Rightarrow> 'j \<Rightarrow> string list \<Rightarrow> string option" where
  "json_any_missing_field contains json [] = None"
| "json_any_missing_field contains json (arg # args) =
     (if \<not> contains json arg then Some arg else json_any_missing_field contains json args)"

fun get_parameter :: "path_parameters \<Rightarrow> string \<Rightarrow> route_param option" where
  "get_parameter [] p_name = None"
| "get_parameter (p # ps) p_name = (if rp_name p = p_name then Some p else get_parameter ps p_name)"

text \<open>The five \<open>make_*_response\<close> helpers differ in the status.\<close>

definition make_response_json_error ::
    "(string \<Rightarrow> cpp_exn + string) \<Rightarrow> http_status \<Rightarrow> string \<Rightarrow> http_response \<Rightarrow> http_response \<times> cpp_exn option" where
  "make_response_json_error dump status msg resp =
     (let resp' = set_status status resp
      in case dump msg of
           Inl e \<Rightarrow> (resp', Some e)
         | Inr body \<Rightarrow> (set_body body resp', None))"

definition make_notfound_response where
  "make_notfound_response dump = make_response_json_error dump st_not_found"

definition make_badrequest_response where
  "make_badrequest_response dump = make_response_json_error dump st_bad_request"

definition make_forbidden_response where
  "make_forbidden_response dump = make_response_json_error dump st_forbidden"

definition make_internal_server_error_response where
  "make_internal_server_error_response dump = make_response_json_error dump st_internal_server_error"

subsection \<open>Lemmas\<close>

definition add_all :: "(nat \<times> bool \<times> auth_authorization_level) list \<Rightarrow> 'x endpoint_context \<Rightarrow> 'x endpoint_context" where
  "add_all rs c = fold (\<lambda>(rt, req, l). endpoint_add rt req l) rs c"

lemma add_all_fields:
  "en_routes (add_all rs c) = en_routes c @ map fst rs"
  "am_routes (en_auth (add_all rs c)) = am_routes (en_auth c) @ [(rt, l). (rt, req, l) \<leftarrow> rs, req]"
  "am_callback (en_auth (add_all rs c)) = am_callback (en_auth c)"
  "en_auth_callback (add_all rs c) = en_auth_callback c"
  by (induction rs arbitrary: c) (auto simp: add_all_def endpoint_add_def authorize_route_def Let_def)

lemma get_parameter_nth:
  "distinct (map rp_name ps) \<Longrightarrow> i < length ps \<Longrightarrow> get_parameter ps (rp_name (ps ! i)) = Some (ps ! i)"
proof (induction ps arbitrary: i)
  case Nil
  then show ?case by simp
next
  case (Cons p ps)
  then show ?case by (cases i) auto
qed

lemma missing_field_None: "json_any_missing_field contains json args = None \<longleftrightarrow> (\<forall>a\<in>set args. contains json a)"
  by (induction args) auto

lemma missing_field_find: "json_any_missing_field contains json args = find (\<lambda>a. \<not> contains json a) args"
  by (induction args) auto

end
