(* ===== verification/Middleware_Theorems.thy ===== *)
theory Middleware_Theorems
  imports Route_Theorems Endpoint
begin

text \<open>
  The properties of the middlewares: authorization fails closed, routing dispatches to the first
  route, the preflight answer of CORS, and the registration helper.
\<close>

text \<open>
  C7. Authorization fails closed.  With no route registered twice, the authorization lets a request
  through if and only if every protected route that matches the request is one for which the
  application's callback, called with the token, with the route as matched (its bound values
  included) and with its level, reports a success; then the rest of the chain runs, on the response
  unchanged.  Otherwise no later middleware runs, whatever these are: the chain ends with the
  authorization's own response, whose status is 403, 401 or 500, or with an exception that is not a
  standard one (or a failed assertion), which no handler of this code catches.
\<close>

theorem auth_fails_closed:
  assumes "distinct (map fst (am_routes a))"
  shows "case auth_execute a h req resp of (h', resp', out) \<Rightarrow>
    (out = Inr True \<longleftrightarrow> list_all (lets_pass (am_callback a) req h) (am_routes a))
    \<and> (if out = Inr True
       then resp' = resp \<and> run_middlewares (Mw_auth a # ms) h req resp = run_middlewares ms h' req resp
       else run_middlewares (Mw_auth a # ms) h req resp = (h', resp', map_sum id (\<lambda>_. ()) out)
         \<and> (case out of Inl e \<Rightarrow> \<not> is_std_exn e
            | Inr b \<Rightarrow> rs_status resp' \<in> {st_forbidden, st_unauthorized, st_internal_server_error}))"
proof -
  obtain h' resp' out where e: "auth_execute a h req resp = (h', resp', out)" by (metis prod_cases3)
  obtain h1 resp1 out1 where l: "auth_loop (am_callback a) req (am_routes a) h resp = (h1, resp1, out1)" by (metis prod_cases3)
  note passes = auth_loop_passes [OF l assms]
  have same: "out = Inr True \<longleftrightarrow> out1 = Inr True" "out = Inr True \<Longrightarrow> resp' = resp1"
    using e l by (auto simp: auth_execute_def split: sum.split_asm if_split_asm)
  have "run_middlewares (Mw_auth a # ms) h req resp = (h', resp', map_sum id (\<lambda>_. ()) out)" if "out \<noteq> Inr True"
    using e that by (auto split: sum.split)
  moreover have "run_middlewares (Mw_auth a # ms) h req resp = run_middlewares ms h' req resp'" if "out = Inr True"
    using e that by simp
  ultimately show ?thesis using e passes same auth_execute_outcome [OF e] by (auto split: sum.split)
qed

text \<open>A small application: one route, one callback that accepts one token.\<close>

definition demo_route :: "nat route" where
  "demo_route = \<lparr>ro_path = ''/a'', ro_uri_target = ''/a'', ro_method = m_get, ro_params = [],
     ro_callback = Some (\<lambda>req resp ps ctx. (set_body ''ok'' (set_status st_ok resp), None)), ro_context = []\<rparr>"

definition demo_auth :: "nat auth_middleware" where
  "demo_auth = \<lparr>am_routes = [(0, al_admin)],
     am_callback = Some (\<lambda>token r level. ([], Inr \<lparr>ar_success = (token = ''t''), ar_reason = ''no''\<rparr>))\<rparr>"

definition demo_get :: "headers \<Rightarrow> http_request" where
  "demo_get hs = mk_request m_get 1 ''/a'' hs []"

lemma demo_match: "is_match_with_target_request (rq_target (demo_get hs)) (rq_method (demo_get hs)) demo_route = (demo_route, Inr True)"
  by (simp add: is_match_with_target_request_def demo_get_def mk_request_def demo_route_def starts_with_def)

theorem auth_fails_closed_witness:
  "run_middlewares [Mw_auth demo_auth, Mw_routing [0]] (\<lambda>_. demo_route) (demo_get [(''authorization'', ''Bearer x'')]) new_response
    = run_middlewares [Mw_auth demo_auth] (\<lambda>_. demo_route) (demo_get [(''authorization'', ''Bearer x'')]) new_response
   \<and> snd (snd (auth_execute demo_auth (\<lambda>_. demo_route) (demo_get [(''authorization'', ''Bearer t'')]) new_response)) = Inr True"
proof -
  let ?h = "\<lambda>_ :: nat. demo_route" and ?x = "demo_get [(''authorization'', ''Bearer x'')]" and ?t = "demo_get [(''authorization'', ''Bearer t'')]"
  have t: "auth_header ?x = Some ''Bearer x''" "extract_token ''Bearer x'' = ''x''"
    "auth_header ?t = Some ''Bearer t''" "extract_token ''Bearer t'' = ''t''" by code_simp+
  have d: "distinct (map fst (am_routes demo_auth))" "am_routes demo_auth = [(0, al_admin)]" by (simp_all add: demo_auth_def)
  have p: "\<not> list_all (lets_pass (am_callback demo_auth) ?x ?h) (am_routes demo_auth)"
    "list_all (lets_pass (am_callback demo_auth) ?t ?h) (am_routes demo_auth)"
    using demo_match [of "[(''authorization'', ''Bearer x'')]"] demo_match [of "[(''authorization'', ''Bearer t'')]"] t
    by (simp_all add: d(2) lets_pass_def accepts_def) (simp_all add: demo_auth_def)
  from auth_fails_closed [OF d(1), where h = ?h and req = ?x and resp = new_response and ms = "[Mw_routing [0]]"]
    auth_fails_closed [OF d(1), where h = ?h and req = ?x and resp = new_response and ms = "[]"] p(1)
  have "run_middlewares [Mw_auth demo_auth, Mw_routing [0]] ?h ?x new_response
      = run_middlewares [Mw_auth demo_auth] ?h ?x new_response" by (simp add: case_prod_beta del: run_middlewares.simps)
  moreover from auth_fails_closed [OF d(1), where h = ?h and req = ?t and resp = new_response and ms = "[]"] p(2)
  have "snd (snd (auth_execute demo_auth ?h ?t new_response)) = Inr True" by (simp add: case_prod_beta)
  ultimately show ?thesis by blast
qed

text \<open>
  The first protected route that matches answers a request without a token: when the header
  is missing, or holds no text after \<open>Bearer\<close>, the response is exactly the incoming one with the
  status 403 Forbidden, and the chain stops.
\<close>

lemma auth_without_token_403:
  assumes "am_routes a = ks @ (k, level) # ks'"
    and "\<forall>(i, l)\<in>set ks. snd (is_match_with_target_request (rq_target req) (rq_method req) (h i)) = Inr False"
    and "snd (is_match_with_target_request (rq_target req) (rq_method req) (h k)) = Inr True"
    and "auth_header req = None \<or> (\<exists>v. auth_header req = Some v \<and> extract_token v = [])"
  shows "\<exists>h'. run_middlewares (Mw_auth a # ms) h req resp = (h', set_status st_forbidden resp, Inr ())"
proof -
  have "rm.first_match (rq_target req) (rq_method req) h (map fst (am_routes a)) = Inr (Some k)"
    using assms(1-3) by (fastforce intro!: rm.first_match_split)
  from auth_loop_no_token [OF assms(4) rm.same_store_refl this, of "am_callback a" resp]
  show ?thesis by (auto simp: auth_execute_def)
qed

lemma auth_without_token_403_witness:
  "\<exists>h'. run_middlewares [Mw_auth demo_auth, Mw_routing [0]] (\<lambda>_. demo_route) (demo_get []) new_response
    = (h', set_status st_forbidden new_response, Inr ())"
proof (rule auth_without_token_403 [of _ "[]"])
  show "am_routes demo_auth = [] @ (0, al_admin) # []" by (simp add: demo_auth_def)
  have "auth_header (demo_get []) = None" by code_simp
  then show "auth_header (demo_get []) = None \<or> (\<exists>v. auth_header (demo_get []) = Some v \<and> extract_token v = [])" ..
qed (simp_all add: demo_match)

text \<open>
  A request no protected route matches passes the authorization untouched: it answers true,
  the response is the same, and no route of the store changed in more than its bound values and
  its context.
\<close>

lemma auth_unprotected_passes:
  assumes "\<forall>(k, level)\<in>set (am_routes a). snd (is_match_with_target_request (rq_target req) (rq_method req) (h k)) = Inr False"
  shows "case auth_execute a h req resp of (h', resp', out) \<Rightarrow>
    resp' = resp \<and> out = Inr True \<and> (\<forall>i. same_route (h i) (h' i))"
proof -
  have "\<forall>(k, level)\<in>set (am_routes a). rm.verdict (rq_target req) (rq_method req) (h k) = Inr False"
    using assms by (simp add: rm.verdict_def)
  from auth_loop_unprotected [OF this rm.same_store_refl] obtain h' where
    "auth_loop (am_callback a) req (am_routes a) h resp = (h', resp, Inr True)" "rm.same_store h h'" by blast
  then show ?thesis by (simp add: auth_execute_def rm.same_store_def)
qed

lemma auth_unprotected_passes_witness:
  "case auth_execute demo_auth (\<lambda>_. demo_route) (mk_request m_post 1 ''/a'' [] []) new_response of (h', resp', out) \<Rightarrow>
    resp' = new_response \<and> out = Inr True \<and> (\<forall>i. same_route demo_route (h' i))"
  using auth_unprotected_passes [of demo_auth "mk_request m_post 1 ''/a'' [] []" "\<lambda>_. demo_route" new_response]
  by (simp add: demo_auth_def is_match_with_target_request_def mk_request_def demo_route_def)

text \<open>
  C19. Routing dispatches to the first registered route that matches: its callback is called with
  the request, the response, the parameters this match bound and the route's context, and when
  it returns, its response is the result and the chain stops.
\<close>

theorem routing_dispatch:
  assumes "\<forall>i\<in>set ks. snd (is_match_with_target_request (rq_target req) (rq_method req) (h i)) = Inr False"
    and "is_match_with_target_request (rq_target req) (rq_method req) (h k) = (r, Inr True)"
    and "ro_callback r = Some cb" "cb req resp (ro_params r) (ro_context r) = (resp', None)"
  shows "\<exists>h'. run_middlewares (Mw_routing (ks @ k # ks') # ms) h req resp = (h', resp', Inr ())
    \<and> h' k = r \<and> (\<forall>i. same_route (h i) (h' i))"
proof -
  have "rm.first_match (rq_target req) (rq_method req) h (ks @ k # ks') = Inr (Some k)"
    by (rule rm.first_match_split) (use assms in simp_all)
  from routing_loop_Some [OF this assms(2), of resp] assms(3,4) show ?thesis
    by (auto simp: call_route_def routing_execute_def rm.same_store_def)
qed

theorem routing_dispatch_witness:
  "\<exists>h'. run_middlewares [Mw_routing [0]] (\<lambda>_. demo_route) (demo_get []) new_response
    = (h', set_body ''ok'' (set_status st_ok new_response), Inr ()) \<and> h' 0 = demo_route
    \<and> (\<forall>i. same_route demo_route (h' i))"
  using routing_dispatch [of "[]" "demo_get []" "\<lambda>_. demo_route" 0 demo_route
      "\<lambda>req resp ps ctx. (set_body ''ok'' (set_status st_ok resp), None)" new_response _ "[]" "[]"]
  by (simp add: demo_match) (simp add: demo_route_def)

text \<open>
  C27. A handler that throws a standard exception is answered with 404 Not Found, not with the
  500 the handler of the exception sets: \<open>route_found\<close> is still false after the \<open>break\<close>, so the
  status is overwritten.  The rest of the response is what the handler left.
\<close>

theorem routing_exception_is_404:
  assumes "\<forall>i\<in>set ks. snd (is_match_with_target_request (rq_target req) (rq_method req) (h i)) = Inr False"
    and "is_match_with_target_request (rq_target req) (rq_method req) (h k) = (r, Inr True)"
    and "call_route r req resp = (resp', Some e)" "is_std_exn e"
  shows "\<exists>h'. run_middlewares (Mw_routing (ks @ k # ks') # ms) h req resp = (h', set_status st_not_found resp', Inr ())"
proof -
  have "rm.first_match (rq_target req) (rq_method req) h (ks @ k # ks') = Inr (Some k)"
    by (rule rm.first_match_split) (use assms in simp_all)
  from routing_loop_Some [OF this assms(2), of resp] assms(3,4) show ?thesis
    by (auto simp: routing_execute_def set_status_def)
qed

theorem routing_exception_is_404_witness:
  "\<exists>h'. run_middlewares [Mw_routing [0]] (\<lambda>_. demo_route\<lparr>ro_callback := None\<rparr>) (demo_get []) new_response
    = (h', set_status st_not_found new_response, Inr ())"
  using routing_exception_is_404 [of "[]" "demo_get []" "\<lambda>_. demo_route\<lparr>ro_callback := None\<rparr>" 0
      "demo_route\<lparr>ro_callback := None\<rparr>" new_response new_response Bad_function_call "[]" "[]"]
  by (simp add: is_match_with_target_request_def demo_get_def mk_request_def demo_route_def starts_with_def
      call_route_def is_std_exn_def)

text \<open>
  A request no route matches is answered with 404 and otherwise the response it came with.
\<close>

lemma routing_not_found:
  assumes "\<forall>i\<in>set ks. snd (is_match_with_target_request (rq_target req) (rq_method req) (h i)) = Inr False"
  shows "\<exists>h'. run_middlewares (Mw_routing ks # ms) h req resp = (h', set_status st_not_found resp, Inr ())"
proof -
  have "rm.first_match (rq_target req) (rq_method req) h ks = Inr None"
    using assms by (simp add: rm.first_match_None rm.verdict_def)
  from routing_loop_None [OF this, of resp] show ?thesis by (auto simp: routing_execute_def)
qed

lemma routing_not_found_witness:
  "\<exists>h'. run_middlewares [Mw_routing [0]] (\<lambda>_. demo_route) (mk_request m_post 1 ''/a'' [] []) new_response
    = (h', set_status st_not_found new_response, Inr ())"
  by (rule routing_not_found) (simp add: is_match_with_target_request_def mk_request_def demo_route_def)

text \<open>
  The preflight request of another origin, with CORS first in the chain: whatever follows, an
  \<open>OPTIONS\<close> request whose origin is not the server's own gets a response whose text reads back as
  the status line 204, the three \<open>Access-Control-Allow\<close> lines and nothing else.
\<close>

lemma cors_preflight_reads_back:
  assumes "um_find (rq_headers req) ''origin'' = Some origin" "um_find (rq_headers req) ''host'' = Some host"
    and "origin \<noteq> ''http://'' @ host" "origin \<noteq> ''https://'' @ host"
    and "rq_method req = m_options" "map_order ord"
  shows "case run_middlewares (Mw_cors # ms) h req new_response of (h', resp, out) \<Rightarrow>
    h' = h \<and> out = Inr () \<and> (\<exists>ls. read_head (fst (build ord resp)) = Some (''HTTP/1.1 204 No Content'' # ls, [])
      \<and> length ls = 3 \<and> set ls = {''Access-Control-Allow-Origin: *'', ''Access-Control-Allow-Headers: *'',
          ''Access-Control-Allow-Methods: *''})"
proof -
  let ?resp = "set_status st_no_content (add_header ''Access-Control-Allow-Methods'' ''*''
     (add_header ''Access-Control-Allow-Headers'' ''*'' (add_header ''Access-Control-Allow-Origin'' ''*'' new_response)))"
  have run: "run_middlewares (Mw_cors # ms) h req new_response = (h, ?resp, Inr ())"
    using assms by (simp add: cors_execute_def Let_def)
  have clean: "\<forall>h\<in>set (rs_headers ?resp). clean_header h" by code_simp
  have fin: "final_headers ?resp = rs_headers ?resp" "rs_body ?resp = []" "status_line (rs_status ?resp) = ''HTTP/1.1 204 No Content''"
    by code_simp+
  have "read_head (fst (build ord ?resp)) = Some (status_line (rs_status ?resp) # map header_line (ord (final_headers ?resp)), rs_body ?resp)"
    by (rule read_head_build [OF assms(6)]) (use clean in blast)
  moreover have "length (map header_line (ord (rs_headers ?resp))) = 3"
  proof -
    have "length (rs_headers ?resp) = 3" by code_simp
    with assms(6) show ?thesis by (simp add: map_order_def)
  qed
  moreover have "set (map header_line (ord (rs_headers ?resp))) = {''Access-Control-Allow-Origin: *'',
      ''Access-Control-Allow-Headers: *'', ''Access-Control-Allow-Methods: *''}"
  proof -
    have "header_line ` set (rs_headers ?resp) = {''Access-Control-Allow-Origin: *'',
        ''Access-Control-Allow-Headers: *'', ''Access-Control-Allow-Methods: *''}"
      by code_simp
    with assms(6) show ?thesis by (simp add: map_order_def)
  qed
  ultimately show ?thesis using run fin by simp
qed

text \<open>
  Registering routes through \<open>endpoint_context\<close>: after any sequence of \<open>add\<close> calls all routes
  are registered and exactly those added with \<open>require_authorize\<close> are protected, in order; and
  \<open>should_add_auth_middleware\<close> fails its assertion, although nothing is wrong, for a context
  without protected routes, and answers true, never false, otherwise.
\<close>

lemma endpoint_registration:
  "case add_all rs (configure_auth_callback cb new_endpoint_context) of c \<Rightarrow>
     en_routes c = map fst rs \<and> am_routes (en_auth c) = [(rt, l). (rt, req, l) \<leftarrow> rs, req]
   \<and> am_callback (en_auth c) = cb
   \<and> should_add_auth_middleware c =
       (if (\<exists>(rt, req, l)\<in>set rs. req) \<and> cb \<noteq> None then Inr True else Inl Assertion_failed)"
proof -
  let ?c = "add_all rs (configure_auth_callback cb new_endpoint_context)"
  have f: "en_routes ?c = map fst rs" "am_routes (en_auth ?c) = [(rt, l). (rt, req, l) \<leftarrow> rs, req]"
    "am_callback (en_auth ?c) = cb" "en_auth_callback ?c = cb"
    by (simp_all add: add_all_fields configure_auth_callback_def set_auth_callback_def
        new_endpoint_context_def new_auth_middleware_def)
  have "[(rt, l). (rt, req, l) \<leftarrow> rs, req] = [] \<longleftrightarrow> \<not> (\<exists>(rt, req, l)\<in>set rs. req)"
    by (induction rs) auto
  with f show ?thesis by (auto simp: should_add_auth_middleware_def Let_def)
qed

text \<open>
  A handler finds the path parameters by name: for a route with distinct parameter names, the
  lookup of the \<open>i\<close>-th name in the parameters of the match gives the \<open>i\<close>-th segment of the target
  after the fixed part.
\<close>

lemma get_parameter_after_match:
  assumes "\<forall>s\<in>set segs. plain_seg s" "segs \<noteq> []" "\<forall>n\<in>set ns. CHR ''/'' \<notin> set n" "distinct ns"
    and "vs \<noteq> []" "length vs = length ns" "\<forall>v\<in>set vs. CHR ''/'' \<notin> set v" "unambiguous (slashes segs) ns vs"
    and "length (slashes (segs @ vs)) + 1 < 2 ^ 64" "i < length ns"
  shows "case make_route m (param_path segs ns) cb of Inl e \<Rightarrow> False
    | Inr r \<Rightarrow> map_option rp_value (get_parameter
        (ro_params (fst (is_match_with_target_request (slashes (segs @ vs)) m r))) (ns ! i)) = Some (vs ! i)"
proof -
  let ?r = "\<lparr>ro_path = param_path segs ns, ro_uri_target = slashes segs, ro_method = m,
     ro_params = params_from (length (slashes segs)) ns, ro_callback = cb, ro_context = []\<rparr>"
  let ?ps = "set_values (params_from (length (slashes segs)) ns) vs"
  have l: "length (params_from (length (slashes segs)) ns) = length vs"
    using assms(6) map_name_params_from [of "length (slashes segs)" ns] by (metis length_map)
  have ma: "is_match_with_target_request (slashes (segs @ vs)) m ?r = (?r\<lparr>ro_params := ?ps\<rparr>, Inr True)"
    using match_params [OF assms(1,2), of ?r ns m vs] assms(5-9) by simp
  have names: "map rp_name ?ps = ns" "map rp_value ?ps = vs"
    using l by (simp_all add: set_values_names set_values_values)
  then have i: "i < length ?ps" "rp_name (?ps ! i) = ns ! i" "rp_value (?ps ! i) = vs ! i"
    using assms(10) by (metis length_map nth_map)+
  from get_parameter_nth [of ?ps i] i names(1) assms(4) have "get_parameter ?ps (ns ! i) = Some (?ps ! i)" by simp
  with ma i make_route_params [OF assms(1-3), of m cb] show ?thesis by simp
qed

lemma get_parameter_after_match_witness:
  "case make_route m_get ''/user/:id/:item'' (None :: nat route_callback option) of Inl e \<Rightarrow> False
    | Inr r \<Rightarrow> map_option rp_value (get_parameter
        (ro_params (fst (is_match_with_target_request ''/user/42/pen'' m_get r))) ''item'') = Some ''pen''"
proof -
  have u: "unambiguous (slashes [''user'']) [''id'', ''item''] [''42'', ''pen'']" by code_simp
  have e: "param_path [''user''] [''id'', ''item''] = ''/user/:id/:item''"
    "slashes ([''user''] @ [''42'', ''pen'']) = ''/user/42/pen''" "[''id'', ''item''] ! 1 = ''item''"
    "[''42'', ''pen''] ! 1 = ''pen''" by (simp_all add: param_path_def)
  show ?thesis
    using get_parameter_after_match [of "[''user'']" "[''id'', ''item'']" "[''42'', ''pen'']" 1 m_get "None :: nat route_callback option", OF _ _ _ _ _ _ _ u]
    unfolding e by (simp add: plain_seg_def)
qed

end
