(* ===== verification/Session.thy ===== *)
theory Session
  imports Http_Parser Middleware
begin

text \<open>
  \<open>WebSession\<close> of \<open>server/webserver.hpp\<close> and \<open>server/impl/webserver.cpp\<close>.  All handlers run on
  the one thread of the io_context, where \<open>dispatch\<close> runs its argument at once: an operation is
  a function of the session (and of the shared routes, where it runs middlewares).  The socket is
  the environment: a session records whether it is open, the read in progress (the size of its
  buffer) and the write in progress; the completions are steps of the environment
  (\<open>Session_Steps\<close>).  What the session does to the outside (\<open>on_error_\<close>, unregistering at the
  server) is the list of its effects, and \<open>ws_accepted\<close> is a history variable: the bytes given
  to \<open>send_async\<close>.
\<close>

text \<open>
  An \<open>async_write_some\<close>: none, started and not complete, complete with the number of bytes
  the socket took and an error, its handler not yet run.
\<close>

datatype write_op = W_idle | W_pending string | W_done nat error_code

datatype effect = Ef_error error_code | Ef_unregister u64

record session =
  ws_session_id :: u64
  ws_connected :: bool
  ws_receiving :: bool
  ws_receive_buffer :: string
  ws_main :: string
  ws_flush :: string
  ws_flush_offset :: nat
  ws_sending :: bool
  ws_parser :: parser
  ws_bytes_pending :: u64
  ws_bytes_sending :: u64
  ws_bytes_received :: u64
  ws_bytes_sent :: u64
  ws_open :: bool
  ws_close_error :: error_code \<comment> \<open>what the system answers to \<open>close\<close>\<close>
  ws_buffer_option :: nat \<comment> \<open>the socket's receive buffer size\<close>
  ws_read :: "nat option"
  ws_write :: write_op
  ws_wire :: string \<comment> \<open>the bytes the socket has taken\<close>
  ws_accepted :: string
  ws_effects :: "effect list"

text \<open>
  The constructor.  It gives the flags, the counters and the offset no value: C++20 initialises an
  \<open>std::atomic\<close> to zero, and the model takes that for all of them (\<open>CMakeLists.txt\<close> asks for C++17, where
  the flags have whatever value the memory had).
\<close>

definition new_session :: "u64 \<Rightarrow> nat \<Rightarrow> error_code \<Rightarrow> session" where
  "new_session session_id option close_error =
     \<lparr>ws_session_id = session_id, ws_connected = False, ws_receiving = False, ws_receive_buffer = [],
      ws_main = [], ws_flush = [], ws_flush_offset = 0, ws_sending = False, ws_parser = new_parser,
      ws_bytes_pending = 0, ws_bytes_sending = 0, ws_bytes_received = 0, ws_bytes_sent = 0,
      ws_open = False, ws_close_error = close_error, ws_buffer_option = option, ws_read = None,
      ws_write = W_idle, ws_wire = [], ws_accepted = [], ws_effects = []\<rparr>"

definition emit :: "effect \<Rightarrow> session \<Rightarrow> session" where
  "emit e s = s\<lparr>ws_effects := ws_effects s @ [e]\<rparr>"

text \<open>\<open>vector::resize\<close>.\<close>

definition resize :: "nat \<Rightarrow> string \<Rightarrow> string" where
  "resize n b = take n b @ replicate (n - length b) nul"

lemma length_resize [simp]: "length (resize n b) = n"
  by (simp add: resize_def)

subsection \<open>Closing\<close>

definition clear_buffers :: "session \<Rightarrow> session" where
  "clear_buffers s = s\<lparr>ws_main := [], ws_flush := [], ws_bytes_pending := 0, ws_bytes_sending := 0\<rparr>"

definition shutdown_session :: "session \<Rightarrow> session" where
  "shutdown_session s = s\<lparr>ws_open := False\<rparr>"

definition disconnect_handler :: "session \<Rightarrow> session" where
  "disconnect_handler s =
     (if \<not> ws_connected s then shutdown_session s
      else if ec_true (ws_close_error s) then emit (Ef_error (ws_close_error s)) (shutdown_session s)
      else
        (let s1 = s\<lparr>ws_open := False, ws_connected := False, ws_receiving := False, ws_sending := False\<rparr>;
             s2 = shutdown_session (clear_buffers s1)
         in emit (Ef_unregister (ws_session_id s)) s2))"

definition disconnect :: "session \<Rightarrow> session \<times> bool" where
  "disconnect s = (if \<not> ws_connected s then (s, False) else (disconnect_handler s, True))"

subsection \<open>Sending\<close>

text \<open>
  Starting \<open>async_write_some\<close>: on a closed socket it completes with an error and no byte.  A
  write started on an open socket may have taken bytes even if the socket is closed before its
  handler runs.
\<close>

definition bad_descriptor :: error_code where
  "bad_descriptor = \<lparr>ec_value = 9, ec_cat = system_cat\<rparr>"

definition async_write_some :: "string \<Rightarrow> session \<Rightarrow> session" where
  "async_write_some b s = s\<lparr>ws_write := if ws_open s then W_pending b else W_done 0 bad_descriptor\<rparr>"

definition try_send :: "session \<Rightarrow> session" where
  "try_send s =
     (if ws_sending s then s
      else
        (let s1 = (if ws_flush s = []
                   then s\<lparr>ws_flush := ws_main s, ws_main := [], ws_flush_offset := 0, ws_bytes_pending := 0,
                         ws_bytes_sending := ws_bytes_sending s + word_of_nat (length (ws_main s))\<rparr>
                   else s)
         in if ws_flush s1 = [] then s1
            else async_write_some (drop (ws_flush_offset s1) (ws_flush s1)) (s1\<lparr>ws_sending := True\<rparr>)))"

text \<open>\<open>buffer = None\<close> is the null pointer.\<close>

definition send_async_raw :: "string option \<Rightarrow> nat \<Rightarrow> session \<Rightarrow> cpp_exn + session \<times> bool" where
  "send_async_raw buffer sz s =
     (if sz = 0 then Inr (fst (disconnect s), False)
      else (case buffer of
          None \<Rightarrow> Inl Assertion_failed
        | Some b \<Rightarrow>
            (let send_required = (ws_main s = [] \<or> ws_flush s = []);
                 main = ws_main s @ take sz b;
                 s1 = s\<lparr>ws_main := main, ws_bytes_pending := word_of_nat (length main),
                        ws_accepted := ws_accepted s @ take sz b\<rparr>
             in if \<not> send_required then Inr (s1, True) else Inr (try_send s1, True))))"

definition send_async :: "string \<Rightarrow> session \<Rightarrow> cpp_exn + session \<times> bool" where
  "send_async s = send_async_raw (Some s) (length s)"

definition async_write_handler :: "error_code \<Rightarrow> nat \<Rightarrow> session \<Rightarrow> session" where
  "async_write_handler ec sz s0 =
     (let s = s0\<lparr>ws_write := W_idle, ws_sending := False\<rparr>
      in if sz = 0 then s
         else
           (let offset = ws_flush_offset s + sz;
                s1 = s\<lparr>ws_bytes_sending := ws_bytes_sending s - word_of_nat sz,
                       ws_bytes_sent := ws_bytes_sent s + word_of_nat sz, ws_flush_offset := offset\<rparr>;
                s2 = (if offset = length (ws_flush s1) then s1\<lparr>ws_flush := [], ws_flush_offset := 0\<rparr> else s1)
            in if \<not> ec_true ec then try_send s2 else fst (disconnect s2)))"

text \<open>\<open>send_error\<close> filters some codes and then does nothing.\<close>

definition send_error :: "error_code \<Rightarrow> session \<Rightarrow> session" where
  "send_error ec s = s"

subsection \<open>Receiving\<close>

definition try_receive :: "session \<Rightarrow> session" where
  "try_receive s =
     (if ws_receiving s then s
      else if \<not> ws_connected s then emit (Ef_error (make_error (session_error_value ss_not_connected))) s
      else s\<lparr>ws_receiving := True, ws_read := Some (length (ws_receive_buffer s))\<rparr>)"

definition option_receive_buffer_size :: "session \<Rightarrow> nat" where
  [simp]: "option_receive_buffer_size s = ws_buffer_option s"

definition is_connected :: "session \<Rightarrow> bool" where
  [simp]: "is_connected s = ws_connected s"

definition connect :: "session \<Rightarrow> session" where
  "connect s =
     try_receive (s\<lparr>ws_bytes_pending := 0, ws_bytes_sending := 0, ws_bytes_received := 0, ws_bytes_sent := 0,
                    ws_receive_buffer := resize (option_receive_buffer_size s) (ws_receive_buffer s), ws_connected := True\<rparr>)"

text \<open>
  Reading the size of the receive buffer and setting \<open>keep_alive\<close> go to the system, and an error of it
  is thrown as \<open>std::system_error\<close>, which is a \<open>std::runtime_error\<close>.
\<close>

definition connect_in :: "error_code \<Rightarrow> session \<Rightarrow> cpp_exn + session" where
  "connect_in option_ec s = (if ec_true option_ec then Inl (Runtime_error ''set_option'') else Inr (connect s))"

text \<open>
  \<open>on_receive\<close> on the first \<open>sz\<close> bytes of the receive buffer.  The outer \<open>None\<close> is undefined
  behaviour in the parser, \<open>Inl\<close> an exception that escapes the handler.
\<close>

type_synonym 'x handled = "'x store \<times> session \<times> (cpp_exn + unit)"

definition respond :: "(headers \<Rightarrow> headers) \<Rightarrow> http_response \<Rightarrow> session \<Rightarrow> session \<times> (cpp_exn + unit)" where
  "respond ord response s =
     (case send_async (fst (build ord response)) s of
        Inl e \<Rightarrow> (s, Inl e)
      | Inr (s', _) \<Rightarrow> (fst (disconnect s'), Inr ()))"

definition on_receive ::
    "'x middleware list \<Rightarrow> (headers \<Rightarrow> headers) \<Rightarrow> nat \<Rightarrow> 'x store \<Rightarrow> session \<Rightarrow> 'x handled option" where
  "on_receive ms ord sz h s =
     (case parse (ws_receive_buffer s) sz (ws_parser s) of
        None \<Rightarrow> None
      | Some (Inl e) \<Rightarrow> Some (h, s, Inl e)
      | Some (Inr (result, p, ec)) \<Rightarrow>
          (let s1 = s\<lparr>ws_parser := p\<rparr>
           in if ec \<noteq> None \<and> ec \<noteq> Some e_unknown then Some (h, fst (disconnect s1), Inr ())
              else if ps_phase p \<noteq> ph_finished then Some (h, s1, Inr ())
              else (case result of
                  None \<Rightarrow> Some (h, fst (disconnect s1), Inr ())
                | Some request \<Rightarrow>
                    (case run_middlewares ms h request new_response of
                       (h', response, Inl e) \<Rightarrow> Some (h', s1, Inl e)
                     | (h', response, Inr u) \<Rightarrow>
                         (let (s2, out) = respond ord response s1 in Some (h', s2, out))))))"

text \<open>The handler of \<open>async_read_some\<close>: the socket has put \<open>sz\<close> bytes into the buffer.\<close>

definition async_receive_handler ::
    "'x middleware list \<Rightarrow> (headers \<Rightarrow> headers) \<Rightarrow> error_code \<Rightarrow> nat \<Rightarrow> 'x store \<Rightarrow> session \<Rightarrow> 'x handled option" where
  "async_receive_handler ms ord ec sz h s0 =
     (let s = s0\<lparr>ws_read := None, ws_receiving := False\<rparr>
      in if ec_true ec then Some (h, fst (disconnect s), Inr ())
         else if sz = 0 then Some (h, try_receive s, Inr ())
         else (case on_receive ms ord sz h (s\<lparr>ws_bytes_received := ws_bytes_received s + word_of_nat sz\<rparr>) of
             None \<Rightarrow> None
           | Some (h', s1, Inl e) \<Rightarrow> Some (h', s1, Inl e)
           | Some (h', s1, Inr u) \<Rightarrow>
               (let s2 = (if length (ws_receive_buffer s1) \<le> sz
                          then s1\<lparr>ws_receive_buffer := resize (2 * sz) (ws_receive_buffer s1)\<rparr> else s1)
                in if \<not> ws_connected s2 then Some (h', s2, Inr ())
                   else Some (h', try_receive s2, Inr ()))))"

subsection \<open>The interface of the send queue\<close>

text \<open>
  What the two send buffers promise: bytes are appended at the end, a completed write removes
  what the socket took from the front, and as long as bytes wait a write is in progress.  The
  lemmas say what a client gets from any interleaving of sends and completions: the bytes of all
  sends, in order, once.
\<close>

locale byte_queue =
  fixes enq :: "'b list \<Rightarrow> 's \<Rightarrow> 's"
    and ack :: "nat \<Rightarrow> 's \<Rightarrow> 's"
    and waiting :: "'s \<Rightarrow> 'b list"
    and in_flight :: "'s \<Rightarrow> 'b list"
    and invar :: "'s \<Rightarrow> bool"
  assumes waiting_enq: "invar s \<Longrightarrow> waiting (enq b s) = waiting s @ b"
    and waiting_ack: "invar s \<Longrightarrow> 0 < n \<Longrightarrow> n \<le> length (in_flight s) \<Longrightarrow> waiting (ack n s) = drop n (waiting s)"
    and in_flight_front: "invar s \<Longrightarrow> \<exists>r. waiting s = in_flight s @ r"
    and in_flight_busy: "invar s \<Longrightarrow> waiting s \<noteq> [] \<Longrightarrow> in_flight s \<noteq> []"
    and invar_enq: "invar s \<Longrightarrow> invar (enq b s)"
    and invar_ack: "invar s \<Longrightarrow> 0 < n \<Longrightarrow> n \<le> length (in_flight s) \<Longrightarrow> invar (ack n s)"
begin

text \<open>\<open>Inl b\<close> sends \<open>b\<close>; \<open>Inr n\<close> completes the write in progress with at most \<open>n\<close> bytes taken.\<close>

fun run :: "('b list + nat) list \<Rightarrow> 's \<Rightarrow> 'b list \<times> 's" where
  "run [] s = ([], s)"
| "run (Inl b # evs) s = run evs (enq b s)"
| "run (Inr n # evs) s =
     (let k = min n (length (in_flight s))
      in if k = 0 then run evs s
         else (let (out, s') = run evs (ack k s) in (take k (in_flight s) @ out, s')))"

lemma take_in_flight: "invar s \<Longrightarrow> n \<le> length (in_flight s) \<Longrightarrow> take n (in_flight s) = take n (waiting s)"
  using in_flight_front [of s] by auto

lemma run_fifo:
  "invar s \<Longrightarrow> run evs s = (out, s') \<Longrightarrow>
    invar s' \<and> out @ waiting s' = waiting s @ concat [b. Inl b \<leftarrow> evs]"
proof (induction evs s arbitrary: out rule: run.induct)
  case (1 s)
  then show ?case by simp
next
  case (2 b evs s)
  then show ?case by (simp add: invar_enq waiting_enq)
next
  case (3 n evs s)
  let ?k = "min n (length (in_flight s))"
  show ?case
  proof (cases "?k = 0")
    case True
    with 3 show ?thesis by simp
  next
    case False
    obtain out' where r: "run evs (ack ?k s) = (out', s')" "out = take ?k (in_flight s) @ out'"
      using False "3.prems"(2) by (cases "run evs (ack ?k s)") (simp only: run.simps Let_def if_False, simp)
    with "3.IH"(2) [OF refl False] "3.prems"(1) False
    have "invar s'" "out' @ waiting s' = drop ?k (waiting s) @ concat [b. Inl b \<leftarrow> evs]"
      by (simp_all add: invar_ack waiting_ack)
    with r(2) take_in_flight [OF "3.prems"(1), of ?k] show ?thesis by simp
  qed
qed

text \<open>As many completions as bytes wait empty the queue, however little each of them takes.\<close>

lemma run_drains:
  "invar s \<Longrightarrow> length (waiting s) \<le> length ns \<Longrightarrow> \<forall>n\<in>set ns. 0 < n \<Longrightarrow> waiting (snd (run (map Inr ns) s)) = []"
proof (induction ns arbitrary: s)
  case Nil
  then show ?case by simp
next
  case (Cons n ns)
  let ?k = "min n (length (in_flight s))"
  show ?case
  proof (cases "waiting s = []")
    case True
    with in_flight_front [OF Cons.prems(1)] have "in_flight s = []" by auto
    with True Cons show ?thesis by simp
  next
    case False
    with in_flight_busy [OF Cons.prems(1)] Cons.prems(3) have k: "0 < ?k" by auto
    have "waiting (snd (run (map Inr ns) (ack ?k s))) = []"
    proof (rule Cons.IH)
      show "length (waiting (ack ?k s)) \<le> length ns"
        using k Cons.prems(2) waiting_ack [OF Cons.prems(1) k] by (simp only: length_drop list.size)
    qed (use k Cons.prems in \<open>simp_all add: invar_ack\<close>)
    moreover have "?k \<noteq> 0" using k by blast
    ultimately show ?thesis by (auto simp: Let_def case_prod_beta min_def)
  qed
qed

end

subsection \<open>The session's buffers are such a queue\<close>

definition sq_waiting :: "session \<Rightarrow> string" where
  "sq_waiting s = drop (ws_flush_offset s) (ws_flush s) @ ws_main s"

definition sq_in_flight :: "session \<Rightarrow> string" where
  "sq_in_flight s = (case ws_write s of W_pending b \<Rightarrow> b | _ \<Rightarrow> [])"

definition sq_inv :: "session \<Rightarrow> bool" where
  "sq_inv s \<longleftrightarrow> ws_open s
     \<and> (ws_flush s = [] \<longrightarrow> ws_main s = [] \<and> \<not> ws_sending s \<and> ws_write s = W_idle)
     \<and> (ws_flush s \<noteq> [] \<longrightarrow> ws_flush_offset s < length (ws_flush s) \<and> ws_sending s
          \<and> ws_write s = W_pending (drop (ws_flush_offset s) (ws_flush s)))
     \<and> ws_bytes_pending s = word_of_nat (length (ws_main s))
     \<and> (ws_flush s = [] \<longrightarrow> ws_bytes_sending s = 0)
     \<and> (ws_flush s \<noteq> [] \<longrightarrow> ws_bytes_sending s = word_of_nat (length (ws_flush s) - ws_flush_offset s))"

text \<open>
  The queue's operations for the contract above: a send, where an empty one, which \<open>send_async\<close> answers
  with a disconnect and not with an entry of the queue, is left out; and the completion of a write.
\<close>

definition sq_enq :: "string \<Rightarrow> session \<Rightarrow> session" where
  "sq_enq b s = (if b = [] then s else (case send_async b s of Inl e \<Rightarrow> s | Inr (s', r) \<Rightarrow> s'))"

definition sq_ack :: "nat \<Rightarrow> session \<Rightarrow> session" where
  "sq_ack n s = async_write_handler no_error n s"

lemma send_async_text: "b \<noteq> [] \<Longrightarrow> send_async b s =
   (let s1 = s\<lparr>ws_main := ws_main s @ b, ws_bytes_pending := word_of_nat (length (ws_main s @ b)),
               ws_accepted := ws_accepted s @ b\<rparr>
    in Inr (if ws_main s = [] \<or> ws_flush s = [] then try_send s1 else s1, True))"
  by (simp add: send_async_def send_async_raw_def Let_def)

lemma no_error_false [simp]: "\<not> ec_true no_error"
  by (simp add: ec_true_def no_error_def)

lemma sq_enq_inv: "sq_inv s \<Longrightarrow> sq_inv (sq_enq b s) \<and> sq_waiting (sq_enq b s) = sq_waiting s @ b"
  by (auto simp: sq_inv_def sq_enq_def sq_waiting_def send_async_text Let_def try_send_def async_write_some_def)

lemma sq_ack_inv:
  assumes "sq_inv s" "0 < n" "n \<le> length (sq_in_flight s)"
  shows "sq_inv (sq_ack n s)" "sq_waiting (sq_ack n s) = drop n (sq_waiting s)"
proof -
  have f: "ws_flush s \<noteq> []" using assms by (auto simp: sq_inv_def sq_in_flight_def)
  with assms have o: "ws_flush_offset s + n \<le> length (ws_flush s)" "ws_flush_offset s < length (ws_flush s)"
    by (auto simp: sq_inv_def sq_in_flight_def)
  let ?rest = "length (ws_flush s) - (ws_flush_offset s + n)"
  have "length (ws_flush s) - ws_flush_offset s = ?rest + n" using o by simp
  then have "ws_bytes_sending s = word_of_nat (?rest + n)"
    using assms(1) f by (simp only: sq_inv_def) simp
  then have c: "ws_bytes_sending s - word_of_nat n = word_of_nat ?rest" by simp
  show "sq_inv (sq_ack n s)"
  proof (cases "ws_flush_offset s + n = length (ws_flush s)")
    case True
    then have "ws_bytes_sending s - word_of_nat n = 0" using c by simp
    with assms(1,2) f True show ?thesis
      by (auto simp: sq_inv_def sq_ack_def async_write_handler_def Let_def try_send_def async_write_some_def
          simp del: right_minus_eq)
  next
    case False
    with assms(1,2) f o c show ?thesis
      by (auto simp: sq_inv_def sq_ack_def async_write_handler_def Let_def try_send_def async_write_some_def)
  qed
  show "sq_waiting (sq_ack n s) = drop n (sq_waiting s)"
    using assms(1,2) f o
    by (auto simp: sq_inv_def sq_waiting_def sq_ack_def async_write_handler_def Let_def try_send_def
        async_write_some_def add.commute)
qed

interpretation sq: byte_queue sq_enq sq_ack sq_waiting sq_in_flight sq_inv
proof
  show "\<exists>r. sq_waiting s = sq_in_flight s @ r" if "sq_inv s" for s
    using that by (cases "ws_flush s = []") (auto simp: sq_inv_def sq_waiting_def sq_in_flight_def)
  show "sq_in_flight s \<noteq> []" if "sq_inv s" "sq_waiting s \<noteq> []" for s
    using that by (cases "ws_flush s = []") (auto simp: sq_inv_def sq_waiting_def sq_in_flight_def)
qed (simp_all add: sq_enq_inv sq_ack_inv)

text \<open>
  Sends of non-empty texts and completions of the write in progress, with the bytes the socket
  took.
\<close>

fun send_run :: "(string + nat) list \<Rightarrow> session \<Rightarrow> string \<times> session" where
  "send_run [] s = ([], s)"
| "send_run (Inl b # evs) s = send_run evs (sq_enq b s)"
| "send_run (Inr n # evs) s =
     (let k = min n (length (sq_in_flight s))
      in if k = 0 then send_run evs s
         else (let (out, s') = send_run evs (async_write_handler no_error k s)
               in (take k (sq_in_flight s) @ out, s')))"

lemma send_run_eq: "send_run evs s = sq.run evs s"
  by (induction evs s rule: send_run.induct) (auto simp: Let_def sq_ack_def [symmetric] min_def)

text \<open>A completion without a byte leaves the session idle with its data, and sends do not wake it.\<close>

definition stalled :: "session \<Rightarrow> bool" where
  "stalled s \<longleftrightarrow> ws_main s \<noteq> [] \<and> ws_flush s \<noteq> [] \<and> \<not> ws_sending s \<and> ws_write s = W_idle"

lemma stalled_send:
  assumes "stalled s" "b \<noteq> []"
  shows "\<exists>s'. send_async b s = Inr (s', True) \<and> stalled s' \<and> ws_connected s' = ws_connected s
    \<and> sq_waiting s' = sq_waiting s @ b"
  using assms by (auto simp: stalled_def send_async_text Let_def sq_waiting_def)

end
