(* ===== verification/Session_Steps.thy ===== *)
theory Session_Steps
  imports Session "HOL-Library.Sublist"
begin

text \<open>
  A session and its environment as a step relation: the socket delivers data or an error to the
  read in progress, takes bytes of the write in progress (its handler runs in a later step), and
  the expiry handler of the server runs.  A handler that throws ends the io thread; undefined
  behaviour in the parser is a configuration of its own.
\<close>

datatype 'x conf = Live "'x store" session | Ended cpp_exn | Undefined

fun conf_of :: "'x handled option \<Rightarrow> 'x conf" where
  "conf_of None = Undefined"
| "conf_of (Some (h, s, Inl e)) = Ended e"
| "conf_of (Some (h, s, Inr u)) = Live h s"

text \<open>The handler \<open>disconnect_session\<close> of the expiry timer; it does not look at its error code.\<close>

definition expire_handler :: "error_code \<Rightarrow> session \<Rightarrow> session" where
  "expire_handler ec s = (if \<not> is_connected s then s else fst (disconnect s))"

definition fill_buffer :: "string \<Rightarrow> session \<Rightarrow> session" where
  "fill_buffer data s = s\<lparr>ws_receive_buffer := data @ drop (length data) (ws_receive_buffer s)\<rparr>"

inductive session_step :: "'x middleware list \<Rightarrow> (headers \<Rightarrow> headers) \<Rightarrow> 'x conf \<Rightarrow> 'x conf \<Rightarrow> bool"
  for ms ord where
  read_data: "ws_read s = Some cap \<Longrightarrow> length data \<le> cap \<Longrightarrow>
    session_step ms ord (Live h s)
      (conf_of (async_receive_handler ms ord no_error (length data) h (fill_buffer data s)))"
| read_error: "ws_read s = Some cap \<Longrightarrow> ec_true ec \<Longrightarrow>
    session_step ms ord (Live h s) (conf_of (async_receive_handler ms ord ec 0 h s))"
| write_done: "ws_write s = W_pending b \<Longrightarrow> n \<le> length b \<Longrightarrow> 0 < n \<or> ec_true ec \<Longrightarrow>
    session_step ms ord (Live h s) (Live h (s\<lparr>ws_write := W_done n ec, ws_wire := ws_wire s @ take n b\<rparr>))"
| write_handler: "ws_write s = W_done n ec \<Longrightarrow>
    session_step ms ord (Live h s) (Live h (async_write_handler ec n s))"
| expire: "session_step ms ord (Live h s) (Live h (expire_handler ec s))"

inductive_cases session_step_Live: "session_step ms ord (Live h s) c"
inductive_simps session_step_Ended: "session_step ms ord (Ended e) c"

text \<open>The session as the accept handler starts it: the socket is open.\<close>

definition started :: "session \<Rightarrow> bool" where
  "started s \<longleftrightarrow> (\<exists>sid opt ce. \<not> ec_true ce \<and> s = connect ((new_session sid opt ce)\<lparr>ws_open := True\<rparr>))"

inductive reachable :: "'x middleware list \<Rightarrow> (headers \<Rightarrow> headers) \<Rightarrow> 'x conf \<Rightarrow> bool" for ms ord where
  init: "started s \<Longrightarrow> reachable ms ord (Live h s)"
| step: "reachable ms ord c \<Longrightarrow> session_step ms ord c c' \<Longrightarrow> reachable ms ord c'"

subsection \<open>The invariant\<close>

text \<open>
  Before the session is closed a read is in progress and nothing was ever sent; sending happens
  in the handler that closes the session, so afterwards at most one write is in progress and it
  holds everything that was accepted.
\<close>

definition fresh_send :: "session \<Rightarrow> bool" where
  "fresh_send s \<longleftrightarrow> ws_accepted s = [] \<and> ws_wire s = [] \<and> ws_write s = W_idle \<and> ws_main s = [] \<and> ws_flush s = []
     \<and> \<not> ws_sending s"

definition one_write :: "(headers \<Rightarrow> headers) \<Rightarrow> session \<Rightarrow> bool" where
  "one_write ord s \<longleftrightarrow> (ws_accepted s = [] \<or> (\<exists>r. ws_accepted s = fst (build ord r)))
     \<and> (case ws_write s of
          W_pending b \<Rightarrow> ws_wire s = [] \<and> b = ws_accepted s
        | _ \<Rightarrow> prefix (ws_wire s) (ws_accepted s))"

definition session_inv :: "(headers \<Rightarrow> headers) \<Rightarrow> session \<Rightarrow> bool" where
  "session_inv ord s \<longleftrightarrow> \<not> ec_true (ws_close_error s) \<and> one_write ord s
     \<and> (ws_connected s \<longrightarrow> ws_open s \<and> ws_read s \<noteq> None \<and> ws_receiving s)
     \<and> (\<not> ws_connected s \<longrightarrow> \<not> ws_open s)
     \<and> (ws_read s \<noteq> None \<longrightarrow> fresh_send s)
     \<and> filter (\<lambda>e. \<exists>i. e = Ef_unregister i) (ws_effects s)
        = (if ws_connected s then [] else [Ef_unregister (ws_session_id s)])"

lemmas disconnect_defs = disconnect_def disconnect_handler_def shutdown_session_def clear_buffers_def emit_def

lemma started_inv: "started s \<Longrightarrow> session_inv ord s"
  by (auto simp: started_def connect_def new_session_def session_inv_def one_write_def fresh_send_def try_receive_def)

text \<open>Disconnecting, at any point where the session is closed or has not sent yet.\<close>

lemma session_inv_disconnect:
  assumes "\<not> ec_true (ws_close_error s)" "one_write ord s" "ws_connected s" "ws_read s \<noteq> None \<longrightarrow> fresh_send s"
    "filter (\<lambda>e. \<exists>i. e = Ef_unregister i) (ws_effects s) = []"
  shows "session_inv ord (fst (disconnect s))"
  using assms by (auto simp: session_inv_def disconnect_defs one_write_def fresh_send_def split: write_op.splits)

lemma expire_inv: "session_inv ord s \<Longrightarrow> session_inv ord (expire_handler ec s)"
  using session_inv_disconnect [of s ord] by (auto simp: expire_handler_def session_inv_def)

lemma write_done_inv:
  "session_inv ord s \<Longrightarrow> ws_write s = W_pending b \<Longrightarrow>
    session_inv ord (s\<lparr>ws_write := W_done n ec, ws_wire := ws_wire s @ take n b\<rparr>)"
  by (auto simp: session_inv_def one_write_def fresh_send_def take_is_prefix)

lemma write_handler_inv:
  assumes "session_inv ord s" "ws_write s = W_done n ec"
  shows "session_inv ord (async_write_handler ec n s)" "ws_wire (async_write_handler ec n s) = ws_wire s"
proof -
  have c: "\<not> ws_connected s" "\<not> ws_open s" "ws_read s = None" "prefix (ws_wire s) (ws_accepted s)"
    using assms by (auto simp: session_inv_def fresh_send_def one_write_def)
  show "session_inv ord (async_write_handler ec n s)"
    using assms(1) c
    by (auto simp: session_inv_def async_write_handler_def Let_def try_send_def async_write_some_def one_write_def disconnect_def)
  show "ws_wire (async_write_handler ec n s) = ws_wire s"
    using c by (simp add: async_write_handler_def Let_def try_send_def async_write_some_def disconnect_def)
qed

text \<open>Sending the response and closing, from a session that has not sent.\<close>

lemma build_not_empty: "fst (build ord r) \<noteq> []"
  by (simp add: build_layout status_line_def)

lemma respond_open:
  assumes "fresh_send s" "ws_connected s" "ws_open s" "\<not> ec_true (ws_close_error s)"
  shows "\<exists>s'. respond ord r s = (s', Inr ()) \<and> \<not> ws_connected s' \<and> \<not> ws_open s' \<and> ws_read s' = ws_read s
    \<and> ws_write s' = W_pending (fst (build ord r)) \<and> ws_wire s' = [] \<and> ws_accepted s' = fst (build ord r)
    \<and> ws_main s' = [] \<and> ws_flush s' = [] \<and> \<not> ws_sending s' \<and> ws_close_error s' = ws_close_error s
    \<and> ws_session_id s' = ws_session_id s \<and> ws_receive_buffer s' = ws_receive_buffer s
    \<and> ws_effects s' = ws_effects s @ [Ef_unregister (ws_session_id s)] \<and> ws_bytes_sending s' = 0"
  using assms build_not_empty [of ord r]
  by (auto simp: respond_def send_async_text Let_def try_send_def async_write_some_def fresh_send_def disconnect_defs)

lemma respond_closed:
  assumes "fresh_send s" "\<not> ws_connected s" "\<not> ws_open s"
  shows "\<exists>s'. respond ord r s = (s', Inr ()) \<and> \<not> ws_connected s' \<and> \<not> ws_open s' \<and> ws_read s' = ws_read s
    \<and> ws_write s' = W_done 0 bad_descriptor \<and> ws_wire s' = [] \<and> ws_accepted s' = fst (build ord r)
    \<and> ws_close_error s' = ws_close_error s \<and> ws_session_id s' = ws_session_id s
    \<and> ws_effects s' = ws_effects s"
  using assms build_not_empty [of ord r]
  by (auto simp: respond_def send_async_text Let_def try_send_def async_write_some_def fresh_send_def disconnect_defs)

text \<open>What a handler step of a live session establishes.\<close>

definition handled_inv :: "(headers \<Rightarrow> headers) \<Rightarrow> session \<Rightarrow> bool" where
  "handled_inv ord s \<longleftrightarrow> ws_read s = None \<and> (if ws_connected s
     then \<not> ec_true (ws_close_error s) \<and> ws_open s \<and> \<not> ws_receiving s \<and> fresh_send s
       \<and> filter (\<lambda>e. \<exists>i. e = Ef_unregister i) (ws_effects s) = []
     else session_inv ord s)"

lemma handled_disconnect: "handled_inv ord s \<Longrightarrow> handled_inv ord (fst (disconnect s))"
  using session_inv_disconnect [of s ord]
  by (auto simp: handled_inv_def one_write_def fresh_send_def disconnect_def disconnect_handler_def emit_def
      shutdown_session_def clear_buffers_def Let_def)

lemma handled_frame:
  "handled_inv ord s \<Longrightarrow> handled_inv ord (s\<lparr>ws_parser := p\<rparr>)"
  "handled_inv ord s \<Longrightarrow> handled_inv ord (s\<lparr>ws_receive_buffer := b\<rparr>)"
  "handled_inv ord s \<Longrightarrow> handled_inv ord (s\<lparr>ws_bytes_received := n\<rparr>)"
  by (auto simp: handled_inv_def session_inv_def one_write_def fresh_send_def split: write_op.splits)

lemma handled_respond:
  assumes "handled_inv ord s" "fresh_send s"
  shows "\<exists>s'. respond ord r s = (s', Inr ()) \<and> handled_inv ord s'"
proof (cases "ws_connected s")
  case True
  with assms obtain s' where "respond ord r s = (s', Inr ())" "\<not> ws_connected s'" "\<not> ws_open s'" "ws_read s' = ws_read s"
    "ws_write s' = W_pending (fst (build ord r))" "ws_wire s' = []" "ws_accepted s' = fst (build ord r)"
    "ws_close_error s' = ws_close_error s" "ws_session_id s' = ws_session_id s"
    "ws_effects s' = ws_effects s @ [Ef_unregister (ws_session_id s)]"
    using respond_open [of s ord r] by (auto simp: handled_inv_def)
  with True assms show ?thesis by (auto simp: handled_inv_def session_inv_def one_write_def)
next
  case False
  with assms obtain s' where "respond ord r s = (s', Inr ())" "\<not> ws_connected s'" "\<not> ws_open s'" "ws_read s' = ws_read s"
    "ws_write s' = W_done 0 bad_descriptor" "ws_wire s' = []" "ws_accepted s' = fst (build ord r)"
    "ws_close_error s' = ws_close_error s" "ws_session_id s' = ws_session_id s" "ws_effects s' = ws_effects s"
    using respond_closed [of s ord r] by (auto simp: handled_inv_def session_inv_def)
  with False assms show ?thesis by (auto simp: handled_inv_def session_inv_def one_write_def)
qed

lemma on_receive_inv:
  assumes "handled_inv ord s" "fresh_send s" "on_receive ms ord sz h s = Some (h', s', Inr u)"
  shows "handled_inv ord s'"
proof -
  obtain p where "s' = s\<lparr>ws_parser := p\<rparr> \<or> s' = fst (disconnect (s\<lparr>ws_parser := p\<rparr>))
      \<or> (\<exists>r. respond ord r (s\<lparr>ws_parser := p\<rparr>) = (s', Inr u))"
    using assms(3) by (auto simp: on_receive_def Let_def split: option.split_asm sum.split_asm prod.split_asm if_split_asm)
  moreover have i: "handled_inv ord (s\<lparr>ws_parser := p\<rparr>)" "fresh_send (s\<lparr>ws_parser := p\<rparr>)"
    using assms handled_frame(1) by (simp_all add: fresh_send_def)
  moreover have "handled_inv ord s'" if "respond ord r (s\<lparr>ws_parser := p\<rparr>) = (s', Inr u)" for r
    using handled_respond [OF i, of r] that by auto
  ultimately show ?thesis using handled_disconnect [OF i(1)] by auto
qed

lemma read_handled:
  assumes "session_inv ord s" "ws_read s = Some cap"
  shows "handled_inv ord (s\<lparr>ws_read := None, ws_receiving := False\<rparr>)" "fresh_send (s\<lparr>ws_read := None, ws_receiving := False\<rparr>)"
  using assms by (auto simp: session_inv_def handled_inv_def fresh_send_def one_write_def)

lemma handled_try_receive: "handled_inv ord s \<Longrightarrow> session_inv ord (try_receive s)"
  by (auto simp: handled_inv_def session_inv_def try_receive_def one_write_def fresh_send_def emit_def
      split: write_op.splits)

lemma handled_closed: "handled_inv ord s \<Longrightarrow> \<not> ws_connected s \<Longrightarrow> session_inv ord s"
  by (simp add: handled_inv_def)

lemma disconnect_closed: "\<not> ec_true (ws_close_error s) \<Longrightarrow> \<not> ws_connected (fst (disconnect s))"
  by (simp add: disconnect_defs Let_def)

lemma receive_handler_inv:
  assumes "session_inv ord s" "ws_read s = Some cap"
    "async_receive_handler ms ord ec sz h s = Some (h', s', Inr u)"
  shows "session_inv ord s'"
proof -
  let ?s = "s\<lparr>ws_read := None, ws_receiving := False\<rparr>"
  note i = read_handled [OF assms(1,2)]
  have ce: "\<not> ec_true (ws_close_error ?s)" using assms(1) by (simp add: session_inv_def)
  show ?thesis
  proof (cases "ec_true ec \<or> sz = 0")
    case True
    with assms(3) have "s' = fst (disconnect ?s) \<or> s' = try_receive ?s"
      by (auto simp: async_receive_handler_def Let_def split: if_split_asm)
    with handled_closed [OF handled_disconnect [OF i(1)] disconnect_closed [OF ce]] handled_try_receive [OF i(1)]
    show ?thesis by auto
  next
    case False
    let ?s0 = "?s\<lparr>ws_bytes_received := ws_bytes_received ?s + word_of_nat sz\<rparr>"
    obtain s1 where s1: "on_receive ms ord sz h ?s0 = Some (h', s1, Inr u)"
      "s' = (let s2 = (if length (ws_receive_buffer s1) \<le> sz
                 then s1\<lparr>ws_receive_buffer := resize (2 * sz) (ws_receive_buffer s1)\<rparr> else s1)
             in if \<not> ws_connected s2 then s2 else try_receive s2)"
      using assms(3) False
      by (auto simp: async_receive_handler_def Let_def split: option.split_asm sum.split_asm prod.split_asm if_split_asm)
    have "handled_inv ord s1"
      by (rule on_receive_inv [OF _ _ s1(1)]) (use handled_frame(3) [OF i(1)] i(2) in \<open>simp_all add: fresh_send_def\<close>)
    then have "handled_inv ord (if length (ws_receive_buffer s1) \<le> sz
        then s1\<lparr>ws_receive_buffer := resize (2 * sz) (ws_receive_buffer s1)\<rparr> else s1)"
      by (simp add: handled_frame(2))
    with s1(2) handled_closed handled_try_receive show ?thesis by (simp add: Let_def)
  qed
qed

lemma fill_buffer_inv: "session_inv ord s \<Longrightarrow> session_inv ord (fill_buffer data s)"
  by (auto simp: session_inv_def fill_buffer_def one_write_def fresh_send_def split: write_op.splits)

definition conf_inv :: "(headers \<Rightarrow> headers) \<Rightarrow> 'x conf \<Rightarrow> bool" where
  "conf_inv ord c \<longleftrightarrow> (\<forall>h s. c = Live h s \<longrightarrow> session_inv ord s)"

lemma conf_of_Live: "conf_of r = Live h s \<Longrightarrow> r = Some (h, s, Inr ())"
  by (cases r rule: conf_of.cases) auto

lemma step_inv: "session_step ms ord c c' \<Longrightarrow> conf_inv ord c \<Longrightarrow> conf_inv ord c'"
proof (induction rule: session_step.induct)
  case (read_data s cap data h)
  then show ?case
    by (auto simp: conf_inv_def dest!: conf_of_Live intro!: receive_handler_inv [OF fill_buffer_inv, of ord s data cap])
       (auto simp: fill_buffer_def)
next
  case (read_error s cap ec h)
  then show ?case by (auto simp: conf_inv_def dest!: conf_of_Live intro: receive_handler_inv)
next
  case (write_done s b n ec h)
  then show ?case by (auto simp: conf_inv_def intro: write_done_inv)
next
  case (write_handler s n ec h)
  then show ?case by (auto simp: conf_inv_def intro: write_handler_inv(1))
next
  case (expire h s ec)
  then show ?case by (auto simp: conf_inv_def intro: expire_inv)
qed

lemma reachable_inv: "reachable ms ord c \<Longrightarrow> conf_inv ord c"
proof (induction rule: reachable.induct)
  case (init s h)
  then show ?case by (simp add: conf_inv_def started_inv)
next
  case (step c c')
  then show ?case using step_inv by blast
qed

text \<open>Once a write has completed, no step changes what the socket has taken.\<close>

definition written :: "session \<Rightarrow> bool" where
  "written s \<longleftrightarrow> \<not> ws_connected s \<and> \<not> ws_open s \<and> ws_read s = None \<and> (\<forall>b. ws_write s \<noteq> W_pending b)"

lemma write_handler_written:
  assumes "written s" "ws_write s = W_done n ec"
  shows "written (async_write_handler ec n s) \<and> ws_wire (async_write_handler ec n s) = ws_wire s"
  using assms
  by (auto simp: written_def async_write_handler_def Let_def try_send_def async_write_some_def disconnect_def)

lemma written_step:
  assumes "session_step ms ord (Live h s) c'" "written s"
  shows "\<exists>h' s'. c' = Live h' s' \<and> written s' \<and> ws_wire s' = ws_wire s"
  using assms(1)
proof (cases rule: session_step.cases)
  case (write_handler n ec)
  with write_handler_written [OF assms(2)] show ?thesis by auto
qed (use assms(2) in \<open>auto simp: written_def expire_handler_def\<close>)

lemma written_steps:
  "(session_step ms ord)\<^sup>*\<^sup>* (Live h s) c' \<Longrightarrow> written s \<Longrightarrow>
    \<exists>h' s'. c' = Live h' s' \<and> written s' \<and> ws_wire s' = ws_wire s"
proof (induction rule: rtranclp_induct)
  case base
  then show ?case by blast
next
  case (step y z)
  then obtain h' s' where "y = Live h' s'" "written s'" "ws_wire s' = ws_wire s" by blast
  with written_step [of ms ord h' s' z] step.hyps(2) show ?case by fastforce
qed

end
