(* ===== verification/Session_Segments.thy ===== *)
theory Session_Segments
  imports Session_Steps Parser_Theorems
begin

text \<open>
  A session that receives a request in any number of segments: what it does is given by its parser
  on these segments, each with what the receive buffer holds behind it, and by the middlewares on
  the request the last one completes.
\<close>

subsection \<open>A session that receives\<close>

definition receiving :: "string \<Rightarrow> parser \<Rightarrow> session \<Rightarrow> bool" where
  "receiving b q s \<longleftrightarrow> ws_receive_buffer s = b \<and> ws_parser s = q \<and> ws_read s = Some (length b)
     \<and> ws_connected s \<and> ws_open s \<and> fresh_send s \<and> \<not> ec_true (ws_close_error s) \<and> ws_effects s = []"

lemma started_receiving: "started s \<Longrightarrow> receiving (replicate (ws_buffer_option s) nul) new_parser s"
  by (auto simp: started_def receiving_def connect_def new_session_def try_receive_def resize_def fresh_send_def)

text \<open>The receive buffer after a segment: it doubles when the segment filled it.\<close>

definition after_segment :: "string \<Rightarrow> string \<Rightarrow> string" where
  "after_segment d b =
     (let b1 = d @ drop (length d) b in if length b1 \<le> length d then resize (2 * length d) b1 else b1)"

lemma wait_step:
  assumes "receiving b q s" "d \<noteq> []" "length d \<le> length b"
    and "parse (d @ drop (length d) b) (length d) q = Some (Inr (None, q', None))" "ps_phase q' \<noteq> ph_finished"
  shows "\<exists>s'. conf_of (async_receive_handler ms ord no_error (length d) h (fill_buffer d s)) = Live h s'
    \<and> receiving (after_segment d b) q' s' \<and> ws_session_id s' = ws_session_id s"
proof -
  let ?s0 = "(fill_buffer d s)\<lparr>ws_read := None, ws_receiving := False, ws_bytes_received :=
    ws_bytes_received (fill_buffer d s) + word_of_nat (length d)\<rparr>"
  let ?s1 = "?s0\<lparr>ws_parser := q'\<rparr>"
  have "on_receive ms ord (length d) h ?s0 = Some (h, ?s1, Inr ())"
    using assms(1,4,5) by (simp add: on_receive_def receiving_def fill_buffer_def Let_def)
  moreover have "ws_receive_buffer ?s1 = d @ drop (length d) b" "ws_connected ?s1"
    using assms(1) by (simp_all add: fill_buffer_def receiving_def)
  ultimately show ?thesis
    using assms(1,2)
    by (auto simp: async_receive_handler_def try_receive_def after_segment_def Let_def receiving_def fill_buffer_def
        fresh_send_def)
qed

lemma done_step:
  assumes "receiving b q s" "d \<noteq> []" "length d \<le> length b"
    and "parse (d @ drop (length d) b) (length d) q = Some (Inr (Some rq, q', None))" "ps_phase q' = ph_finished"
    and "run_middlewares ms h rq new_response = (h', resp, Inr ())"
  shows "\<exists>s'. conf_of (async_receive_handler ms ord no_error (length d) h (fill_buffer d s)) = Live h' s'
    \<and> ws_write s' = W_pending (fst (build ord resp)) \<and> ws_accepted s' = fst (build ord resp)
    \<and> \<not> ws_connected s' \<and> \<not> ws_open s' \<and> ws_read s' = None
    \<and> ws_effects s' = [Ef_unregister (ws_session_id s)]"
proof -
  let ?s0 = "(fill_buffer d s)\<lparr>ws_read := None, ws_receiving := False, ws_bytes_received :=
    ws_bytes_received (fill_buffer d s) + word_of_nat (length d)\<rparr>"
  let ?s1 = "?s0\<lparr>ws_parser := q'\<rparr>"
  have "on_receive ms ord (length d) h ?s0 = (case respond ord resp ?s1 of (s2, out) \<Rightarrow> Some (h', s2, out))"
    using assms(1,4-6) by (simp add: on_receive_def receiving_def fill_buffer_def Let_def)
  moreover have "fresh_send ?s1" "ws_connected ?s1" "ws_open ?s1" "\<not> ec_true (ws_close_error ?s1)"
    "ws_effects ?s1 = []" "ws_session_id ?s1 = ws_session_id s" "ws_read ?s1 = None"
    using assms(1) by (simp_all add: receiving_def fresh_send_def fill_buffer_def)
  from respond_open [OF this(1-4), of ord resp] this(5-7) obtain s2 where
    s2: "respond ord resp ?s1 = (s2, Inr ())" "\<not> ws_connected s2" "\<not> ws_open s2" "ws_read s2 = None"
    "ws_write s2 = W_pending (fst (build ord resp))" "ws_accepted s2 = fst (build ord resp)"
    "ws_effects s2 = [Ef_unregister (ws_session_id s)]"
    by auto
  ultimately have on: "on_receive ms ord (length d) h ?s0 = Some (h', s2, Inr ())" by simp
  let ?s3 = "if length (ws_receive_buffer s2) \<le> length d
     then s2\<lparr>ws_receive_buffer := resize (2 * length d) (ws_receive_buffer s2)\<rparr> else s2"
  have "conf_of (async_receive_handler ms ord no_error (length d) h (fill_buffer d s)) = Live h' ?s3"
    using on s2(2) assms(2) by (simp add: async_receive_handler_def Let_def)
  with s2 show ?thesis by (intro exI [of _ ?s3]) simp
qed

subsection \<open>Segments\<close>

text \<open>The segments with what the buffer holds behind each, and whether each fits the buffer.\<close>

fun with_slack :: "string list \<Rightarrow> string \<Rightarrow> (string \<times> string) list" where
  "with_slack [] b = []"
| "with_slack (d # ds) b = (d, drop (length d) b) # with_slack ds (after_segment d b)"

fun segments_fit :: "string list \<Rightarrow> string \<Rightarrow> bool" where
  "segments_fit [] b \<longleftrightarrow> True"
| "segments_fit (d # ds) b \<longleftrightarrow> d \<noteq> [] \<and> length d \<le> length b \<and> segments_fit ds (after_segment d b)"

text \<open>The handlers of the reads that deliver the segments, one after the other.\<close>

fun deliver :: "'x middleware list \<Rightarrow> (headers \<Rightarrow> headers) \<Rightarrow> string list \<Rightarrow> 'x conf \<Rightarrow> 'x conf" where
  "deliver ms ord (d # ds) (Live h s) =
     deliver ms ord ds (conf_of (async_receive_handler ms ord no_error (length d) h (fill_buffer d s)))"
| "deliver ms ord ds c = c"

lemma deliver_step:
  assumes "receiving b q s" "length d \<le> length b"
  shows "session_step ms ord (Live h s) (conf_of (async_receive_handler ms ord no_error (length d) h (fill_buffer d s)))"
  using session_step.read_data [of s "length b" d ms ord h] assms by (simp add: receiving_def)

lemma parse_segments_wait:
  assumes "parse_segments ((d, slack) # ds) q = Some (None, q')"
  shows "\<exists>q1. parse (d @ slack) (length d) q = Some (Inr (None, q1, None)) \<and> parse_segments ds q1 = Some (None, q')"
  using assms by (auto split: option.split_asm sum.split_asm prod.split_asm)

lemma session_segments:
  assumes "receiving b q s" "ps_phase q \<noteq> ph_finished" "segments_fit (ds @ [d]) b"
    and "parse_segments (with_slack ds b) q = Some (None, q1)"
    and "parse_segments (with_slack (ds @ [d]) b) q = Some (Some rq, q2)"
    and "run_middlewares ms h rq new_response = (h', resp, Inr ())"
  shows "\<exists>s'. deliver ms ord (ds @ [d]) (Live h s) = Live h' s' \<and> (session_step ms ord)\<^sup>*\<^sup>* (Live h s) (Live h' s')
    \<and> ws_write s' = W_pending (fst (build ord resp)) \<and> ws_accepted s' = fst (build ord resp)
    \<and> \<not> ws_connected s' \<and> \<not> ws_open s' \<and> ws_read s' = None
    \<and> ws_effects s' = [Ef_unregister (ws_session_id s)]"
  using assms(1-5)
proof (induction ds arbitrary: b q s)
  case Nil
  then have fit: "d \<noteq> []" "length d \<le> length b" by simp_all
  from Nil(5) have p: "parse (d @ drop (length d) b) (length d) q = Some (Inr (Some rq, q2, None))"
    by (auto split: option.split_asm sum.split_asm prod.split_asm)
  have "ps_phase q2 = ph_finished" using parse_request_iff_finished [OF p Nil(2)] by simp
  from done_step [OF Nil(1) fit p this assms(6), of ord] deliver_step [OF Nil(1) fit(2), of ms ord h]
  show ?case by (auto intro: r_into_rtranclp)
next
  case (Cons x ds)
  from Cons.prems(3) have fit: "x \<noteq> []" "length x \<le> length b" "segments_fit (ds @ [d]) (after_segment x b)" by simp_all
  from parse_segments_wait [of x "drop (length x) b" "with_slack ds (after_segment x b)" q q1] Cons.prems(4)
  obtain q' where p: "parse (x @ drop (length x) b) (length x) q = Some (Inr (None, q', None))"
    "parse_segments (with_slack ds (after_segment x b)) q' = Some (None, q1)" by auto
  have np: "ps_phase q' \<noteq> ph_finished" using parse_request_iff_finished [OF p(1) Cons.prems(2)] by simp
  from wait_step [OF Cons.prems(1) fit(1,2) p(1) np, of ms ord h] obtain s1 where
    s1: "conf_of (async_receive_handler ms ord no_error (length x) h (fill_buffer x s)) = Live h s1"
    "receiving (after_segment x b) q' s1" "ws_session_id s1 = ws_session_id s" by blast
  have "parse_segments (with_slack (ds @ [d]) (after_segment x b)) q' = Some (Some rq, q2)"
    using Cons.prems(5) p(1) by simp
  from Cons.IH [OF s1(2) np fit(3) p(2) this] obtain s' where
    s': "deliver ms ord (ds @ [d]) (Live h s1) = Live h' s'" "(session_step ms ord)\<^sup>*\<^sup>* (Live h s1) (Live h' s')"
    "ws_write s' = W_pending (fst (build ord resp))" "ws_accepted s' = fst (build ord resp)"
    "\<not> ws_connected s'" "\<not> ws_open s'" "ws_read s' = None" "ws_effects s' = [Ef_unregister (ws_session_id s)]"
    using s1(3) by auto
  have "session_step ms ord (Live h s) (Live h s1)"
    using deliver_step [OF Cons.prems(1) fit(2), of ms ord h] s1(1) by simp
  with s' s1(1) show ?case by (intro exI [of _ s']) (auto intro: converse_rtranclp_into_rtranclp)
qed

end
