(* ===== verification/Session_Theorems.thy ===== *)
theory Session_Theorems
  imports Session_Segments Middleware_Theorems
begin

text \<open>
  The properties of a session: what a client can receive, what its life is, the two send buffers
  as a queue, a request served from its bytes to the bytes of the response, and the failures the
  handlers contain.
\<close>

text \<open>
  C9. Whatever the client sends and however the socket behaves, the bytes a session has put on
  the wire are a prefix of what was given to \<open>send_async\<close>, and that is nothing or exactly one
  built response: no byte is sent twice, out of order or from two responses.
\<close>

theorem wire_is_prefix_of_one_response:
  assumes "reachable ms ord (Live h s)"
  shows "prefix (ws_wire s) (ws_accepted s) \<and> (ws_accepted s = [] \<or> (\<exists>r. ws_accepted s = fst (build ord r)))"
proof -
  have "session_inv ord s" using reachable_inv [OF assms] by (simp add: conf_inv_def)
  then show ?thesis by (auto simp: session_inv_def one_write_def split: write_op.split_asm)
qed

definition demo_session :: session where
  "demo_session = connect ((new_session 1 100 no_error)\<lparr>ws_open := True\<rparr>)"

lemma demo_started: "started demo_session"
proof -
  have "\<not> ec_true no_error \<and> demo_session = connect ((new_session 1 100 no_error)\<lparr>ws_open := True\<rparr>)"
    by (simp add: demo_session_def)
  then show ?thesis unfolding started_def by blast
qed

theorem wire_is_prefix_of_one_response_witness:
  "prefix (ws_wire demo_session) (ws_accepted demo_session)"
  using wire_is_prefix_of_one_response [OF reachable.init [OF demo_started, of "[] :: nat middleware list" rev "\<lambda>_. demo_route"]]
  by simp

text \<open>
  C25. A session unregisters at the server exactly once: it has not while it is connected, and has
  once, under its own id, when it is not, whatever steps led there; and a session is connected
  exactly while its socket is open.
\<close>

theorem unregisters_exactly_once:
  assumes "reachable ms ord (Live h s)"
  shows "filter (\<lambda>e. \<exists>i. e = Ef_unregister i) (ws_effects s) =
      (if ws_connected s then [] else [Ef_unregister (ws_session_id s)])
    \<and> (ws_connected s \<longleftrightarrow> ws_open s)"
proof -
  have "session_inv ord s" using reachable_inv [OF assms] by (simp add: conf_inv_def)
  then show ?thesis by (auto simp: session_inv_def)
qed

theorem unregisters_exactly_once_witness:
  "filter (\<lambda>e. \<exists>i. e = Ef_unregister i) (ws_effects (expire_handler no_error demo_session)) =
     (if ws_connected (expire_handler no_error demo_session) then [] else [Ef_unregister 1])"
proof -
  have r: "reachable ([] :: nat middleware list) rev (Live (\<lambda>_. demo_route) (expire_handler no_error demo_session))"
    by (rule reachable.step [OF reachable.init [OF demo_started] session_step.expire])
  have "ws_session_id (expire_handler no_error demo_session) = 1"
    by (simp add: expire_handler_def disconnect_defs demo_session_def connect_def new_session_def try_receive_def Let_def)
  with unregisters_exactly_once [OF r] show ?thesis by simp
qed

subsection \<open>A request served\<close>

lemma fill_started:
  assumes "started s" "length data \<le> ws_buffer_option s"
  shows "ws_receive_buffer (fill_buffer data s) = data @ replicate (ws_buffer_option s - length data) nul"
    "ws_parser (fill_buffer data s) = new_parser" "ws_read s = Some (ws_buffer_option s)"
    "ws_connected (fill_buffer data s)" "ws_open (fill_buffer data s)" "fresh_send (fill_buffer data s)"
    "\<not> ec_true (ws_close_error (fill_buffer data s))" "ws_effects (fill_buffer data s) = []"
  using assms
  by (auto simp: started_def fill_buffer_def connect_def new_session_def try_receive_def resize_def fresh_send_def)

lemma serve_step:
  assumes "started s" "rt_wf r" "text_content (ct_of_headers (rt_table r))"
    and "announced (rt_table r) = Some n" "n \<le> 0 \<or> body \<noteq> []"
    and "data = rt_head r @ crlf @ body" "length data \<le> ws_buffer_option s"
    and "run_middlewares ms h (rt_request r (crlf @ crlf @ body)) new_response = (h', resp, Inr ())"
  shows "\<exists>s'. session_step ms ord (Live h s) (Live h' s')
    \<and> conf_of (async_receive_handler ms ord no_error (length data) h (fill_buffer data s)) = Live h' s'
    \<and> ws_write s' = W_pending (fst (build ord resp)) \<and> ws_accepted s' = fst (build ord resp)
    \<and> \<not> ws_connected s' \<and> \<not> ws_open s' \<and> ws_read s' = None
    \<and> ws_effects s' = [Ef_unregister (ws_session_id s)]"
proof -
  let ?b = "replicate (ws_buffer_option s) nul" and ?p = "(head_parsed r)\<lparr>ps_phase := ph_finished\<rparr>"
  have rec: "receiving ?b new_parser s" using assms(1) by (rule started_receiving)
  have fit: "data \<noteq> []" "length data \<le> length ?b" using assms(6,7) by (simp_all add: crlf_def)
  have "at (data @ drop (length data) ?b) 0 (rt_head r @ crlf @ body)" by (simp only: assms(6) [symmetric] at_whole)
  from parse_text_whole [OF assms(2) this refl assms(3-5)]
  have "parse (data @ drop (length data) ?b) (length data) new_parser =
      Some (Inr (Some (rt_request r (crlf @ crlf @ body)), ?p, None))"
    by (simp only: assms(6) [symmetric])
  from done_step [OF rec fit this _ assms(8), of ord] deliver_step [OF rec fit(2), of ms ord h] show ?thesis by auto
qed

text \<open>
  C2. A request served, from bytes to bytes: when the first data of a session are a well-formed
  request and the middlewares answer it without an exception, then
  the handler of the read parses it, runs the middlewares on exactly that request and a new
  response, starts one write of exactly the built response, closes and unregisters the session,
  and leaves no read in progress.
\<close>

theorem request_is_served:
  assumes "started s" "rt_wf r" "text_content (ct_of_headers (rt_table r))"
    and "announced (rt_table r) = Some n" "n \<le> 0 \<or> body \<noteq> []"
    and "data = rt_head r @ crlf @ body" "length data \<le> ws_buffer_option s"
    and "run_middlewares ms h (rt_request r (crlf @ crlf @ body)) new_response = (h', resp, Inr ())"
  shows "\<exists>s'. session_step ms ord (Live h s) (Live h' s')
    \<and> conf_of (async_receive_handler ms ord no_error (length data) h (fill_buffer data s)) = Live h' s'
    \<and> ws_write s' = W_pending (fst (build ord resp)) \<and> ws_accepted s' = fst (build ord resp)
    \<and> \<not> ws_connected s' \<and> \<not> ws_open s' \<and> ws_read s' = None
    \<and> ws_effects s' = [Ef_unregister (ws_session_id s)]"
  by (rule serve_step [OF assms])

lemma demo_run_at:
  assumes "rt_target r = ''/a''" "rt_method r = ''GET''"
  shows "run_middlewares [Mw_routing [0]] (\<lambda>_. demo_route) (rt_request r b) new_response
    = (\<lambda>_. demo_route, set_body ''ok'' (set_status st_ok new_response), Inr ())"
proof -
  have "rq_target (rt_request r b) = ''/a''" "rq_method (rt_request r b) = m_get"
    using assms by (simp_all add: rt_request_def mk_request_def to_method_def)
  then have "is_match_with_target_request (rq_target (rt_request r b)) (rq_method (rt_request r b)) demo_route
      = (demo_route, Inr True)"
    by (simp add: is_match_with_target_request_def demo_route_def starts_with_def)
  then show ?thesis by (simp add: routing_execute_def call_route_def fun_upd_idem) (simp add: demo_route_def)
qed

lemma demo_run:
  "run_middlewares [Mw_routing [0]] (\<lambda>_. demo_route) (rt_request demo_request b) new_response
    = (\<lambda>_. demo_route, set_body ''ok'' (set_status st_ok new_response), Inr ())"
  by (rule demo_run_at) (simp_all add: demo_request_def)

lemma demo_serve:
  "\<exists>s'. session_step [Mw_routing [0]] rev (Live (\<lambda>_. demo_route) demo_session) (Live (\<lambda>_. demo_route) s')
    \<and> ws_write s' = W_pending (fst (build rev (set_body ''ok'' (set_status st_ok new_response))))"
proof -
  have "length (rt_head demo_request @ crlf @ ''hi'') \<le> ws_buffer_option demo_session"
    by code_simp
  from serve_step [OF demo_started demo_wf demo_plain _ refl this demo_run] show ?thesis by auto
qed

theorem request_is_served_witness:
  "\<exists>s'. session_step [Mw_routing [0]] rev (Live (\<lambda>_. demo_route) demo_session) (Live (\<lambda>_. demo_route) s')
    \<and> ws_accepted s' = fst (build rev (set_body ''ok'' (set_status st_ok new_response)))"
proof -
  have "length (rt_head demo_request @ crlf @ ''hi'') \<le> ws_buffer_option demo_session"
    by code_simp
  from request_is_served [OF demo_started demo_wf demo_plain _ refl this demo_run, of rev] show ?thesis by auto
qed

text \<open>
  C5. A request in many segments.  What a session does with the segments it receives is what its
  parser makes of them, each read with what the receive buffer holds behind it: while there is no
  request it goes on reading, and when the last segment completes one, the middlewares run on that
  request and a new response, one write of exactly the built response starts, and the session
  is closed and unregistered.  (What the parser makes of segments is said by the properties of
  bodies and uploads in segments.)
\<close>

theorem segments_are_served:
  assumes "started s" "b = replicate (ws_buffer_option s) nul" "segments_fit (ds @ [d]) b"
    and "parse_segments (with_slack ds b) new_parser = Some (None, q1)"
    and "parse_segments (with_slack (ds @ [d]) b) new_parser = Some (Some rq, q2)"
    and "run_middlewares ms h rq new_response = (h', resp, Inr ())"
  shows "\<exists>s'. deliver ms ord (ds @ [d]) (Live h s) = Live h' s' \<and> (session_step ms ord)\<^sup>*\<^sup>* (Live h s) (Live h' s')
    \<and> ws_write s' = W_pending (fst (build ord resp)) \<and> ws_accepted s' = fst (build ord resp)
    \<and> \<not> ws_connected s' \<and> \<not> ws_open s' \<and> ws_read s' = None
    \<and> ws_effects s' = [Ef_unregister (ws_session_id s)]"
proof -
  have "ps_phase new_parser \<noteq> ph_finished" by (simp add: new_parser_def)
  from session_segments [OF started_receiving [OF assms(1), folded assms(2)] this assms(3-6)] show ?thesis .
qed

definition demo_get_body :: request_text where
  "demo_get_body = demo_request\<lparr>rt_headers := [\<lparr>ht_name = ''Content-Length'', ht_space = '' '', ht_value = ''2''\<rparr>]\<rparr>"

theorem segments_are_served_witness:
  "\<exists>s'. deliver [Mw_routing [0]] rev [rt_head demo_get_body @ crlf, ''hi''] (Live (\<lambda>_. demo_route) demo_session)
      = Live (\<lambda>_. demo_route) s'
    \<and> ws_accepted s' = fst (build rev (set_body ''ok'' (set_status st_ok new_response)))"
proof -
  let ?b = "replicate (ws_buffer_option demo_session) nul" and ?d = "rt_head demo_get_body @ crlf"
  have g: "rt_wf demo_get_body" "text_content (ct_of_headers (rt_table demo_get_body))"
    "announced (rt_table demo_get_body) = Some 2" "segments_fit ([?d] @ [''hi'']) ?b" by code_simp+
  note two = parse_two_text [OF g(1-3), of _ "''hi''"]
  have w: "parse_segments (with_slack [?d] ?b) new_parser = Some (None, (head_parsed demo_get_body)\<lparr>ps_phase := ph_body_pending\<rparr>)"
    "parse_segments (with_slack ([?d] @ [''hi'']) ?b) new_parser =
      Some (Some (rt_request demo_get_body ''hi''), (head_parsed demo_get_body)\<lparr>ps_phase := ph_finished\<rparr>)"
    using two by simp_all
  have r: "run_middlewares [Mw_routing [0]] (\<lambda>_. demo_route) (rt_request demo_get_body ''hi'') new_response
    = (\<lambda>_. demo_route, set_body ''ok'' (set_status st_ok new_response), Inr ())"
    by (rule demo_run_at) (simp_all add: demo_get_body_def demo_request_def)
  from segments_are_served [OF demo_started refl g(4) w r, of rev] show ?thesis by auto
qed

text \<open>
  A response is cut where the first write ends: the session closes in the handler that starts
  the write, so once that write has completed, with however few bytes, no further step puts
  another byte on the wire, and no step throws.
\<close>

lemma first_write_is_the_last:
  assumes "reachable ms ord (Live h s)" "ws_write s = W_done n ec"
    and "(session_step ms ord)\<^sup>*\<^sup>* (Live h s) c"
  shows "\<exists>h' s'. c = Live h' s' \<and> ws_wire s' = ws_wire s"
proof -
  have "session_inv ord s" using reachable_inv [OF assms(1)] by (simp add: conf_inv_def)
  with assms(2) have "written s" by (auto simp: written_def session_inv_def fresh_send_def)
  from written_steps [OF assms(3) this] show ?thesis by blast
qed

lemma first_write_is_the_last_witness:
  "\<exists>h s. ws_wire s = ''HT'' \<and> (\<forall>c. (session_step [Mw_routing [0]] rev)\<^sup>*\<^sup>* (Live (h :: nat store) s) c \<longrightarrow>
    (\<exists>h' s'. c = Live h' s' \<and> ws_wire s' = ''HT''))"
proof -
  obtain s' where s': "session_step [Mw_routing [0]] rev (Live (\<lambda>_. demo_route) demo_session) (Live (\<lambda>_. demo_route) s')"
    "ws_write s' = W_pending (fst (build rev (set_body ''ok'' (set_status st_ok new_response))))"
    using demo_serve by blast
  have r: "reachable [Mw_routing [0]] rev (Live (\<lambda>_. demo_route) s')"
    by (rule reachable.step [OF reachable.init [OF demo_started] s'(1)])
  have w: "ws_wire s' = []" using reachable_inv [OF r] s'(2) by (simp add: conf_inv_def session_inv_def one_write_def)
  have b: "fst (build rev (set_body ''ok'' (set_status st_ok new_response))) = ''HT'' @ drop 2 (fst (build rev (set_body ''ok'' (set_status st_ok new_response))))"
    by code_simp
  let ?s = "s'\<lparr>ws_write := W_done 2 no_error, ws_wire := ws_wire s' @ take 2 (fst (build rev (set_body ''ok'' (set_status st_ok new_response))))\<rparr>"
  have "2 \<le> length (fst (build rev (set_body ''ok'' (set_status st_ok new_response))))" by code_simp
  then have "session_step [Mw_routing [0]] rev (Live (\<lambda>_. demo_route) s') (Live (\<lambda>_. demo_route) ?s)"
    by (intro session_step.write_done [OF s'(2)]) simp_all
  from first_write_is_the_last [OF reachable.step [OF r this], of 2 no_error]
  have "(session_step [Mw_routing [0]] rev)\<^sup>*\<^sup>* (Live (\<lambda>_. demo_route) ?s) c \<Longrightarrow> \<exists>h' s''. c = Live h' s'' \<and> ws_wire s'' = ws_wire ?s" for c
    by simp
  moreover have "ws_wire ?s = ''HT''" using w by simp code_simp
  ultimately show ?thesis by metis
qed

subsection \<open>The send buffers\<close>

text \<open>
  C11. The two send buffers are a queue: for any interleaving of sends with completed writes, of
  any sizes, the bytes the socket has taken followed by those still waiting are the bytes that
  waited at first followed by those of all sends, in order; and the invariant (one write in
  progress exactly while bytes wait, of exactly the unsent part of the flush buffer, the
  statistics equal to the lengths) holds again.
\<close>

theorem send_buffers_fifo:
  assumes "sq_inv s" "send_run evs s = (out, s')"
  shows "sq_inv s' \<and> out @ sq_waiting s' = sq_waiting s @ concat [b. Inl b \<leftarrow> evs]"
  using sq.run_fifo [OF assms(1)] assms(2) by (simp add: send_run_eq)

lemma demo_sq_inv: "sq_inv demo_session"
  by (simp add: demo_session_def sq_inv_def connect_def new_session_def try_receive_def)

lemma demo_waiting: "sq_waiting demo_session = []"
  by (simp add: demo_session_def sq_waiting_def connect_def new_session_def try_receive_def)

theorem send_buffers_fifo_witness:
  "case send_run [Inl ''abc'', Inl ''de'', Inr 2, Inr 9, Inl ''f'', Inr 1] demo_session of (out, s') \<Rightarrow>
    sq_inv s' \<and> out @ sq_waiting s' = ''abcdef''"
proof -
  obtain out s' where r: "send_run [Inl ''abc'', Inl ''de'', Inr 2, Inr 9, Inl ''f'', Inr 1] demo_session = (out, s')"
    by fastforce
  from send_buffers_fifo [OF demo_sq_inv r] r demo_waiting show ?thesis by simp
qed

text \<open>
  No stall: from any state of the queue, as many completions as bytes wait, each taking at
  least one byte, send everything; the session starts every write itself.
\<close>

lemma send_buffers_drain:
  assumes "sq_inv s" "length (sq_waiting s) \<le> length ns" "\<forall>n\<in>set ns. 0 < n"
  shows "fst (send_run (map Inr ns) s) = sq_waiting s \<and> sq_waiting (snd (send_run (map Inr ns) s)) = []"
proof -
  have "concat [b. Inl b \<leftarrow> map Inr ns] = []" by (induction ns) auto
  moreover have "sq_waiting (snd (send_run (map Inr ns) s)) = []"
    using sq.run_drains [OF assms] by (simp add: send_run_eq)
  ultimately show ?thesis
    using sq.run_fifo [OF assms(1), of "map Inr ns" "fst (send_run (map Inr ns) s)" "snd (send_run (map Inr ns) s)"]
    by (simp add: send_run_eq)
qed

lemma send_buffers_drain_witness:
  "fst (send_run (map Inr [2, 1, 1]) (sq_enq ''abc'' demo_session)) = ''abc''"
proof -
  have "sq_inv (sq_enq ''abc'' demo_session)" "sq_waiting (sq_enq ''abc'' demo_session) = ''abc''"
    using sq_enq_inv [OF demo_sq_inv] demo_waiting by simp_all
  then show ?thesis
    using send_buffers_drain [of "sq_enq ''abc'' demo_session" "[2, 1, 1]"] by simp
qed

text \<open>
  A write that completes without a byte stalls the session for good when bytes wait in both
  buffers: its handler returns before it looks at the error, so the session stays connected, no
  write is in progress, and \<open>send_async\<close> reports success for every further text but starts none.
\<close>

lemma empty_completion_stalls:
  assumes "sq_inv s" "ws_main s \<noteq> []" "\<forall>b\<in>set bs. b \<noteq> []"
  shows "case fold sq_enq bs (async_write_handler ec 0 s) of s' \<Rightarrow>
    ws_connected s' = ws_connected s \<and> ws_write s' = W_idle \<and> \<not> ws_sending s' \<and> sq_waiting s' = sq_waiting s @ concat bs"
proof -
  have "stalled (fold sq_enq bs s0) \<and> ws_connected (fold sq_enq bs s0) = ws_connected s0
      \<and> sq_waiting (fold sq_enq bs s0) = sq_waiting s0 @ concat bs" if "stalled s0" for s0
    using that assms(3)
  proof (induction bs arbitrary: s0)
    case (Cons b bs)
    from stalled_send [of s0 b] Cons.prems obtain s1 where "sq_enq b s0 = s1" "stalled s1"
      "ws_connected s1 = ws_connected s0" "sq_waiting s1 = sq_waiting s0 @ b"
      by (auto simp: sq_enq_def)
    with Cons.IH [of s1] Cons.prems show ?case by simp
  qed simp
  moreover have "stalled (async_write_handler ec 0 s)" "ws_connected (async_write_handler ec 0 s) = ws_connected s"
    "sq_waiting (async_write_handler ec 0 s) = sq_waiting s"
    using assms(1,2) by (auto simp: sq_inv_def stalled_def async_write_handler_def Let_def sq_waiting_def)
  ultimately show ?thesis by (auto simp: stalled_def)
qed

lemma empty_completion_stalls_witness:
  "case fold sq_enq [''x''] (async_write_handler bad_descriptor 0 (sq_enq ''b'' (sq_enq ''a'' demo_session))) of s' \<Rightarrow>
    ws_connected s' \<and> ws_write s' = W_idle \<and> sq_waiting s' = ''abx''"
proof -
  let ?s = "sq_enq ''b'' (sq_enq ''a'' demo_session)"
  have "sq_inv ?s" "sq_waiting ?s = ''ab''" using sq_enq_inv demo_sq_inv demo_waiting by simp_all
  moreover have "ws_main ?s \<noteq> []" "ws_connected ?s" by code_simp+
  ultimately show ?thesis using empty_completion_stalls [of ?s "[''x'']" bad_descriptor] by simp
qed

text \<open>
  The statistic \<open>bytes_sending_\<close> underflows on every answered request: closing resets it to 0
  and the handler of the write then subtracts the bytes that were sent, so that it ends at
  \<open>2 ^ 64\<close> minus their number.
\<close>

lemma sending_counter_underflows:
  assumes "fresh_send s" "ws_connected s" "ws_open s" "\<not> ec_true (ws_close_error s)"
    and "0 < n" "n < 2 ^ 64"
  shows "case respond ord r s of (s', out) \<Rightarrow>
    int (unat (ws_bytes_sending (async_write_handler ec n (s'\<lparr>ws_write := W_done n ec\<rparr>)))) = 2 ^ 64 - int n"
proof -
  obtain s' where s': "respond ord r s = (s', Inr ())" "\<not> ws_connected s'" "ws_main s' = []" "ws_flush s' = []"
    "ws_bytes_sending s' = 0"
    using respond_open [OF assms(1-4), of ord r] by auto
  have "ws_bytes_sending (async_write_handler ec n (s'\<lparr>ws_write := W_done n ec\<rparr>)) = - word_of_nat n"
    using s' assms(5) by (auto simp: async_write_handler_def Let_def try_send_def disconnect_def)
  moreover have "int (unat (- (word_of_nat n :: u64))) = 2 ^ 64 - int n"
  proof -
    have "uint (- (word_of_nat n :: u64)) = (- int n) mod 2 ^ 64"
      by (simp add: uint_word_ariths unsigned_of_nat take_bit_eq_mod mod_minus_eq of_nat_mod)
    also have "\<dots> = 2 ^ 64 - int n" using assms(5,6) by (simp add: zmod_zminus1_eq_if)
    finally show ?thesis by simp
  qed
  ultimately show ?thesis using s'(1) by simp
qed

lemma sending_counter_underflows_witness:
  "case respond rev new_response demo_session of (s', out) \<Rightarrow>
    int (unat (ws_bytes_sending (async_write_handler no_error 38 (s'\<lparr>ws_write := W_done 38 no_error\<rparr>)))) = 2 ^ 64 - 38"
  using sending_counter_underflows [where s = demo_session and n = 38 and ord = rev and r = new_response and ec = no_error]
  by (simp add: fresh_send_def demo_session_def connect_def new_session_def try_receive_def)

lemma cut_name_step:
  assumes "started s" "line_wf m t" "list_all is_valid_token name" "2 \<le> length name"
    and "to_lower name \<noteq> ''content-type''" "length (cut_name m t name) + 5 \<le> ws_buffer_option s"
  shows "session_step ms ord (Live h s) (Ended Length_error)"
proof -
  let ?data = "cut_name m t name" and ?slack = "replicate (ws_buffer_option s - length (cut_name m t name)) nul"
  have le: "length ?data \<le> ws_buffer_option s" using assms(6) by simp
  note f = fill_started [OF assms(1) le]
  have ne: "length ?data \<noteq> 0" using assms(4) by (auto simp: cut_name_def)
  have "parse (?data @ ?slack) (length ?data) new_parser = Some (Inl Length_error)"
    by (rule parse_cut_name [OF assms(2-5)]) (use assms(6) in simp)
  then have "conf_of (async_receive_handler ms ord no_error (length ?data) h (fill_buffer ?data s)) = Ended Length_error"
    using ne f(1,2) by (simp add: async_receive_handler_def on_receive_def Let_def)
  with session_step.read_data [OF f(3) le, of ms ord h] show ?thesis by simp
qed

text \<open>
  Any client can stop the server with one packet: data that end in a header name (a valid
  request line, then a name and no colon) make the parser throw \<open>std::length_error\<close> in the read
  handler, which nothing on the way to the io thread's loop catches; the loop ends, and from then
  on no handler runs.
\<close>

lemma cut_name_ends_the_io_thread:
  assumes "started s" "line_wf m t" "list_all is_valid_token name" "2 \<le> length name"
    and "to_lower name \<noteq> ''content-type''" "length (cut_name m t name) + 5 \<le> ws_buffer_option s"
  shows "session_step ms ord (Live h s) (Ended Length_error) \<and> \<not> session_step ms ord (Ended Length_error) c"
  using cut_name_step [OF assms] by (simp add: session_step_Ended)

lemma cut_name_ends_the_io_thread_witness:
  "session_step [Mw_cors] rev (Live (\<lambda>_. demo_route) demo_session) (Ended Length_error)"
proof -
  have wf: "line_wf ''GET'' ''/''" "list_all is_valid_token ''Host''" "to_lower ''Host'' \<noteq> ''content-type''"
    "length (cut_name ''GET'' ''/'' ''Host'') + 5 \<le> ws_buffer_option demo_session" by code_simp+
  show ?thesis
    using cut_name_ends_the_io_thread [OF demo_started wf(1,2) _ wf(3,4), of "[Mw_cors]" rev "\<lambda>_. demo_route"] by simp
qed

end
