(* ===== verification/Server.thy ===== *)
theory Server
  imports Session_Steps
begin

text \<open>
  \<open>WebServer\<close> of \<open>server/webserver.hpp\<close> and \<open>server/impl/webserver.cpp\<close>: its members, its
  operations, and the server with all its sessions and the environment as a step relation.  The
  sessions are objects behind shared pointers: \<open>wb_objects\<close> holds every session ever created, an
  address is an index, and \<open>wb_sessions\<close> is the registry \<open>sessions_\<close>.  Objects are never freed in
  the model.  \<open>wb_queue\<close> are the handlers of the server that are ready to run; the handlers of a
  session run when its environment lets them (\<open>session_step\<close>).
\<close>

text \<open>What the system answered to \<open>make_address\<close>, \<open>open\<close>, \<open>bind\<close> and \<open>listen\<close>.\<close>

record listen_answers =
  la_address :: error_code
  la_open :: error_code
  la_bind :: error_code
  la_listen :: error_code

text \<open>How an \<open>async_accept\<close> ended, and what the system answers to the options set on the new socket.\<close>

record accept_answers =
  aa_accept :: error_code
  aa_option :: error_code

definition client_came :: accept_answers where
  "client_came = \<lparr>aa_accept = no_error, aa_option = no_error\<rparr>"

lemma client_came_simps [simp]: "aa_accept client_came = no_error" "aa_option client_came = no_error"
  by (simp_all add: client_came_def)

datatype handler = H_start listen_answers | H_accept nat accept_answers | H_expire nat error_code

record 'x server =
  wb_host :: string
  wb_port :: u16
  wb_started :: bool
  wb_running :: bool \<comment> \<open>the loop of \<open>context_handler\<close>\<close>
  wb_last_session_id :: u64
  wb_objects :: "session list"
  wb_sessions :: "u64 \<Rightarrow> nat option"
  wb_middlewares :: "'x middleware list"
  wb_store :: "'x store"
  wb_accepting :: "nat option" \<comment> \<open>the session of the \<open>async_accept\<close> in progress\<close>
  wb_queue :: "handler list"
  wb_errors :: "error_code list" \<comment> \<open>the calls of \<open>on_error_\<close>\<close>
  wb_buffer_option :: nat
  wb_close_error :: error_code

definition new_server :: "string \<Rightarrow> u16 \<Rightarrow> 'x store \<Rightarrow> nat \<Rightarrow> error_code \<Rightarrow> 'x server" where
  "new_server host port h option close_error =
     \<lparr>wb_host = host, wb_port = port, wb_started = False, wb_running = False, wb_last_session_id = 0,
      wb_objects = [], wb_sessions = (\<lambda>_. None), wb_middlewares = [], wb_store = h, wb_accepting = None,
      wb_queue = [], wb_errors = [], wb_buffer_option = option, wb_close_error = close_error\<rparr>"

definition server_error_cb :: "error_code \<Rightarrow> 'x server \<Rightarrow> 'x server" where
  "server_error_cb ec v = v\<lparr>wb_errors := wb_errors v @ [ec]\<rparr>"

definition add_middleware :: "'x middleware \<Rightarrow> 'x server \<Rightarrow> 'x server" where
  "add_middleware m v = v\<lparr>wb_middlewares := wb_middlewares v @ [m]\<rparr>"

subsection \<open>The registry\<close>

text \<open>\<open>std::map::emplace\<close> keeps an entry that is there.\<close>

definition register_session :: "nat \<Rightarrow> 'x server \<Rightarrow> 'x server" where
  "register_session a v =
     (let k = ws_session_id (wb_objects v ! a)
      in v\<lparr>wb_sessions := if wb_sessions v k = None then (wb_sessions v)(k := Some a) else wb_sessions v\<rparr>)"

definition unregister_session :: "u64 \<Rightarrow> 'x server \<Rightarrow> 'x server" where
  "unregister_session k v = v\<lparr>wb_sessions := (wb_sessions v)(k := None)\<rparr>"

definition create_session :: "u64 \<Rightarrow> 'x server \<Rightarrow> nat \<times> 'x server" where
  "create_session session_id v =
     (length (wb_objects v),
      v\<lparr>wb_objects := wb_objects v @ [new_session session_id (wb_buffer_option v) (wb_close_error v)]\<rparr>)"

text \<open>An operation of a session replaces the object; its new effects reach the server.\<close>

fun apply_effect :: "effect \<Rightarrow> 'x server \<Rightarrow> 'x server" where
  "apply_effect (Ef_error ec) v = server_error_cb ec v"
| "apply_effect (Ef_unregister k) v = unregister_session k v"

definition update_session :: "nat \<Rightarrow> session \<Rightarrow> 'x server \<Rightarrow> 'x server" where
  "update_session a s v =
     fold apply_effect (drop (length (ws_effects (wb_objects v ! a))) (ws_effects s))
       (v\<lparr>wb_objects := (wb_objects v)[a := s]\<rparr>)"

subsection \<open>Accepting\<close>

definition accept_handler :: "'x server \<Rightarrow> 'x server" where
  "accept_handler v =
     (if \<not> wb_started v then server_error_cb (make_error (server_error_value se_server_not_started)) v
      else
        (let session_id = wb_last_session_id v + 1;
             (a, v1) = create_session session_id (v\<lparr>wb_last_session_id := session_id\<rparr>)
         in (register_session a v1)\<lparr>wb_accepting := Some a\<rparr>))"

text \<open>
  Two things outside the members decide what an operation does: whether assertions are compiled in
  (no \<open>NDEBUG\<close>), and whether a \<open>shared_ptr\<close> owns the server, without which \<open>shared_from_this\<close> in
  \<open>create_session\<close> throws \<open>bad_weak_ptr\<close>.  The operations on a server in use with assertions have
  the plain names.
\<close>

record mode =
  md_asserts :: bool
  md_shared :: bool

definition debug :: mode where
  "debug = \<lparr>md_asserts = True, md_shared = True\<rparr>"

lemma debug_simps [simp]: "md_asserts debug" "md_shared debug"
  by (simp_all add: debug_def)

definition accept_in :: "mode \<Rightarrow> 'x server \<Rightarrow> cpp_exn + 'x server" where
  "accept_in md v =
     (if md_asserts md \<and> \<not> wb_started v then Inl Assertion_failed
      else if \<not> wb_started v then Inr (server_error_cb (make_error (server_error_value se_server_not_started)) v)
      else if \<not> md_shared md then Inl Bad_weak_ptr
      else Inr (accept_handler v))"

abbreviation accept :: "'x server \<Rightarrow> cpp_exn + 'x server" where
  "accept \<equiv> accept_in debug"

lemma accept_def: "accept v = (if \<not> wb_started v then Inl Assertion_failed else Inr (accept_handler v))"
  by (simp add: accept_in_def)

text \<open>
  The timer of the source is a local variable of the handler: destroying it at the end of the
  block cancels its wait, whose handler is then ready with \<open>operation_aborted\<close>.
\<close>

definition operation_aborted :: error_code where
  "operation_aborted = \<lparr>ec_value = 125, ec_cat = system_cat\<rparr>"

definition async_accept_handler_in :: "mode \<Rightarrow> nat \<Rightarrow> accept_answers \<Rightarrow> 'x server \<Rightarrow> cpp_exn + 'x server" where
  "async_accept_handler_in md a aa v =
     (if ec_true (aa_accept aa) then Inr (server_error_cb (aa_accept aa) v)
      else (case connect_in (aa_option aa) ((wb_objects v ! a)\<lparr>ws_open := True\<rparr>) of
          Inl e \<Rightarrow> Inl e
        | Inr s \<Rightarrow>
            (let v1 = update_session a s v
             in accept_in md (v1\<lparr>wb_queue := wb_queue v1 @ [H_expire a operation_aborted]\<rparr>))))"

abbreviation async_accept_handler :: "nat \<Rightarrow> accept_answers \<Rightarrow> 'x server \<Rightarrow> cpp_exn + 'x server" where
  "async_accept_handler \<equiv> async_accept_handler_in debug"

lemma async_accept_handler_eq:
  "async_accept_handler_in md a aa v =
     (if ec_true (aa_accept aa) then Inr (server_error_cb (aa_accept aa) v)
      else if ec_true (aa_option aa) then Inl (Runtime_error ''set_option'')
      else
        (let v1 = update_session a (connect ((wb_objects v ! a)\<lparr>ws_open := True\<rparr>)) v
         in accept_in md (v1\<lparr>wb_queue := wb_queue v1 @ [H_expire a operation_aborted]\<rparr>)))"
  by (simp add: async_accept_handler_in_def connect_in_def)

lemmas async_accept_handler_def = async_accept_handler_eq [of debug]

subsection \<open>Starting and stopping\<close>

definition start_handler_in :: "mode \<Rightarrow> listen_answers \<Rightarrow> 'x server \<Rightarrow> cpp_exn + 'x server" where
  "start_handler_in md la v =
     (if ec_true (la_address la) then Inr (server_error_cb (la_address la) v)
      else if ec_true (la_open la) then Inr (server_error_cb (la_open la) v)
      else if ec_true (la_bind la) then Inr (server_error_cb (la_bind la) v)
      else if ec_true (la_listen la) then Inl (Runtime_error ''listen'')
      else accept_in md v)"

abbreviation start_handler :: "listen_answers \<Rightarrow> 'x server \<Rightarrow> cpp_exn + 'x server" where
  "start_handler \<equiv> start_handler_in debug"

lemmas start_handler_def = start_handler_in_def [of debug]

definition start_in :: "mode \<Rightarrow> listen_answers \<Rightarrow> 'x server \<Rightarrow> cpp_exn + 'x server" where
  "start_in md la v =
     (if md_asserts md \<and> wb_started v then Inl Assertion_failed
      else Inr (v\<lparr>wb_started := True, wb_running := True, wb_queue := wb_queue v @ [H_start la]\<rparr>))"

abbreviation start :: "listen_answers \<Rightarrow> 'x server \<Rightarrow> cpp_exn + 'x server" where
  "start \<equiv> start_in debug"

lemma start_def: "start la v =
     (if wb_started v then Inl Assertion_failed
      else Inr (v\<lparr>wb_started := True, wb_running := True, wb_queue := wb_queue v @ [H_start la]\<rparr>))"
  by (simp add: start_in_def)

definition stop_in :: "mode \<Rightarrow> 'x server \<Rightarrow> cpp_exn + 'x server" where
  "stop_in md v =
     (if md_asserts md \<and> wb_started v then Inl Assertion_failed
      else if \<not> wb_started v then Inr (server_error_cb (make_error (service_error_value sv_service_not_started)) v)
      else Inr (v\<lparr>wb_started := False\<rparr>))"

abbreviation stop :: "'x server \<Rightarrow> cpp_exn + 'x server" where
  "stop \<equiv> stop_in debug"

lemma stop_def: "stop v =
     (if wb_started v then Inl Assertion_failed
      else Inr (server_error_cb (make_error (service_error_value sv_service_not_started)) v))"
  by (simp add: stop_in_def)

definition is_started :: "'x server \<Rightarrow> bool" where
  "is_started v = wb_started v"

subsection \<open>The io thread\<close>

definition expire_session :: "nat \<Rightarrow> error_code \<Rightarrow> 'x server \<Rightarrow> 'x server" where
  "expire_session a ec v = update_session a (expire_handler ec (wb_objects v ! a)) v"

fun run_handler_in :: "mode \<Rightarrow> handler \<Rightarrow> 'x server \<Rightarrow> cpp_exn + 'x server" where
  "run_handler_in md (H_start la) v = start_handler_in md la v"
| "run_handler_in md (H_accept a aa) v = async_accept_handler_in md a aa v"
| "run_handler_in md (H_expire a ec) v = Inr (expire_session a ec v)"

abbreviation run_handler :: "handler \<Rightarrow> 'x server \<Rightarrow> cpp_exn + 'x server" where
  "run_handler \<equiv> run_handler_in debug"

datatype 'x server_conf = Up "'x server" | Down cpp_exn | Unknown

text \<open>
  \<open>context_handler\<close>: the loop runs handlers until one throws.  A standard exception ends the loop
  and is dropped, and the server object stays as it was before the handler (where \<open>connect\<close> throws, its
  session has an open socket and a buffer that nothing uses any more); another one or a failed
  assertion ends the process.
\<close>

definition after_handler :: "'x server \<Rightarrow> cpp_exn + 'x server \<Rightarrow> 'x server_conf" where
  "after_handler v r =
     (case r of
        Inr v' \<Rightarrow> Up v'
      | Inl e \<Rightarrow> if is_std_exn e then Up (v\<lparr>wb_running := False\<rparr>) else Down e)"

fun after_session :: "nat \<Rightarrow> 'x server \<Rightarrow> 'x conf \<Rightarrow> 'x server_conf" where
  "after_session a v (Live h s) = Up (update_session a s (v\<lparr>wb_store := h\<rparr>))"
| "after_session a v (Ended e) = after_handler v (Inl e)"
| "after_session a v Undefined = Unknown"

inductive server_step :: "(headers \<Rightarrow> headers) \<Rightarrow> 'x server_conf \<Rightarrow> 'x server_conf \<Rightarrow> bool" for ord where
  app_start: "start la v = Inr v' \<Longrightarrow> server_step ord (Up v) (Up v')"
| app_stop: "server_step ord (Up v) (case stop v of Inl e \<Rightarrow> Down e | Inr v' \<Rightarrow> Up v')"
| app_add: "server_step ord (Up v) (Up (add_middleware m v))"
| accepted: "wb_accepting v = Some a \<Longrightarrow>
    server_step ord (Up v) (Up (v\<lparr>wb_accepting := None, wb_queue := wb_queue v @ [H_accept a aa]\<rparr>))"
| handler: "wb_running v \<Longrightarrow> wb_queue v = hdl # q \<Longrightarrow>
    server_step ord (Up v) (after_handler (v\<lparr>wb_queue := q\<rparr>) (run_handler hdl (v\<lparr>wb_queue := q\<rparr>)))"
| session: "wb_running v \<Longrightarrow> a < length (wb_objects v) \<Longrightarrow>
    session_step (wb_middlewares v) ord (Live (wb_store v) (wb_objects v ! a)) c \<Longrightarrow>
    server_step ord (Up v) (after_session a v c)"

inductive server_reachable :: "(headers \<Rightarrow> headers) \<Rightarrow> 'x server_conf \<Rightarrow> bool" for ord where
  init: "\<not> ec_true close_error \<Longrightarrow> server_reachable ord (Up (new_server host port h option close_error))"
| step: "server_reachable ord c \<Longrightarrow> server_step ord c c' \<Longrightarrow> server_reachable ord c'"

subsection \<open>The invariant\<close>

text \<open>A session object: not accepted yet, or one that satisfies the session invariant.\<close>

definition is_new :: "nat \<Rightarrow> 'x server \<Rightarrow> bool" where
  "is_new a v \<longleftrightarrow> a < length (wb_objects v)
     \<and> (\<exists>sid opt ce. \<not> ec_true ce \<and> wb_objects v ! a = new_session sid opt ce)"

definition token :: "handler \<Rightarrow> nat" where
  "token h = (case h of H_expire _ _ \<Rightarrow> 0 | _ \<Rightarrow> 1)"

definition handler_ok :: "'x server \<Rightarrow> handler \<Rightarrow> bool" where
  "handler_ok v h = (case h of H_accept a aa \<Rightarrow> is_new a v | H_expire a ec \<Rightarrow> a < length (wb_objects v) | H_start la \<Rightarrow> True)"

definition tokens :: "'x server \<Rightarrow> nat" where
  "tokens v = (case wb_accepting v of None \<Rightarrow> 0 | Some _ \<Rightarrow> 1) + sum_list (map token (wb_queue v))"

definition unregistered :: "session \<Rightarrow> bool" where
  "unregistered s \<longleftrightarrow> (\<exists>i. Ef_unregister i \<in> set (ws_effects s))"

definition object_inv :: "(headers \<Rightarrow> headers) \<Rightarrow> session \<Rightarrow> bool" where
  "object_inv ord s \<longleftrightarrow> (\<exists>sid opt ce. \<not> ec_true ce \<and> s = new_session sid opt ce) \<or> session_inv ord s"

definition registry_inv :: "'x server \<Rightarrow> bool" where
  "registry_inv v \<longleftrightarrow> (\<forall>k a. wb_sessions v k = Some a \<longleftrightarrow>
     a < length (wb_objects v) \<and> ws_session_id (wb_objects v ! a) = k \<and> \<not> unregistered (wb_objects v ! a))"

definition server_inv :: "(headers \<Rightarrow> headers) \<Rightarrow> 'x server \<Rightarrow> bool" where
  "server_inv ord v \<longleftrightarrow>
     \<not> ec_true (wb_close_error v)
   \<and> wb_last_session_id v = word_of_nat (length (wb_objects v))
   \<and> (\<forall>a<length (wb_objects v). ws_session_id (wb_objects v ! a) = word_of_nat (Suc a)
        \<and> object_inv ord (wb_objects v ! a))
   \<and> (\<not> wb_started v \<longrightarrow> tokens v = 0) \<and> tokens v \<le> 1
   \<and> (\<forall>a. wb_accepting v = Some a \<longrightarrow> is_new a v)
   \<and> (\<forall>h\<in>set (wb_queue v). handler_ok v h)
   \<and> (length (wb_objects v) < 2 ^ 64 \<longrightarrow> registry_inv v)"

end
