(* ===== verification/Server_Inv.thy ===== *)
theory Server_Inv
  imports Server
begin

text \<open>
  The invariant of the server is preserved by every step: the frame of the session operations
  (\<open>extends\<close>), the effect of a session step on the registry, and the steps of the server.
\<close>

subsection \<open>What a session step keeps\<close>

definition extends :: "session \<Rightarrow> session \<Rightarrow> bool" where
  "extends s s' \<longleftrightarrow> ws_session_id s' = ws_session_id s \<and> prefix (ws_effects s) (ws_effects s')"

lemma extends_refl [simp]: "extends s s"
  by (simp add: extends_def)

lemma extends_trans: "extends a b \<Longrightarrow> extends b c \<Longrightarrow> extends a c"
  using prefix_order.trans by (auto simp: extends_def)

lemma extends_same [frame_simps]:
  "ws_session_id s' = ws_session_id s \<Longrightarrow> ws_effects s' = ws_effects s \<Longrightarrow> extends s s'"
  by (simp add: extends_def)

lemma extends_disconnect: "extends s (fst (disconnect s))"
  by (simp add: disconnect_defs Let_def extends_def)

lemma extends_expire: "extends s (expire_handler ec s)"
  using extends_disconnect by (simp add: expire_handler_def)

lemma extends_try_send: "extends s (try_send s)"
  by (simp add: try_send_def Let_def async_write_some_def extends_def)

lemma extends_try_receive: "extends s (try_receive s)"
  by (simp add: try_receive_def emit_def extends_def)

lemma extends_connect: "extends s (connect s)"
  by (simp add: connect_def try_receive_def emit_def extends_def)

lemma extends_write_handler: "extends s (async_write_handler ec n s)"
  by (simp add: async_write_handler_def Let_def try_send_def async_write_some_def disconnect_defs extends_def)

lemma extends_respond: "respond ord r s = (s', out) \<Longrightarrow> extends s s'"
proof -
  assume r: "respond ord r s = (s', out)"
  let ?b = "fst (build ord r)"
  let ?s1 = "s\<lparr>ws_main := ws_main s @ ?b, ws_bytes_pending := word_of_nat (length (ws_main s @ ?b)),
               ws_accepted := ws_accepted s @ ?b\<rparr>"
  have "extends s ?s1" by (simp add: extends_def)
  then have "extends s (if ws_main s = [] \<or> ws_flush s = [] then try_send ?s1 else ?s1)"
    using extends_try_send extends_trans by simp
  then show "extends s s'"
    using r extends_disconnect extends_trans by (auto simp: respond_def send_async_text [OF build_not_empty] Let_def)
qed

lemma extends_on_receive: "on_receive ms ord sz h s = Some (h', s', out) \<Longrightarrow> extends s s'"
proof -
  assume r: "on_receive ms ord sz h s = Some (h', s', out)"
  have p: "extends s (s\<lparr>ws_parser := p\<rparr>)" for p by (simp add: extends_def)
  show "extends s s'"
    using r p extends_trans [OF p extends_disconnect] extends_trans [OF p extends_respond]
    by (auto simp: on_receive_def Let_def split: option.split_asm sum.split_asm prod.split_asm if_split_asm)
qed

lemma extends_receive_handler: "async_receive_handler ms ord ec sz h s = Some (h', s', out) \<Longrightarrow> extends s s'"
proof -
  assume r: "async_receive_handler ms ord ec sz h s = Some (h', s', out)"
  let ?s = "s\<lparr>ws_read := None, ws_receiving := False\<rparr>"
  let ?sr = "?s\<lparr>ws_bytes_received := ws_bytes_received ?s + word_of_nat sz\<rparr>"
  have s: "extends s ?s" "extends s ?sr" by (simp_all add: extends_def)
  show "extends s s'"
  proof (cases "ec_true ec \<or> sz = 0")
    case True
    with r have "s' = fst (disconnect ?s) \<or> s' = try_receive ?s"
      by (auto simp: async_receive_handler_def Let_def split: if_split_asm)
    with extends_trans [OF s(1) extends_disconnect] extends_trans [OF s(1) extends_try_receive] show ?thesis by auto
  next
    case False
    obtain h1 s1 out1 where s1: "on_receive ms ord sz h ?sr = Some (h1, s1, out1)"
      using r False by (cases "on_receive ms ord sz h ?sr") (auto simp: async_receive_handler_def Let_def)
    have e1: "extends s s1" using extends_trans [OF s(2) extends_on_receive [OF s1]] .
    let ?t = "if length (ws_receive_buffer s1) \<le> sz
      then s1\<lparr>ws_receive_buffer := resize (2 * sz) (ws_receive_buffer s1)\<rparr> else s1"
    have t: "extends s ?t" using extends_trans [OF e1, of ?t] by (simp add: extends_def)
    show ?thesis
    proof (cases out1)
      case (Inl e)
      with r s1 False e1 show ?thesis by (simp add: async_receive_handler_def Let_def)
    next
      case (Inr u)
      with r s1 False have "s' = (if \<not> ws_connected ?t then ?t else try_receive ?t)"
        by (auto simp: async_receive_handler_def Let_def split: if_split_asm)
      with t extends_trans [OF t extends_try_receive] show ?thesis by presburger
    qed
  qed
qed

lemma extends_step: "session_step ms ord (Live h s) (Live h' s') \<Longrightarrow> extends s s'"
proof (elim session_step_Live)
  fix cap data
  assume "Live h' s' = conf_of (async_receive_handler ms ord no_error (length data) h (fill_buffer data s))"
  then have "async_receive_handler ms ord no_error (length data) h (fill_buffer data s) = Some (h', s', Inr ())"
    using conf_of_Live by metis
  from extends_receive_handler [OF this] show "extends s s'" by (simp add: extends_def fill_buffer_def)
next
  fix cap ec
  assume "Live h' s' = conf_of (async_receive_handler ms ord ec 0 h s)"
  then have "async_receive_handler ms ord ec 0 h s = Some (h', s', Inr ())" using conf_of_Live by metis
  from extends_receive_handler [OF this] show "extends s s'" .
qed (auto simp: extends_write_handler extends_expire extends_def [of s "s\<lparr>ws_write := _, ws_wire := _\<rparr>"])

text \<open>A session that is not accepted yet does not move.\<close>

lemma new_session_step:
  "session_step ms ord (Live h (new_session sid opt ce)) c \<Longrightarrow> c = Live h (new_session sid opt ce)"
  by (elim session_step_Live) (simp_all add: new_session_def expire_handler_def)

lemma object_step:
  assumes "object_inv ord s" "session_step ms ord (Live h s) (Live h' s')"
  shows "object_inv ord s'"
  using assms(1) unfolding object_inv_def
proof
  assume "\<exists>sid opt ce. \<not> ec_true ce \<and> s = new_session sid opt ce"
  with assms(2) new_session_step show "(\<exists>sid opt ce. \<not> ec_true ce \<and> s' = new_session sid opt ce) \<or> session_inv ord s'"
    by (metis conf.inject(1))
next
  assume "session_inv ord s"
  with step_inv [OF assms(2)] show "(\<exists>sid opt ce. \<not> ec_true ce \<and> s' = new_session sid opt ce) \<or> session_inv ord s'"
    by (simp add: conf_inv_def)
qed

lemma object_unregisters_own: "object_inv ord s \<Longrightarrow> Ef_unregister i \<in> set (ws_effects s) \<Longrightarrow> i = ws_session_id s"
proof -
  assume o: "object_inv ord s" and i: "Ef_unregister i \<in> set (ws_effects s)"
  then have "session_inv ord s" by (auto simp: object_inv_def new_session_def)
  moreover from i have "Ef_unregister i \<in> set (filter (\<lambda>e. \<exists>i. e = Ef_unregister i) (ws_effects s))" by simp
  ultimately show ?thesis by (auto simp: session_inv_def split: if_split_asm)
qed

subsection \<open>Effects at the server\<close>

lemma fold_apply_effect:
  "fold apply_effect es v = v\<lparr>wb_sessions := (\<lambda>k. if Ef_unregister k \<in> set es then None else wb_sessions v k),
     wb_errors := wb_errors v @ concat (map (\<lambda>e. case e of Ef_error ec \<Rightarrow> [ec] | _ \<Rightarrow> []) es)\<rparr>"
proof (induction es arbitrary: v)
  case Nil
  then show ?case by simp
next
  case (Cons e es)
  then show ?case by (cases e) (auto simp: server_error_cb_def unregister_session_def fun_eq_iff)
qed

lemma update_session_fields [frame_simps]:
  "wb_objects (update_session a s v) = (wb_objects v)[a := s]"
  "wb_queue (update_session a s v) = wb_queue v"
  "wb_accepting (update_session a s v) = wb_accepting v"
  "wb_started (update_session a s v) = wb_started v"
  "wb_last_session_id (update_session a s v) = wb_last_session_id v"
  "wb_close_error (update_session a s v) = wb_close_error v"
  "wb_buffer_option (update_session a s v) = wb_buffer_option v"
  "wb_middlewares (update_session a s v) = wb_middlewares v"
  by (simp_all add: update_session_def fold_apply_effect)

text \<open>Distinct addresses have distinct ids as long as the 64-bit counter has not wrapped.\<close>

lemma ids_distinct:
  assumes "\<forall>a<n. f a = (word_of_nat (Suc a) :: u64)" "n < 2 ^ 64" "a < n" "b < n" "f a = f b"
  shows "a = b"
proof -
  have "unat (word_of_nat (Suc a) :: u64) = Suc a" "unat (word_of_nat (Suc b) :: u64) = Suc b"
    using assms(2-4) by (subst unat_of_nat; simp)+
  with assms show ?thesis by (metis Suc_inject)
qed

lemma registry_update:
  assumes inv: "server_inv ord v" and a: "a < length (wb_objects v)" and e: "extends (wb_objects v ! a) s"
    and o: "object_inv ord s" and len: "length (wb_objects v) < 2 ^ 64"
  shows "registry_inv (update_session a s v)"
proof -
  let ?s = "wb_objects v ! a"
  have reg: "registry_inv v" and ids: "\<forall>a<length (wb_objects v). ws_session_id (wb_objects v ! a) = word_of_nat (Suc a)"
    using inv len by (auto simp: server_inv_def)
  from e obtain new where new: "ws_effects s = ws_effects ?s @ new" and id: "ws_session_id s = ws_session_id ?s"
    by (auto simp: extends_def prefix_def)
  have own: "i = ws_session_id ?s" if "Ef_unregister i \<in> set new" for i
    using object_unregisters_own [OF o, of i] that new id by simp
  have sess: "wb_sessions (update_session a s v) k = (if Ef_unregister k \<in> set new then None else wb_sessions v k)" for k
    by (simp add: update_session_def fold_apply_effect new)
  have un: "unregistered s \<longleftrightarrow> unregistered ?s \<or> Ef_unregister (ws_session_id ?s) \<in> set new"
    using own new by (auto simp: unregistered_def)
  show ?thesis unfolding registry_inv_def
  proof (intro allI)
    fix k b
    show "wb_sessions (update_session a s v) k = Some b \<longleftrightarrow> b < length (wb_objects (update_session a s v)) \<and>
        ws_session_id (wb_objects (update_session a s v) ! b) = k \<and> \<not> unregistered (wb_objects (update_session a s v) ! b)"
    proof (cases "b = a")
      case True
      with reg a id un own sess show ?thesis
        by (auto simp: registry_inv_def frame_simps)
    next
      case False
      have "Ef_unregister k \<notin> set new" if "b < length (wb_objects v)" "ws_session_id (wb_objects v ! b) = k"
        using own ids_distinct [OF ids len that(1) a] that False by auto
      with False reg sess show ?thesis by (auto simp: registry_inv_def frame_simps)
    qed
  qed
qed

text \<open>Replacing a session object by one that extends it keeps the invariant.\<close>

lemma update_inv:
  assumes inv: "server_inv ord v" and a: "a < length (wb_objects v)" and e: "extends (wb_objects v ! a) s"
    and o: "object_inv ord s" and keep: "is_new a v \<Longrightarrow> (wb_accepting v = Some a \<or> (\<exists>ec. H_accept a ec \<in> set (wb_queue v))) \<Longrightarrow> s = wb_objects v ! a"
  shows "server_inv ord (update_session a s v)"
proof -
  have new: "is_new b (update_session a s v)" if "is_new b v" "wb_accepting v = Some b \<or> (\<exists>ec. H_accept b ec \<in> set (wb_queue v))" for b
    using that keep by (cases "b = a") (auto simp: is_new_def frame_simps)
  have id: "ws_session_id s = ws_session_id (wb_objects v ! a)" using e by (simp add: extends_def)
  have q: "handler_ok (update_session a s v) h" if "h \<in> set (wb_queue v)" for h
  proof -
    have "handler_ok v h" using that inv by (simp add: server_inv_def)
    with that new show ?thesis by (cases h rule: handler.exhaust) (auto simp: handler_ok_def frame_simps)
  qed
  have t: "tokens (update_session a s v) = tokens v" by (simp add: tokens_def frame_simps)
  have obj: "\<forall>b<length (wb_objects v). ws_session_id ((wb_objects v)[a := s] ! b) = word_of_nat (Suc b)
      \<and> object_inv ord ((wb_objects v)[a := s] ! b)"
    using inv id o a by (auto simp: server_inv_def nth_list_update)
  have r: "length (wb_objects v) < 2 ^ 64 \<longrightarrow> registry_inv (update_session a s v)"
    using registry_update [OF inv a e o] by simp
  have acc: "\<forall>b. wb_accepting v = Some b \<longrightarrow> is_new b (update_session a s v)"
    using inv new by (simp add: server_inv_def)
  have rest: "\<not> ec_true (wb_close_error v)" "wb_last_session_id v = word_of_nat (length (wb_objects v))"
    "\<not> wb_started v \<longrightarrow> tokens v = 0" "tokens v \<le> 1"
    using inv by (simp_all add: server_inv_def)
  show ?thesis
    unfolding server_inv_def frame_simps length_list_update t using obj r acc rest q by blast
qed

subsection \<open>The steps of the server\<close>

lemma accept_handler_eq:
  "wb_started v \<Longrightarrow> accept_handler v =
    (let k = wb_last_session_id v + 1; a = length (wb_objects v)
     in v\<lparr>wb_last_session_id := k,
          wb_objects := wb_objects v @ [new_session k (wb_buffer_option v) (wb_close_error v)],
          wb_sessions := if wb_sessions v k = None then (wb_sessions v)(k := Some a) else wb_sessions v,
          wb_accepting := Some a\<rparr>)"
  by (simp add: accept_handler_def create_session_def register_session_def Let_def nth_append new_session_def)

lemma registry_accept:
  assumes inv: "server_inv ord v" and st: "wb_started v" and len: "Suc (length (wb_objects v)) < 2 ^ 64"
  shows "registry_inv (accept_handler v)"
proof -
  let ?n = "length (wb_objects v)" and ?k = "word_of_nat (Suc (length (wb_objects v))) :: u64"
  let ?s = "new_session ?k (wb_buffer_option v) (wb_close_error v)"
  have reg: "registry_inv v" and ids: "\<forall>a<?n. ws_session_id (wb_objects v ! a) = word_of_nat (Suc a)"
    and last: "wb_last_session_id v + 1 = ?k"
    using inv len by (auto simp: server_inv_def)
  have fresh: "ws_session_id (wb_objects v ! a) \<noteq> ?k" if "a < ?n" for a
    using ids_distinct [of "Suc ?n" "\<lambda>a. word_of_nat (Suc a)" a ?n] ids that len by auto
  then have none: "wb_sessions v ?k = None" using reg by (cases "wb_sessions v ?k") (auto simp: registry_inv_def)
  have s: "ws_session_id ?s = ?k" "\<not> unregistered ?s" by (simp_all add: new_session_def unregistered_def)
  show ?thesis
    using reg fresh none s
    unfolding registry_inv_def accept_handler_eq [OF st] Let_def last
    by (auto simp: nth_append less_Suc_eq)
qed

lemma accept_handler_inv:
  assumes inv: "server_inv ord v" and st: "wb_started v" and t: "tokens v = 0"
  shows "server_inv ord (accept_handler v)"
proof -
  let ?v = "accept_handler v"
  let ?k = "wb_last_session_id v + 1"
  let ?s = "new_session ?k (wb_buffer_option v) (wb_close_error v)"
  note eq = accept_handler_eq [OF st, unfolded Let_def]
  have ce: "\<not> ec_true (wb_close_error v)" and last: "wb_last_session_id v = word_of_nat (length (wb_objects v))"
    using inv by (auto simp: server_inv_def)
  have f: "wb_objects ?v = wb_objects v @ [?s]" "wb_queue ?v = wb_queue v" "wb_accepting ?v = Some (length (wb_objects v))"
    "wb_started ?v = wb_started v" "wb_last_session_id ?v = ?k" "wb_close_error ?v = wb_close_error v"
    by (simp_all add: eq)
  have new: "is_new (length (wb_objects v)) ?v" using ce f by (auto simp: is_new_def)
  have keep: "is_new b v \<Longrightarrow> is_new b ?v" for b using f by (auto simp: is_new_def nth_append)
  have q: "\<forall>h\<in>set (wb_queue v). handler_ok ?v h"
  proof
    fix h assume "h \<in> set (wb_queue v)"
    then have "handler_ok v h" using inv by (simp add: server_inv_def)
    with keep f show "handler_ok ?v h" by (cases h rule: handler.exhaust) (auto simp: handler_ok_def)
  qed
  have tok: "tokens ?v = 1" using t f by (auto simp: tokens_def split: option.split_asm)
  have obj: "\<forall>a<length (wb_objects ?v). ws_session_id (wb_objects ?v ! a) = word_of_nat (Suc a) \<and> object_inv ord (wb_objects ?v ! a)"
  proof (intro allI impI)
    fix a assume a: "a < length (wb_objects ?v)"
    show "ws_session_id (wb_objects ?v ! a) = word_of_nat (Suc a) \<and> object_inv ord (wb_objects ?v ! a)"
    proof (cases "a = length (wb_objects v)")
      case True
      have "object_inv ord ?s" using ce by (auto simp: object_inv_def)
      moreover have "ws_session_id ?s = ?k" by (simp add: new_session_def)
      ultimately show ?thesis using True last by (simp add: f(1))
    next
      case False
      with a inv show ?thesis by (auto simp: f(1) server_inv_def nth_append)
    qed
  qed
  have r: "length (wb_objects ?v) < 2 ^ 64 \<longrightarrow> registry_inv ?v" using registry_accept [OF inv st] f(1) by simp
  have l: "wb_last_session_id ?v = word_of_nat (length (wb_objects ?v))" using last f by simp
  show ?thesis
    unfolding server_inv_def using obj r l new q tok ce st f(2-4,6) by auto
qed

text \<open>Changes of the queue and of \<open>wb_accepting\<close> only.\<close>

lemma queue_inv:
  assumes inv: "server_inv ord v" and v': "v' = v\<lparr>wb_queue := q, wb_accepting := acc, wb_started := st, wb_running := rn\<rparr>"
    and q: "\<forall>h\<in>set q. handler_ok v h" and acc: "\<forall>a. acc = Some a \<longrightarrow> is_new a v"
    and t: "tokens v' \<le> 1" "\<not> st \<longrightarrow> tokens v' = 0"
  shows "server_inv ord v'"
proof -
  have "handler_ok v' h \<longleftrightarrow> handler_ok v h" for h
    by (cases h rule: handler.exhaust) (simp_all add: v' handler_ok_def is_new_def)
  moreover have "is_new a v' \<longleftrightarrow> is_new a v" for a by (simp add: v' is_new_def)
  moreover have "registry_inv v' \<longleftrightarrow> registry_inv v" by (simp add: v' registry_inv_def)
  moreover have "wb_queue v' = q" "wb_accepting v' = acc" "wb_started v' = st" "wb_objects v' = wb_objects v"
    "wb_close_error v' = wb_close_error v" "wb_last_session_id v' = wb_last_session_id v"
    by (simp_all add: v')
  ultimately show ?thesis using inv q acc t unfolding server_inv_def by simp
qed

lemma error_inv: "server_inv ord v \<Longrightarrow> server_inv ord (server_error_cb ec v)"
  by (simp add: server_inv_def server_error_cb_def tokens_def handler_ok_def is_new_def registry_inv_def cong: handler.case_cong)

lemma accept_inv:
  "server_inv ord v \<Longrightarrow> tokens v = 0 \<Longrightarrow> accept v = Inr v' \<Longrightarrow> server_inv ord v'"
  using accept_handler_inv by (auto simp: accept_def split: if_split_asm)

lemma started_connect:
  assumes "is_new a v"
  shows "session_inv ord (connect ((wb_objects v ! a)\<lparr>ws_open := True\<rparr>))"
    "extends (wb_objects v ! a) (connect ((wb_objects v ! a)\<lparr>ws_open := True\<rparr>))"
proof -
  have "started (connect ((wb_objects v ! a)\<lparr>ws_open := True\<rparr>))"
    using assms unfolding is_new_def started_def by metis
  then show "session_inv ord (connect ((wb_objects v ! a)\<lparr>ws_open := True\<rparr>))" by (rule started_inv)
  show "extends (wb_objects v ! a) (connect ((wb_objects v ! a)\<lparr>ws_open := True\<rparr>))"
    using extends_trans [OF _ extends_connect, of "wb_objects v ! a"] by (simp add: extends_def)
qed

lemma no_tokens: "tokens v = 0 \<Longrightarrow> wb_accepting v = None \<and> (\<forall>h\<in>set (wb_queue v). \<exists>a ec. h = H_expire a ec)"
proof -
  assume t: "tokens v = 0"
  have "\<exists>a ec. h = H_expire a ec" if "h \<in> set (wb_queue v)" for h
  proof -
    from t that have "token h = 0" by (simp add: tokens_def)
    then show ?thesis by (cases h rule: handler.exhaust) (simp_all add: token_def)
  qed
  with t show ?thesis by (auto simp: tokens_def split: option.split_asm)
qed

lemma accepted_inv:
  assumes inv: "server_inv ord v" and t: "tokens v = 0" and n: "is_new a v" and r: "async_accept_handler a aa v = Inr v'"
  shows "server_inv ord v'"
proof (cases "ec_true (aa_accept aa) \<or> ec_true (aa_option aa)")
  case True
  with r inv show ?thesis by (auto simp: async_accept_handler_def error_inv split: if_split_asm)
next
  case False
  let ?s = "connect ((wb_objects v ! a)\<lparr>ws_open := True\<rparr>)"
  let ?u = "update_session a ?s v"
  let ?w = "?u\<lparr>wb_queue := wb_queue ?u @ [H_expire a operation_aborted]\<rparr>"
  have a: "a < length (wb_objects v)" using n by (simp add: is_new_def)
  have u: "server_inv ord ?u"
  proof (rule update_inv [OF inv a started_connect(2) [OF n]])
    show "object_inv ord ?s" using started_connect(1) [OF n] by (simp add: object_inv_def)
  qed (use no_tokens [OF t] in auto)
  have tok: "tokens ?w = 0" using t by (simp add: tokens_def frame_simps token_def)
  have "server_inv ord ?w"
    by (rule queue_inv [OF u, where q = "wb_queue ?u @ [H_expire a operation_aborted]" and acc = "wb_accepting ?u"
          and st = "wb_started ?u" and rn = "wb_running ?u"])
       (use u a tok in \<open>simp_all add: server_inv_def handler_ok_def frame_simps\<close>)
  then show ?thesis using accept_inv tok r False by (auto simp: async_accept_handler_def Let_def)
qed

lemma run_handler_inv:
  assumes inv: "server_inv ord v" and q: "wb_queue v = h # q" and r: "run_handler h (v\<lparr>wb_queue := q\<rparr>) = Inr v'"
  shows "server_inv ord v'"
proof -
  let ?v = "v\<lparr>wb_queue := q\<rparr>"
  have t: "tokens v = token h + tokens ?v" by (simp add: tokens_def q)
  have ok: "handler_ok v h" "\<forall>h\<in>set q. handler_ok v h" and t1: "tokens v \<le> 1" "\<not> wb_started v \<longrightarrow> tokens v = 0"
    and acc: "\<forall>a. wb_accepting v = Some a \<longrightarrow> is_new a v"
    using inv q by (simp_all add: server_inv_def)
  have iv: "server_inv ord ?v"
    by (rule queue_inv [OF inv, where q = q and acc = "wb_accepting v" and st = "wb_started v" and rn = "wb_running v"])
       (use ok(2) t t1 acc in simp_all)
  show ?thesis
  proof (cases h)
    case (H_start la)
    then have "tokens ?v = 0" using t t1 by (simp add: token_def)
    with H_start r iv show ?thesis
      by (auto simp: start_handler_def error_inv accept_inv split: if_split_asm)
  next
    case (H_accept a aa)
    then have "tokens ?v = 0" "is_new a ?v" using t t1 ok(1) by (simp_all add: token_def handler_ok_def is_new_def)
    with H_accept r iv show ?thesis using accepted_inv by simp
  next
    case (H_expire a ec)
    then have a: "a < length (wb_objects ?v)" using ok(1) by (simp add: handler_ok_def)
    let ?s = "wb_objects ?v ! a"
    have o: "object_inv ord ?s" using iv a by (simp add: server_inv_def)
    have "object_inv ord (expire_handler ec ?s)"
      using object_step [OF o session_step.expire [of "[]" ord undefined ?s ec]] .
    moreover have "expire_handler ec ?s = ?s" if "is_new a ?v"
      using that by (auto simp: is_new_def expire_handler_def new_session_def)
    ultimately have "server_inv ord (update_session a (expire_handler ec ?s) ?v)"
      using update_inv [OF iv a extends_expire] by blast
    with H_expire r show ?thesis by (simp add: expire_session_def)
  qed
qed

lemma server_step_inv:
  assumes "server_step ord c c'" "\<forall>v. c = Up v \<longrightarrow> server_inv ord v"
  shows "\<forall>v. c' = Up v \<longrightarrow> server_inv ord v"
  using assms
proof (induction rule: server_step.induct)
  case (app_start la v v')
  then have inv: "server_inv ord v" and st: "\<not> wb_started v"
    and v': "v' = v\<lparr>wb_queue := wb_queue v @ [H_start la], wb_accepting := wb_accepting v, wb_started := True, wb_running := True\<rparr>"
    by (auto simp: start_def split: if_split_asm)
  have "tokens v' = 1" using inv st by (simp add: v' server_inv_def tokens_def token_def)
  then have "server_inv ord v'"
    by (intro queue_inv [OF inv v']) (use inv in \<open>auto simp: server_inv_def handler_ok_def\<close>)
  then show ?case by simp
next
  case (app_stop v)
  then show ?case by (auto simp: stop_def error_inv split: if_split)
next
  case (app_add v m)
  then have "server_inv ord v" by simp
  then have "server_inv ord (add_middleware m v)"
    by (simp add: server_inv_def add_middleware_def tokens_def handler_ok_def is_new_def registry_inv_def cong: handler.case_cong)
  then show ?case by simp
next
  case (accepted v a aa)
  then have inv: "server_inv ord v" by simp
  let ?v = "v\<lparr>wb_accepting := None, wb_queue := wb_queue v @ [H_accept a aa]\<rparr>"
  have t: "tokens ?v = tokens v" using accepted(1) by (simp add: tokens_def token_def)
  have "server_inv ord ?v"
    by (rule queue_inv [OF inv, where q = "wb_queue v @ [H_accept a aa]" and acc = None and st = "wb_started v" and rn = "wb_running v"])
       (use inv t accepted(1) in \<open>auto simp: server_inv_def handler_ok_def\<close>)
  then show ?case by simp
next
  case (handler v hdl q)
  then have inv: "server_inv ord v" by simp
  let ?v = "v\<lparr>wb_queue := q\<rparr>"
  have t: "tokens ?v \<le> tokens v" by (simp add: tokens_def handler(2))
  have "server_inv ord (?v\<lparr>wb_running := False\<rparr>)"
    by (rule queue_inv [OF inv, where q = q and acc = "wb_accepting v" and st = "wb_started v" and rn = False])
       (use inv t handler(2) in \<open>auto simp: server_inv_def tokens_def\<close>)
  with run_handler_inv [OF inv handler(2)] show ?case
    by (auto simp: after_handler_def split: sum.split_asm if_split_asm)
next
  case (session v a c)
  then have inv: "server_inv ord v" by simp
  show ?case
  proof (cases c)
    case (Live h s)
    let ?v = "v\<lparr>wb_store := h\<rparr>"
    have iv: "server_inv ord ?v"
      using inv by (simp add: server_inv_def tokens_def handler_ok_def is_new_def registry_inv_def cong: handler.case_cong)
    have o: "object_inv ord (wb_objects v ! a)" using inv session(2) by (simp add: server_inv_def)
    have st: "session_step (wb_middlewares v) ord (Live (wb_store v) (wb_objects v ! a)) (Live h s)"
      using session(3) Live by simp
    have "s = wb_objects v ! a" if "is_new a v"
      using that st new_session_step unfolding is_new_def by (metis conf.inject(1))
    then have "server_inv ord (update_session a s ?v)"
      using update_inv [OF iv _ _ object_step [OF o st], of a] extends_step [OF st] session(2)
      by (simp add: is_new_def)
    with Live show ?thesis by simp
  next
    case (Ended e)
    have "server_inv ord (v\<lparr>wb_running := False\<rparr>)"
      by (rule queue_inv [OF inv, where q = "wb_queue v" and acc = "wb_accepting v" and st = "wb_started v" and rn = False])
         (use inv in \<open>auto simp: server_inv_def tokens_def\<close>)
    with Ended show ?thesis by (auto simp: after_handler_def)
  qed simp
qed

lemma server_reachable_inv: "server_reachable ord c \<Longrightarrow> \<forall>v. c = Up v \<longrightarrow> server_inv ord v"
proof (induction rule: server_reachable.induct)
  case (init close_error host port h option)
  then show ?case
    by (simp add: server_inv_def new_server_def tokens_def registry_inv_def)
next
  case (step c c')
  then show ?case using server_step_inv by blast
qed

lemma up_before: "server_step ord c (Up v') \<Longrightarrow> \<exists>v. c = Up v"
  by (cases rule: server_step.cases) auto

end
