(* ===== verification/Server_Theorems.thy ===== *)
theory Server_Theorems
  imports Server_Inv Session_Theorems
begin

text \<open>
  The properties of the server: the registry of the sessions, and what ends the service (an
  accept error, the expiry timer, the assertion of \<open>stop\<close>, one malformed packet).
\<close>

text \<open>
  C3. The registry is exact.  In every state the server can reach, with any number of clients and
  any interleaving of their handlers, an id is registered exactly for the session object that
  carries it and has not unregistered; in particular every connected session is registered, under
  its own id, and no entry is left behind by one that disconnected.  (As long as fewer than
  \<open>2 ^ 64\<close> sessions were created, so that no id repeats.)
\<close>

theorem registry_is_exact:
  assumes "server_reachable ord (Up v)" "length (wb_objects v) < 2 ^ 64"
  shows "(wb_sessions v k = Some a \<longleftrightarrow> a < length (wb_objects v) \<and> ws_session_id (wb_objects v ! a) = k
      \<and> \<not> unregistered (wb_objects v ! a))
    \<and> (a < length (wb_objects v) \<and> ws_connected (wb_objects v ! a) \<longrightarrow>
        wb_sessions v (ws_session_id (wb_objects v ! a)) = Some a)"
proof -
  have inv: "server_inv ord v" using server_reachable_inv [OF assms(1)] by simp
  then have reg: "registry_inv v" using assms(2) by (simp add: server_inv_def)
  have "\<not> unregistered (wb_objects v ! a)" if "a < length (wb_objects v)" "ws_connected (wb_objects v ! a)"
  proof
    assume "unregistered (wb_objects v ! a)"
    then obtain i where i: "Ef_unregister i \<in> set (ws_effects (wb_objects v ! a))" by (auto simp: unregistered_def)
    have "object_inv ord (wb_objects v ! a)" using inv that(1) by (simp add: server_inv_def)
    with i that(2) have "session_inv ord (wb_objects v ! a)" by (auto simp: object_inv_def new_session_def)
    then have "filter (\<lambda>e. \<exists>i. e = Ef_unregister i) (ws_effects (wb_objects v ! a)) = []"
      using that(2) by (simp add: session_inv_def)
    with i show False by (auto simp: filter_empty_conv)
  qed
  with reg show ?thesis by (auto simp: registry_inv_def)
qed

text \<open>A step changes at most one of the session objects there are, and removes none.\<close>

definition same_but :: "nat \<Rightarrow> 'x server \<Rightarrow> 'x server \<Rightarrow> bool" where
  "same_but a v v' \<longleftrightarrow> length (wb_objects v) \<le> length (wb_objects v')
     \<and> (\<forall>b<length (wb_objects v). b \<noteq> a \<longrightarrow> wb_objects v' ! b = wb_objects v ! b)"

lemma same_but_same: "wb_objects v' = wb_objects v \<Longrightarrow> same_but a v v'"
  by (simp add: same_but_def)

lemma same_but_update: "wb_objects w = wb_objects v \<Longrightarrow> same_but a v (update_session a s w)"
  by (simp add: same_but_def frame_simps)

lemma same_but_accept:
  assumes "same_but a v w" "accept w = Inr v'"
  shows "same_but a v v'"
proof -
  have "v' = accept_handler w" "wb_started w" using assms(2) by (auto simp: accept_def split: if_split_asm)
  then have "wb_objects v' = wb_objects w @ [new_session (wb_last_session_id w + 1) (wb_buffer_option w) (wb_close_error w)]"
    by (simp add: accept_handler_eq Let_def)
  then show ?thesis using assms(1) by (auto simp: same_but_def nth_append)
qed

lemma handler_touches_one:
  assumes "run_handler h v = Inr v'"
  shows "\<exists>a. same_but a v v'"
proof (cases h)
  case (H_start la)
  with assms have "same_but 0 v v'"
    by (auto simp: start_handler_def server_error_cb_def split: if_split_asm
        intro: same_but_same same_but_accept [OF same_but_same])
  then show ?thesis by blast
next
  case (H_accept a aa)
  show ?thesis
  proof (cases "ec_true (aa_accept aa)")
    case True
    with H_accept assms have "same_but a v v'"
      by (auto simp: async_accept_handler_def server_error_cb_def intro: same_but_same)
    then show ?thesis by blast
  next
    case False
    have "same_but a v ((update_session a s v)\<lparr>wb_queue := q\<rparr>)" for s q
      using same_but_update [where v = v and w = v and a = a and s = s] by (simp add: same_but_def)
    with False H_accept assms have "same_but a v v'"
      by (auto simp: async_accept_handler_def Let_def intro: same_but_accept split: if_split_asm)
    then show ?thesis by blast
  qed
next
  case (H_expire a ec)
  with assms have "same_but a v v'" by (auto simp: expire_session_def intro: same_but_update)
  then show ?thesis by blast
qed

lemma step_touches_one:
  assumes "server_step ord (Up v) (Up v')"
  shows "\<exists>a. same_but a v v'"
  using assms
proof (cases rule: server_step.cases)
  case (handler h q)
  then consider "run_handler h (v\<lparr>wb_queue := q\<rparr>) = Inr v'" | "v' = v\<lparr>wb_queue := q, wb_running := False\<rparr>"
    by (auto simp: after_handler_def split: sum.split_asm if_split_asm)
  then show ?thesis
  proof cases
    case 1
    from handler_touches_one [OF this] show ?thesis by (simp add: same_but_def)
  qed (simp add: same_but_def)
next
  case (session a c)
  then have "same_but a v v'"
    by (cases c) (auto simp: after_handler_def intro: same_but_same same_but_update split: if_split_asm)
  then show ?thesis by blast
qed (auto simp: start_def stop_def add_middleware_def server_error_cb_def same_but_def split: if_split_asm)

text \<open>
  C4. Sessions are isolated.  Every step of the server in a reachable state, whichever handler, operation
  or event it is, changes at most one session: all others keep their buffers, the state of their
  parser, what they sent and whether they are connected, and they stay registered or
  unregistered as they were.  (What they share are the middlewares and the parameters stored in the routes.)
\<close>

theorem sessions_are_isolated:
  assumes "server_reachable ord (Up v)" "server_step ord (Up v) (Up v')" "length (wb_objects v') < 2 ^ 64"
  shows "\<exists>a. \<forall>b<length (wb_objects v). b \<noteq> a \<longrightarrow> wb_objects v' ! b = wb_objects v ! b
    \<and> (\<forall>k. wb_sessions v' k = Some b \<longleftrightarrow> wb_sessions v k = Some b)"
proof -
  obtain a where a: "same_but a v v'" using step_touches_one [OF assms(2)] by blast
  have reach: "server_reachable ord (Up v')" using assms(1,2) by (rule server_reachable.step)
  have len: "length (wb_objects v) \<le> length (wb_objects v')" using a by (simp add: same_but_def)
  have "length (wb_objects v) < 2 ^ 64" using le_less_trans [OF len assms(3)] .
  then have reg: "registry_inv v" "registry_inv v'"
    using server_reachable_inv [OF assms(1)] server_reachable_inv [OF reach] assms(3) by (simp_all add: server_inv_def)
  show ?thesis
  proof (intro exI [of _ a] allI impI)
    fix b assume b: "b < length (wb_objects v)" "b \<noteq> a"
    then have o: "wb_objects v' ! b = wb_objects v ! b" using a by (simp add: same_but_def)
    with reg b(1) len show "wb_objects v' ! b = wb_objects v ! b \<and> (\<forall>k. wb_sessions v' k = Some b \<longleftrightarrow> wb_sessions v k = Some b)"
      by (auto simp: registry_inv_def)
  qed
qed

definition all_ok :: listen_answers where
  "all_ok = \<lparr>la_address = no_error, la_open = no_error, la_bind = no_error, la_listen = no_error\<rparr>"

text \<open>A server on which one client has been accepted.\<close>

definition demo_server :: "nat server" where
  "demo_server = (new_server ''h'' 80 (\<lambda>_. demo_route) 100 no_error)\<lparr>wb_started := True, wb_running := True,
     wb_last_session_id := 1, wb_objects := [new_session 1 100 no_error], wb_sessions := [1 \<mapsto> 0],
     wb_queue := [H_accept 0 client_came]\<rparr>"

lemma demo_accepted: "server_reachable ord (Up (demo_server\<lparr>wb_queue := [H_accept 0 aa]\<rparr>))"
proof -
  let ?n = "new_server ''h'' 80 (\<lambda>_. demo_route) 100 no_error :: nat server"
  let ?va = "?n\<lparr>wb_started := True, wb_running := True, wb_queue := [H_start all_ok]\<rparr>"
  let ?vb = "demo_server\<lparr>wb_queue := [], wb_accepting := Some 0\<rparr>"
  have r: "server_reachable ord (Up ?n)" by (rule server_reachable.init) simp
  have "start all_ok ?n = Inr ?va" by (simp add: start_def new_server_def)
  from server_reachable.step [OF r server_step.app_start [OF this]] have ra: "server_reachable ord (Up ?va)" .
  have "run_handler (H_start all_ok) (?va\<lparr>wb_queue := []\<rparr>) = Inr ?vb"
    by (simp add: start_handler_def all_ok_def accept_def accept_handler_def create_session_def register_session_def
        Let_def new_server_def new_session_def demo_server_def)
  with server_reachable.step [OF ra server_step.handler [of ?va "H_start all_ok" "[]"]] have rb: "server_reachable ord (Up ?vb)"
    by (simp add: after_handler_def)
  from server_reachable.step [OF rb server_step.accepted [of ?vb 0 ord aa]] show ?thesis
    by (simp add: demo_server_def new_server_def)
qed

lemma demo_reachable: "server_reachable ord (Up demo_server)"
  using demo_accepted [of ord client_came] by (simp add: demo_server_def)

theorem registry_is_exact_witness:
  "wb_sessions demo_server 1 = Some 0 \<longleftrightarrow> 0 < length (wb_objects demo_server)
    \<and> ws_session_id (wb_objects demo_server ! 0) = 1 \<and> \<not> unregistered (wb_objects demo_server ! 0)"
  using registry_is_exact [OF demo_reachable, of 1 0] by (simp add: demo_server_def)

text \<open>The server when that client's session is connected, with its expiry handler ready to run.\<close>

definition demo_client :: session where
  "demo_client = connect ((new_session 1 100 no_error)\<lparr>ws_open := True\<rparr>)"

definition demo_connected :: "nat server" where
  "demo_connected = accept_handler ((update_session 0 demo_client (demo_server\<lparr>wb_queue := []\<rparr>))\<lparr>wb_queue := [H_expire 0 operation_aborted]\<rparr>)"

lemma demo_connected_reachable: "server_reachable ord (Up demo_connected)"
proof -
  have d: "wb_started demo_server" "wb_running demo_server" "wb_queue demo_server = [H_accept 0 client_came]"
    "wb_objects demo_server ! 0 = new_session 1 100 no_error" by (simp_all add: demo_server_def)
  have "run_handler (H_accept 0 client_came) (demo_server\<lparr>wb_queue := []\<rparr>) = Inr demo_connected"
    using d by (simp add: async_accept_handler_def Let_def accept_def frame_simps demo_connected_def demo_client_def)
  then have "server_step ord (Up demo_server) (Up demo_connected)"
    using server_step.handler [OF d(2,3), of ord] by (simp add: after_handler_def)
  with demo_reachable show ?thesis by (rule server_reachable.step)
qed

lemma demo_connected_parts:
  "length (wb_objects demo_connected) = 2" "wb_objects demo_connected ! 0 = demo_client" "wb_running demo_connected"
  "wb_queue demo_connected = [H_expire 0 operation_aborted]" "ws_connected demo_client"
  "\<not> ws_connected (expire_handler operation_aborted demo_client)"
proof -
  have d: "wb_started demo_server" "length (wb_objects demo_server) = 1" "wb_running demo_server"
    by (simp_all add: demo_server_def)
  show "length (wb_objects demo_connected) = 2" "wb_objects demo_connected ! 0 = demo_client"
    "wb_running demo_connected" "wb_queue demo_connected = [H_expire 0 operation_aborted]"
    using d by (simp_all add: demo_connected_def accept_handler_eq Let_def frame_simps nth_append update_session_def fold_apply_effect)
  show "ws_connected demo_client" "\<not> ws_connected (expire_handler operation_aborted demo_client)"
    by (simp_all add: demo_client_def expire_handler_def disconnect_defs connect_def new_session_def try_receive_def Let_def)
qed

theorem sessions_are_isolated_witness:
  "\<exists>v v'. server_step rev (Up (v :: nat server)) (Up v') \<and> ws_connected (wb_objects v ! 0) \<and> \<not> ws_connected (wb_objects v' ! 0)
    \<and> wb_objects v' ! 1 = wb_objects v ! 1 \<and> (\<forall>k. wb_sessions v' k = Some 1 \<longleftrightarrow> wb_sessions v k = Some 1)"
proof -
  let ?v = demo_connected
  let ?v' = "expire_session 0 operation_aborted (?v\<lparr>wb_queue := []\<rparr>)"
  note v = demo_connected_parts
  have s: "server_step rev (Up ?v) (Up ?v')"
    using server_step.handler [OF v(3,4), of rev] by (simp add: after_handler_def)
  have l: "length (wb_objects ?v') = 2" "wb_objects ?v' ! 0 = expire_handler operation_aborted demo_client"
    using v(1,2) by (simp_all add: expire_session_def frame_simps)
  have "length (wb_objects ?v') < 2 ^ 64" using l(1) by simp
  from sessions_are_isolated [OF demo_connected_reachable s this] v(1) obtain a where
    a: "\<And>b. b < 2 \<Longrightarrow> b \<noteq> a \<Longrightarrow> wb_objects ?v' ! b = wb_objects ?v ! b \<and> (\<forall>k. wb_sessions ?v' k = Some b \<longleftrightarrow> wb_sessions ?v k = Some b)"
    by auto
  have "a = 0"
  proof (rule ccontr)
    assume "a \<noteq> 0"
    then have "wb_objects ?v' ! 0 = wb_objects ?v ! 0" using a [of 0] by simp
    with l(2) v(2,5,6) show False by simp
  qed
  with a [of 1] s l(2) v(2,5,6) show ?thesis by (intro exI [of _ ?v] exI [of _ ?v']) simp
qed

subsection \<open>What ends the service\<close>

text \<open>A started server on which no accept is in progress or ready creates no session any more.\<close>

definition deaf :: "'x server \<Rightarrow> bool" where
  "deaf v \<longleftrightarrow> wb_started v \<and> tokens v = 0"

lemma deaf_step:
  assumes "server_step ord (Up v) (Up v')" "deaf v"
  shows "deaf v' \<and> length (wb_objects v') = length (wb_objects v)"
  using assms(1)
proof (cases rule: server_step.cases)
  case (handler hdl q)
  with no_tokens [of v] assms(2) obtain a ec where h: "hdl = H_expire a ec" by (auto simp: deaf_def)
  have "v' = expire_session a ec (v\<lparr>wb_queue := q\<rparr>)"
    using handler(1) h by (simp add: after_handler_def)
  with assms(2) handler(3) show ?thesis by (simp add: expire_session_def deaf_def tokens_def frame_simps)
next
  case (session a c)
  then show ?thesis using assms(2)
    by (cases c) (auto simp: after_handler_def deaf_def tokens_def frame_simps split: if_split_asm)
next
  case (accepted a aa)
  with no_tokens [of v] assms(2) show ?thesis by (simp add: deaf_def)
qed (use assms(2) in \<open>auto simp: deaf_def start_def stop_def add_middleware_def tokens_def split: if_split_asm\<close>)

lemma deaf_steps:
  "(server_step ord)\<^sup>*\<^sup>* (Up v) c \<Longrightarrow> deaf v \<Longrightarrow> (\<forall>v'. c = Up v' \<longrightarrow> deaf v' \<and> length (wb_objects v') = length (wb_objects v))"
proof (induction rule: rtranclp_induct)
  case base
  then show ?case by simp
next
  case (step y z)
  show ?case
  proof (intro allI impI)
    fix v' assume z: "z = Up v'"
    with up_before step.hyps(2) obtain u where u: "y = Up u" by blast
    with step.IH step.prems have "deaf u" "length (wb_objects u) = length (wb_objects v)" by auto
    with deaf_step step.hyps(2) u z show "deaf v' \<and> length (wb_objects v') = length (wb_objects v)" by fastforce
  qed
qed

text \<open>
  C24. One failed accept ends the service: when \<open>async_accept\<close> completes with an error its handler reports
  it and returns without accepting again, and when the new socket refuses an option \<open>connect\<close> throws
  and the io thread ends.  In both cases no later step, of the io thread, of a session or of the
  application, creates a session again.
\<close>

theorem accept_error_ends_accepting:
  assumes "server_reachable ord (Up v)" "wb_queue v = H_accept a aa # q" "ec_true (aa_accept aa) \<or> ec_true (aa_option aa)"
    and "after_handler (v\<lparr>wb_queue := q\<rparr>) (run_handler (H_accept a aa) (v\<lparr>wb_queue := q\<rparr>)) = Up v1"
    and "(server_step ord)\<^sup>*\<^sup>* (Up v1) (Up v2)"
  shows "length (wb_objects v2) = length (wb_objects v) \<and> wb_accepting v2 = None"
proof -
  have inv: "server_inv ord v" using server_reachable_inv [OF assms(1)] by simp
  have v1: "v1 = server_error_cb (aa_accept aa) (v\<lparr>wb_queue := q\<rparr>) \<or> v1 = v\<lparr>wb_queue := q, wb_running := False\<rparr>"
    using assms(3,4) by (auto simp: async_accept_handler_def after_handler_def is_std_exn_def split: if_split_asm)
  have t: "tokens v = 1 + tokens (v\<lparr>wb_queue := q\<rparr>)" by (simp add: tokens_def assms(2) token_def)
  then have "deaf v1" using inv v1 by (auto simp: deaf_def server_inv_def server_error_cb_def tokens_def)
  moreover have "length (wb_objects v1) = length (wb_objects v)" using v1 by (auto simp: server_error_cb_def)
  ultimately show ?thesis using deaf_steps [OF assms(5)] no_tokens [of v2] by (simp add: deaf_def)
qed

definition refused_option :: accept_answers where
  "refused_option = \<lparr>aa_accept = no_error, aa_option = bad_descriptor\<rparr>"

theorem accept_error_ends_accepting_witness:
  "{(length (wb_objects v2), wb_accepting v2) | v2.
      (server_step rev)\<^sup>*\<^sup>* (Up (demo_server\<lparr>wb_queue := [], wb_running := False\<rparr>)) (Up v2)} = {(1, None)}"
proof -
  let ?v = "demo_server\<lparr>wb_queue := [H_accept 0 refused_option]\<rparr>"
  have e: "ec_true (aa_accept refused_option) \<or> ec_true (aa_option refused_option)"
    by (simp add: ec_true_def bad_descriptor_def refused_option_def)
  have "after_handler (?v\<lparr>wb_queue := []\<rparr>) (run_handler (H_accept 0 refused_option) (?v\<lparr>wb_queue := []\<rparr>)) =
      Up (demo_server\<lparr>wb_queue := [], wb_running := False\<rparr>)"
    by (simp add: async_accept_handler_def after_handler_def is_std_exn_def refused_option_def ec_true_def bad_descriptor_def
        no_error_def)
  from accept_error_ends_accepting [OF demo_accepted _ e this] have
    "length (wb_objects v2) = 1 \<and> wb_accepting v2 = None"
    if "(server_step rev)\<^sup>*\<^sup>* (Up (demo_server\<lparr>wb_queue := [], wb_running := False\<rparr>)) (Up v2)" for v2
    using that by (simp add: demo_server_def)
  then show ?thesis by (auto intro!: exI [of _ "demo_server\<lparr>wb_queue := [], wb_running := False\<rparr>"] simp: demo_server_def)
qed

text \<open>
  C17. The expiry timer closes every session at once: the handler that accepts a client connects
  its session and leaves the expiry handler ready to run, with \<open>operation_aborted\<close>, because the
  timer is destroyed at the end of the block; when it runs, which nothing else need precede, the
  session is disconnected and no longer registered.
\<close>

theorem expiry_closes_at_once:
  assumes "server_reachable ord (Up v)" "wb_queue v = [H_accept a aa]"
    and "\<not> ec_true (aa_accept aa)" "\<not> ec_true (aa_option aa)" "length (wb_objects v) + 1 < 2 ^ 64"
  shows "case run_handler (H_accept a aa) (v\<lparr>wb_queue := []\<rparr>) of Inl e \<Rightarrow> False
    | Inr v1 \<Rightarrow> ws_connected (wb_objects v1 ! a) \<and> wb_queue v1 = [H_expire a operation_aborted]
        \<and> (case run_handler (H_expire a operation_aborted) (v1\<lparr>wb_queue := []\<rparr>) of Inl e \<Rightarrow> False
           | Inr v2 \<Rightarrow> \<not> ws_connected (wb_objects v2 ! a) \<and> (\<forall>k. wb_sessions v2 k \<noteq> Some a))"
proof -
  have inv: "server_inv ord v" using server_reachable_inv [OF assms(1)] by simp
  have n: "is_new a v" and st: "wb_started v"
    using inv assms(2) by (auto simp: server_inv_def handler_ok_def tokens_def token_def)
  then have a: "a < length (wb_objects v)" by (simp add: is_new_def)
  let ?v = "v\<lparr>wb_queue := []\<rparr>"
  let ?s = "connect ((wb_objects v ! a)\<lparr>ws_open := True\<rparr>)"
  let ?u = "update_session a ?s ?v"
  let ?w = "?u\<lparr>wb_queue := [H_expire a operation_aborted]\<rparr>"
  have r1: "run_handler (H_accept a aa) ?v = Inr (accept_handler ?w)"
    using assms(3,4) st by (simp add: async_accept_handler_def Let_def accept_def frame_simps)
  have inv1: "server_inv ord (accept_handler ?w)"
    by (rule run_handler_inv [OF inv assms(2) r1])
  note eq = accept_handler_eq [of ?w, unfolded Let_def]
  have f: "wb_objects (accept_handler ?w) ! a = ?s" "wb_queue (accept_handler ?w) = [H_expire a operation_aborted]"
    "length (wb_objects (accept_handler ?w)) = length (wb_objects v) + 1"
    using a st by (simp_all add: eq frame_simps nth_append)
  have ss: "session_inv ord ?s" by (rule started_connect(1) [OF n])
  have c: "ws_connected ?s" by (simp add: connect_def try_receive_def emit_def)
  let ?x = "accept_handler ?w"
  let ?y = "expire_session a operation_aborted (?x\<lparr>wb_queue := []\<rparr>)"
  have r2: "run_handler (H_expire a operation_aborted) (?x\<lparr>wb_queue := []\<rparr>) = Inr ?y" by simp
  have inv2: "server_inv ord ?y" by (rule run_handler_inv [OF inv1 f(2) r2])
  have o: "wb_objects ?y ! a = fst (disconnect ?s)"
    using a f c by (simp add: expire_session_def frame_simps expire_handler_def)
  have "\<not> ec_true (ws_close_error ?s)" using ss by (simp add: session_inv_def)
  then have d: "\<not> ws_connected (fst (disconnect ?s))" "unregistered (fst (disconnect ?s))"
    using disconnect_closed c by (auto simp: unregistered_def disconnect_defs Let_def)
  have "length (wb_objects ?y) < 2 ^ 64" using assms(5) f(3) by (simp add: expire_session_def frame_simps)
  with inv2 have "registry_inv ?y" by (simp add: server_inv_def)
  with o d(2) have "wb_sessions ?y k \<noteq> Some a" for k by (auto simp: registry_inv_def)
  with r1 r2 f c o d(1) show ?thesis by simp
qed

theorem expiry_closes_at_once_witness:
  "case run_handler (H_accept 0 client_came) (demo_server\<lparr>wb_queue := []\<rparr>) of Inl e \<Rightarrow> False
    | Inr v1 \<Rightarrow> ws_connected (wb_objects v1 ! 0) \<and> wb_queue v1 = [H_expire 0 operation_aborted]
        \<and> (case run_handler (H_expire 0 operation_aborted) (v1\<lparr>wb_queue := []\<rparr>) of Inl e \<Rightarrow> False
           | Inr v2 \<Rightarrow> \<not> ws_connected (wb_objects v2 ! 0) \<and> (\<forall>k. wb_sessions v2 k \<noteq> Some 0))"
  by (rule expiry_closes_at_once [OF demo_reachable]) (simp_all add: demo_server_def)

text \<open>
  A started server cannot be stopped: \<open>stop\<close> asserts the opposite of its message, so it takes
  the process down when the server runs; in every configuration after a start the server is still
  started or the process is gone.
\<close>

lemma started_forever:
  assumes "wb_started v" "(server_step ord)\<^sup>*\<^sup>* (Up v) c"
  shows "stop v = Inl Assertion_failed \<and> (\<forall>v'. c = Up v' \<longrightarrow> wb_started v')"
proof -
  have st: "wb_started v'" if "server_step ord (Up u) (Up v')" "wb_started u" for u v'
    using that(1)
  proof (cases rule: server_step.cases)
    case (handler hdl q)
    show ?thesis using handler(1) that(2)
      by (cases hdl) (auto simp: after_handler_def start_handler_def accept_def accept_handler_def
          async_accept_handler_def expire_session_def server_error_cb_def create_session_def register_session_def
          Let_def frame_simps split: if_split_asm)
  next
    case (session a c)
    then show ?thesis using that(2) by (cases c) (auto simp: after_handler_def frame_simps split: if_split_asm)
  qed (use that(2) in \<open>auto simp: start_def stop_def add_middleware_def split: if_split_asm\<close>)
  have "\<forall>v'. c = Up v' \<longrightarrow> wb_started v'"
    using assms(2)
  proof (induction rule: rtranclp_induct)
    case (step y z)
    then show ?case using up_before st by metis
  qed (use assms(1) in simp)
  with assms(1) show ?thesis by (simp add: stop_def)
qed

lemma started_forever_witness:
  "stop demo_server = Inl Assertion_failed"
  using started_forever [of demo_server rev "Up demo_server"] by (simp add: demo_server_def)

text \<open>When the loop has ended, no object changes again.\<close>

definition halted :: "'x server \<Rightarrow> bool" where
  "halted v \<longleftrightarrow> wb_started v \<and> \<not> wb_running v"

lemma halted_steps:
  "(server_step ord)\<^sup>*\<^sup>* (Up v) c \<Longrightarrow> halted v \<Longrightarrow> (\<forall>v'. c = Up v' \<longrightarrow> halted v' \<and> wb_objects v' = wb_objects v)"
proof (induction rule: rtranclp_induct)
  case base
  then show ?case by simp
next
  case (step y z)
  show ?case
  proof (intro allI impI)
    fix v' assume z: "z = Up v'"
    with up_before step.hyps(2) obtain u where u: "y = Up u" by blast
    with step.IH step.prems have h: "halted u" "wb_objects u = wb_objects v" by auto
    have "server_step ord (Up u) (Up v')" using step.hyps(2) u z by simp
    then show "halted v' \<and> wb_objects v' = wb_objects v"
      by (cases rule: server_step.cases)
         (use h in \<open>auto simp: halted_def start_def stop_def add_middleware_def split: if_split_asm\<close>)
  qed
qed

text \<open>
  C13. One packet of one client stops the whole server: a request line followed by the name of a
  header, without the colon and without anything after it, ends the loop of \<open>context_handler\<close>,
  which drops the exception; the server object still says it is started, and no session is
  served, accepted or closed ever after.
\<close>

theorem one_packet_stops_the_server:
  assumes "wb_started v" "wb_running v" "a < length (wb_objects v)" "started (wb_objects v ! a)"
    and "line_wf m t" "list_all is_valid_token name" "2 \<le> length name" "to_lower name \<noteq> ''content-type''"
    and "length (cut_name m t name) + 5 \<le> ws_buffer_option (wb_objects v ! a)"
  shows "\<exists>v'. server_step ord (Up v) (Up v') \<and>
    (\<forall>v''. (server_step ord)\<^sup>*\<^sup>* (Up v') (Up v'') \<longrightarrow> wb_started v'' \<and> \<not> wb_running v'' \<and> wb_objects v'' = wb_objects v)"
proof -
  have "session_step (wb_middlewares v) ord (Live (wb_store v) (wb_objects v ! a)) (Ended Length_error)"
    by (rule cut_name_step [OF assms(4-9)])
  from server_step.session [OF assms(2,3) this]
  have "server_step ord (Up v) (Up (v\<lparr>wb_running := False\<rparr>))" by (simp add: after_handler_def is_std_exn_def)
  moreover have "halted (v\<lparr>wb_running := False\<rparr>)" using assms(1) by (simp add: halted_def)
  ultimately show ?thesis using halted_steps [of ord "v\<lparr>wb_running := False\<rparr>"]
    by (intro exI [of _ "v\<lparr>wb_running := False\<rparr>"]) (auto simp: halted_def)
qed

theorem one_packet_stops_the_server_witness:
  "\<exists>v'. server_step rev (Up (demo_server\<lparr>wb_objects := [demo_session]\<rparr>)) (Up v') \<and>
    (\<forall>v''. (server_step rev)\<^sup>*\<^sup>* (Up v') (Up v'') \<longrightarrow> wb_started v'' \<and> \<not> wb_running v'' \<and> wb_objects v'' = [demo_session])"
proof -
  let ?v = "demo_server\<lparr>wb_objects := [demo_session]\<rparr>"
  have wf: "line_wf ''GET'' ''/''" "list_all is_valid_token ''Host''" "to_lower ''Host'' \<noteq> ''content-type''"
    "length (cut_name ''GET'' ''/'' ''Host'') + 5 \<le> ws_buffer_option demo_session" by code_simp+
  have "wb_started ?v" "wb_running ?v" "0 < length (wb_objects ?v)" by (simp_all add: demo_server_def)
  from one_packet_stops_the_server [OF this _ wf(1,2) _ wf(3), of rev] demo_started wf(4) show ?thesis by simp
qed

end
