(* ===== verification/Url_Parser.thy ===== *)
theory Url_Parser
  imports Cpp_Library
begin

text \<open>
  \<open>common/url_parser.hpp\<close>: splitting a URL and the percent encoding.  The two coders work on C
  strings, which end at the first NUL (\<open>c_string\<close>); \<open>None\<close> is undefined behaviour: an \<open>int\<close>
  length that overflows, a number \<open>atoi\<close> cannot represent, or a \<open>ctype\<close> call on a negative value.
\<close>

record url =
  url_protocol :: string
  url_user :: string
  url_password :: string
  url_host :: string
  url_path :: string
  url_search :: string
  url_port :: int

subsection \<open>Splitting\<close>

text \<open>Both return the output and the subject as they leave it.\<close>

definition TailSlice :: "string \<Rightarrow> string \<Rightarrow> bool \<Rightarrow> string \<times> string" where
  "TailSlice subject delimiter keep_delim =
     (case find_str subject delimiter 0 of
        Some delimiter_location \<Rightarrow>
          (let start = (if keep_delim then delimiter_location else delimiter_location + length delimiter);
               n = length subject - start
           in (take n (drop start subject), take delimiter_location subject))
      | None \<Rightarrow> ([], subject))"

definition HeadSlice :: "string \<Rightarrow> string \<Rightarrow> string \<times> string" where
  "HeadSlice subject delimiter =
     (case find_str subject delimiter 0 of
        Some delimiter_location \<Rightarrow>
          (take delimiter_location subject,
           take (length subject - (delimiter_location + length delimiter))
             (drop (delimiter_location + length delimiter) subject))
      | None \<Rightarrow> ([], subject))"

text \<open>\<open>atoi\<close> throws nothing, so the \<open>catch\<close> of the source is never entered.\<close>

definition ExtractPort :: "string \<Rightarrow> (int \<times> string) option" where
  "ExtractPort hostport =
     (let (portstring, rest) = TailSlice hostport '':'' False
      in map_option (\<lambda>port. (port, rest)) (atoi portstring))"

definition ExtractPath :: "string \<Rightarrow> string \<times> string" where
  "ExtractPath s = TailSlice s ''/'' True"

definition ExtractProtocol :: "string \<Rightarrow> string \<times> string" where
  "ExtractProtocol s = HeadSlice s ''://''"

definition ExtractSearch :: "string \<Rightarrow> string \<times> string" where
  "ExtractSearch s = TailSlice s ''?'' False"

definition ExtractPassword :: "string \<Rightarrow> string \<times> string" where
  "ExtractPassword userpass = TailSlice userpass '':'' False"

definition ExtractUserpass :: "string \<Rightarrow> string \<times> string" where
  "ExtractUserpass s = HeadSlice s ''@''"

definition ParseHTTPURL :: "string \<Rightarrow> url option" where
  "ParseHTTPURL input =
     (let (protocol, temp) = ExtractProtocol input;
          (search, temp) = ExtractSearch temp;
          (path, temp) = ExtractPath temp;
          (userpass, temp) = ExtractUserpass temp;
          (password, user) = ExtractPassword userpass
      in map_option (\<lambda>(port, host).
           \<lparr>url_protocol = protocol, url_user = user, url_password = password, url_host = host,
            url_path = path, url_search = search, url_port = port\<rparr>) (ExtractPort temp))"

subsection \<open>Percent encoding\<close>

definition c_string :: "string \<Rightarrow> string" where
  "c_string s = takeWhile (\<lambda>c. c \<noteq> nul) s"

definition hexchars :: string where
  "hexchars = ''0123456789ABCDEF''"

definition encode_char :: "char \<Rightarrow> string" where
  "encode_char c =
     (let n = (of_char c :: nat)
      in if c = CHR '' '' then ''+''
         else if (n < 48 \<and> c \<noteq> CHR ''-'' \<and> c \<noteq> CHR ''.'') \<or> (n < 65 \<and> 57 < n)
              \<or> (90 < n \<and> n < 97 \<and> c \<noteq> CHR ''_'') \<or> 122 < n
         then [CHR ''%'', hexchars ! (n div 16), hexchars ! (n mod 16)]
         else [c])"

definition URLEncode :: "string \<Rightarrow> string option" where
  "URLEncode str_source =
     (let in_str = c_string str_source
      in if int_max < 3 * int (length in_str) + 1 then None
         else Some (c_string (concat (map encode_char in_str))))"

definition hex_digit_value :: "char \<Rightarrow> int" where
  "hex_digit_value c0 =
     (let c = int (of_char (tolower_c c0))
      in if 48 \<le> c \<and> c \<le> 57 then c - 48 else c - 97 + 10)"

definition htoi :: "char \<Rightarrow> char \<Rightarrow> int" where
  "htoi a b = hex_digit_value a * 16 + hex_digit_value b"

definition is_xdigit_c :: "char \<Rightarrow> bool" where
  "is_xdigit_c c \<longleftrightarrow> is_dec c \<or> (65 \<le> (of_char c :: nat) \<and> (of_char c :: nat) \<le> 70)
     \<or> (97 \<le> (of_char c :: nat) \<and> (of_char c :: nat) \<le> 102)"

definition isxdigit :: "char \<Rightarrow> bool option" where
  "isxdigit c = (if ctype_ok c then Some (is_xdigit_c c) else None)"

text \<open>The loop: the bytes written so far end where those still to read begin, or before.\<close>

fun decode_loop :: "string \<Rightarrow> string option" where
  "decode_loop [] = Some []"
| "decode_loop (c # cs) =
     (if c = CHR ''+'' then map_option (Cons (CHR '' '')) (decode_loop cs)
      else if c = CHR ''%'' then
        (case cs of
           a # b # cs' \<Rightarrow>
             (case isxdigit a of
                None \<Rightarrow> None
              | Some xa \<Rightarrow>
                  if \<not> xa then map_option (Cons c) (decode_loop cs)
                  else (case isxdigit b of
                      None \<Rightarrow> None
                    | Some xb \<Rightarrow>
                        if \<not> xb then map_option (Cons c) (decode_loop cs)
                        else map_option (Cons (char_of (nat (htoi a b)))) (decode_loop cs')))
         | _ \<Rightarrow> map_option (Cons c) (decode_loop cs))
      else map_option (Cons c) (decode_loop cs))"

definition URLDecode :: "string \<Rightarrow> string option" where
  "URLDecode str_source = map_option c_string (decode_loop (c_string str_source))"

subsection \<open>Lemmas: slices\<close>

lemma find_str_hd:
  assumes "d \<notin> set a"
  shows "find_str (pre @ a @ (d # ds) @ b) (d # ds) (length pre) = Some (length pre + length a)"
  using assms
proof (induction a arbitrary: pre)
  case Nil
  show ?case by (subst find_str.simps) simp
next
  case (Cons x a)
  have "find_str (pre @ (x # a) @ (d # ds) @ b) (d # ds) (length pre) =
      find_str ((pre @ [x]) @ a @ (d # ds) @ b) (d # ds) (length (pre @ [x]))"
    using Cons.prems by (subst find_str.simps) auto
  with Cons.IH [of "pre @ [x]"] Cons.prems show ?case by simp
qed

lemma find_str_first_at: "d \<notin> set a \<Longrightarrow> find_str (a @ (d # ds) @ b) (d # ds) 0 = Some (length a)"
  using find_str_hd [of d a "[]" ds b] by simp

lemma HeadSlice_split: "d \<notin> set a \<Longrightarrow> HeadSlice (a @ (d # ds) @ b) (d # ds) = (a, b)"
  using find_str_first_at [of d a ds b] by (simp add: HeadSlice_def)

lemma TailSlice_split:
  "d \<notin> set a \<Longrightarrow> TailSlice (a @ (d # ds) @ b) (d # ds) keep = (if keep then (d # ds) @ b else b, a)"
  using find_str_first_at [of d a ds b] by (simp add: TailSlice_def Let_def)

lemma url_slices:
  "CHR '':'' \<notin> set a \<Longrightarrow> ExtractProtocol (a @ ''://'' @ b) = (a, b)"
  "CHR ''?'' \<notin> set a \<Longrightarrow> ExtractSearch (a @ ''?'' @ b) = (b, a)"
  "CHR ''/'' \<notin> set a \<Longrightarrow> ExtractPath (a @ CHR ''/'' # b) = (CHR ''/'' # b, a)"
  "CHR ''@'' \<notin> set a \<Longrightarrow> ExtractUserpass (a @ ''@'' @ b) = (a, b)"
  "CHR '':'' \<notin> set a \<Longrightarrow> ExtractPassword (a @ '':'' @ b) = (b, a)"
  using HeadSlice_split [of "CHR '':''" a "''//''" b] TailSlice_split [of "CHR ''?''" a "[]" b False]
    TailSlice_split [of "CHR ''/''" a "[]" b True] HeadSlice_split [of "CHR ''@''" a "[]" b]
    TailSlice_split [of "CHR '':''" a "[]" b False]
  by (simp_all add: ExtractProtocol_def ExtractSearch_def ExtractPath_def ExtractUserpass_def ExtractPassword_def)

lemma ExtractPort_split:
  "CHR '':'' \<notin> set h \<Longrightarrow> int n \<le> int_max \<Longrightarrow> ExtractPort (h @ '':'' @ to_string_nat n) = Some (int n, h)"
  using TailSlice_split [of "CHR '':''" h "[]" "to_string_nat n" False] by (simp add: ExtractPort_def atoi_to_string)

lemma find_str_absent: "d \<notin> set s \<Longrightarrow> find_str s (d # ds) pos = None"
proof (cases "find_str s (d # ds) pos")
  case (Some i)
  assume d: "d \<notin> set s"
  from find_str_Some [OF Some] have "take (length (d # ds)) (drop i s) = d # ds" by simp
  then have "d \<in> set s" by (metis in_set_dropD in_set_takeD list.set_intros(1))
  with d show ?thesis by simp
qed

lemma ExtractPort_absent: "CHR '':'' \<notin> set h \<Longrightarrow> ExtractPort h = Some (0, h)"
  by (simp add: ExtractPort_def TailSlice_def find_str_absent atoi_def int_min_def int_max_def)

subsection \<open>Lemmas: encoding\<close>

lemma hexchar:
  assumes "n < 16"
  shows "ctype_ok (hexchars ! n)" "is_xdigit_c (hexchars ! n)" "hex_digit_value (hexchars ! n) = int n" "hexchars ! n \<noteq> nul"
proof -
  have "\<forall>n\<in>set [0..<16]. ctype_ok (hexchars ! n) \<and> is_xdigit_c (hexchars ! n)
      \<and> hex_digit_value (hexchars ! n) = int n \<and> hexchars ! n \<noteq> nul"
    by code_simp
  with assms have "ctype_ok (hexchars ! n) \<and> is_xdigit_c (hexchars ! n)
      \<and> hex_digit_value (hexchars ! n) = int n \<and> hexchars ! n \<noteq> nul"
    by simp
  then show "ctype_ok (hexchars ! n)" "is_xdigit_c (hexchars ! n)" "hex_digit_value (hexchars ! n) = int n" "hexchars ! n \<noteq> nul"
    by auto
qed

lemma of_char_byte: "(of_char c :: nat) < 256"
  using of_char_mod_256 [of c, where 'a = nat] by (metis mod_less_divisor zero_less_numeral)

lemma decode_percent:
  "n < 256 \<Longrightarrow> decode_loop (CHR ''%'' # hexchars ! (n div 16) # hexchars ! (n mod 16) # rest) =
    map_option (Cons (char_of n)) (decode_loop rest)"
proof -
  assume n: "n < 256"
  have "htoi (hexchars ! (n div 16)) (hexchars ! (n mod 16)) = int n"
  proof -
    have "htoi (hexchars ! (n div 16)) (hexchars ! (n mod 16)) = int (n div 16) * 16 + int (n mod 16)"
      using n by (simp add: htoi_def hexchar)
    also have "\<dots> = int (n div 16 * 16 + n mod 16)" by (simp only: of_nat_add of_nat_mult of_nat_numeral)
    finally show ?thesis by (simp only: div_mult_mod_eq)
  qed
  with n show ?thesis by (simp add: isxdigit_def hexchar)
qed

lemma decode_encode_char:
  "decode_loop (encode_char c @ rest) = map_option (Cons c) (decode_loop rest)"
proof -
  let ?n = "of_char c :: nat"
  consider "c = CHR '' ''" | "encode_char c = [CHR ''%'', hexchars ! (?n div 16), hexchars ! (?n mod 16)]"
    | "encode_char c = [c]" "c \<noteq> CHR ''+''" "c \<noteq> CHR ''%''"
  proof (cases "c = CHR '' ''")
    case False
    then have "encode_char c = [CHR ''%'', hexchars ! (?n div 16), hexchars ! (?n mod 16)]
        \<or> encode_char c = [c] \<and> c \<noteq> CHR ''+'' \<and> c \<noteq> CHR ''%''"
      by (auto simp: encode_char_def Let_def)
    with that show ?thesis by blast
  qed (rule that)
  then show ?thesis
  proof cases
    case 2
    with decode_percent [OF of_char_byte [of c], of rest] show ?thesis by simp
  qed (simp_all add: encode_char_def)
qed

lemma decode_encode: "decode_loop (concat (map encode_char s)) = Some s"
  by (induction s) (simp_all add: decode_encode_char)

lemma encode_char_set: "c \<noteq> nul \<Longrightarrow> x \<in> set (encode_char c) \<Longrightarrow> x \<noteq> nul"
proof -
  have "(of_char c :: nat) div 16 < 16" using of_char_byte [of c] by linarith
  from hexchar(4) [OF this] hexchar(4) [of "of_char c mod 16"]
  show "c \<noteq> nul \<Longrightarrow> x \<in> set (encode_char c) \<Longrightarrow> x \<noteq> nul"
    by (auto simp: encode_char_def Let_def nul_def split: if_split_asm)
qed

lemma c_string_free: "nul \<notin> set s \<Longrightarrow> c_string s = s"
  unfolding c_string_def by (rule takeWhile_eq_self) auto

lemma c_string_no_nul: "nul \<notin> set (c_string s)"
  by (auto simp: c_string_def dest: set_takeWhileD)

lemma encode_no_nul: "nul \<notin> set s \<Longrightarrow> nul \<notin> set (concat (map encode_char s))"
proof (induction s)
  case (Cons a s)
  then have "nul \<notin> set (encode_char a)" using encode_char_set [of a nul] by auto
  with Cons show ?case by simp
qed simp

lemma encode_length: "length (concat (map encode_char s)) \<le> 3 * length s"
  by (induction s) (auto simp: encode_char_def Let_def)

lemma URLEncode_value:
  "3 * int (length (c_string s)) + 1 \<le> int_max \<Longrightarrow> URLEncode s = Some (concat (map encode_char (c_string s)))"
  by (simp add: URLEncode_def Let_def c_string_free [OF encode_no_nul [OF c_string_no_nul]])

end
