(* ===== verification/Meta_To_String.thy ===== *)
theory Meta_To_String
  imports Cpp_Library
begin

text \<open>
  \<open>common/meta/to_string.hpp\<close>: the compile-time conversion of an integer to text, which fills a
  buffer of a size computed beforehand from its end.  Division truncates towards zero, as in
  C++; \<open>None\<close> is a write in front of the buffer (a constant expression that does not compile).
\<close>

definition cdiv :: "int \<Rightarrow> int \<Rightarrow> int" where
  "cdiv a b = sgn a * sgn b * (\<bar>a\<bar> div \<bar>b\<bar>)"

definition cmod :: "int \<Rightarrow> int \<Rightarrow> int" where
  "cmod a b = a - b * cdiv a b"

definition digits :: string where
  "digits = ''0123456789ABCDEFGHIJKLMNOPQRSTUVWXYZ''"

lemma cdiv_less: "n \<noteq> 0 \<Longrightarrow> 1 < b \<Longrightarrow> nat \<bar>cdiv n b\<bar> < nat \<bar>n\<bar>"
proof -
  assume n: "n \<noteq> 0" and b: "1 < b"
  have "\<bar>n\<bar> div b < \<bar>n\<bar>" using n b by (intro int_div_less_self) auto
  moreover have "\<bar>cdiv n b\<bar> = \<bar>n\<bar> div b"
    using b by (simp add: cdiv_def abs_mult abs_sgn_eq pos_imp_zdiv_nonneg_iff sgn_if)
  ultimately show ?thesis by simp
qed

text \<open>The size of the buffer.\<close>

function len_loop :: "int \<Rightarrow> int \<Rightarrow> nat \<Rightarrow> nat" where
  "len_loop n base len = (if n = 0 \<or> base \<le> 1 then len else len_loop (cdiv n base) base (len + 1))"
  by pat_completeness auto
termination
  by (relation "measure (\<lambda>(n, base, len). nat \<bar>n\<bar>)") (use cdiv_less in auto)

declare len_loop.simps [simp del]

definition buf_size :: "int \<Rightarrow> int \<Rightarrow> nat" where
  "buf_size N base = len_loop N base (if N > 0 then 1 else 2)"

text \<open>The digits, each written in front of those before it; \<open>acc\<close> is the written end of the buffer.\<close>

function digit_loop :: "int \<Rightarrow> int \<Rightarrow> int \<Rightarrow> string \<Rightarrow> string" where
  "digit_loop N n base acc =
     (if n = 0 \<or> base \<le> 1 then acc
      else digit_loop N (cdiv n base) base (digits ! nat ((if N < 0 then -1 else 1) * cmod n base) # acc))"
  by pat_completeness auto
termination
  by (relation "measure (\<lambda>(N, n, base, acc). nat \<bar>n\<bar>)") (use cdiv_less in auto)

declare digit_loop.simps [simp del]

definition to_string_t :: "int \<Rightarrow> int \<Rightarrow> string option" where
  "to_string_t N base =
     (let written = (if N \<noteq> 0
                     then (if N < 0 then ''-'' else []) @ digit_loop N N base [nul]
                     else [nul]);
          gap = buf_size N base - length written;
          buf = replicate gap nul @ written
      in if buf_size N base < length written then None
         else Some (if N \<noteq> 0 then buf else buf[0 := CHR ''0'']))"

text \<open>
  The element access of the class on the filled buffer: \<open>operator[]\<close>, \<open>front\<close> and \<open>back\<close>; an index outside the
  array is \<open>None\<close>.
\<close>

definition buf_at :: "string \<Rightarrow> nat \<Rightarrow> char option" where
  "buf_at buf i = (if i < length buf then Some (buf ! i) else None)"

definition buf_front :: "string \<Rightarrow> char option" where
  "buf_front buf = buf_at buf 0"

definition buf_back :: "string \<Rightarrow> char option" where
  "buf_back buf = buf_at buf (length buf - 1)"

subsection \<open>Lemmas\<close>

lemma cdiv_pos: "0 \<le> n \<Longrightarrow> 0 < b \<Longrightarrow> cdiv n b = n div b"
  by (auto simp: cdiv_def sgn_if)

lemma cmod_pos: "0 \<le> n \<Longrightarrow> 0 < b \<Longrightarrow> cmod n b = n mod b"
  by (simp add: cmod_def cdiv_pos minus_mult_div_eq_mod)

lemma cdiv_neg: "0 \<le> n \<Longrightarrow> 0 < b \<Longrightarrow> cdiv (- n) b = - (n div b)"
  by (auto simp: cdiv_def sgn_if)

lemma cmod_neg: "0 \<le> n \<Longrightarrow> 0 < b \<Longrightarrow> cmod (- n) b = - (n mod b)"
  by (simp add: cmod_def cdiv_neg minus_mult_div_eq_mod [symmetric])

text \<open>The digits of a natural number in a base, most significant first; no digit for 0.\<close>

function base_digits :: "nat \<Rightarrow> nat \<Rightarrow> string" where
  "base_digits b n = (if n = 0 \<or> b \<le> 1 then [] else base_digits b (n div b) @ [digits ! (n mod b)])"
  by pat_completeness auto
termination
  by (relation "measure snd") auto

declare base_digits.simps [simp del]

lemma signed_step:
  assumes "1 < b" "n = (if neg then - int k else int k)"
  shows "cdiv n (int b) = (if neg then - int (k div b) else int (k div b))"
    and "nat ((if neg then -1 else 1) * cmod n (int b)) = k mod b"
  using assms by (auto simp: cdiv_pos cdiv_neg cmod_pos cmod_neg zdiv_int zmod_int [symmetric])

lemma digit_loop_digits:
  "1 < b \<Longrightarrow> n = (if neg then - int k else int k) \<Longrightarrow> neg = (N < 0) \<Longrightarrow>
    digit_loop N n (int b) acc = base_digits b k @ acc"
proof (induction b k arbitrary: n acc rule: base_digits.induct)
  case (1 b k)
  show ?case
  proof (cases "k = 0")
    case True
    with "1.prems" show ?thesis by (simp add: digit_loop.simps [of N 0] base_digits.simps [of b 0])
  next
    case False
    note s = signed_step [OF "1.prems"(1,2)]
    have "digit_loop N n (int b) acc = digit_loop N (cdiv n (int b)) (int b) (digits ! (k mod b) # acc)"
      using False "1.prems" s(2) by (subst digit_loop.simps) auto
    also have "\<dots> = base_digits b (k div b) @ digits ! (k mod b) # acc"
      using "1.IH" [OF _ "1.prems"(1) s(1) "1.prems"(3)] False "1.prems"(1) by simp
    finally show ?thesis using False "1.prems"(1) by (simp add: base_digits.simps [of b k])
  qed
qed

lemma len_loop_digits:
  "1 < b \<Longrightarrow> n = (if neg then - int k else int k) \<Longrightarrow> len_loop n (int b) l = l + length (base_digits b k)"
proof (induction b k arbitrary: n l rule: base_digits.induct)
  case (1 b k)
  show ?case
  proof (cases "k = 0")
    case True
    with "1.prems" show ?thesis by (simp add: len_loop.simps [of 0] base_digits.simps [of b 0])
  next
    case False
    note s = signed_step [OF "1.prems"(1,2)]
    have "len_loop n (int b) l = len_loop (cdiv n (int b)) (int b) (l + 1)"
      using False "1.prems" by (subst len_loop.simps) auto
    also have "\<dots> = l + 1 + length (base_digits b (k div b))"
      using "1.IH" [OF _ "1.prems"(1) s(1)] False "1.prems"(1) by simp
    finally show ?thesis using False "1.prems"(1) by (simp add: base_digits.simps [of b k])
  qed
qed

lemma digits_dec: "d < 10 \<Longrightarrow> digits ! d = digit_char d"
proof -
  have "\<forall>d\<in>set [0..<10]. digits ! d = digit_char d" by code_simp
  then show "d < 10 \<Longrightarrow> digits ! d = digit_char d" by simp
qed

lemma base_digits_dec: "0 < n \<Longrightarrow> base_digits 10 n = to_string_nat n"
proof (induction n rule: less_induct)
  case (less n)
  show ?case
  proof (cases "n < 10")
    case True
    with less show ?thesis
      by (simp add: base_digits.simps [of 10 n] base_digits.simps [of 10 0] to_string_nat.simps [of n] digits_dec)
  next
    case False
    with less show ?thesis
      by (simp add: base_digits.simps [of 10 n] to_string_nat.simps [of n] digits_dec)
  qed
qed

lemma to_string_t_decimal: "to_string_t N 10 = Some (to_string_int N @ [nul])"
proof -
  let ?k = "nat \<bar>N\<bar>"
  have n: "N = (if N < 0 then - int ?k else int ?k)" by simp
  have d: "digit_loop N N 10 [nul] = base_digits 10 ?k @ [nul]"
    using digit_loop_digits [of 10 N "N < 0" ?k N "[nul]"] n by simp
  have l: "buf_size N 10 = (if N > 0 then 1 else 2) + length (base_digits 10 ?k)"
    using len_loop_digits [of 10 N "N < 0" ?k] n by (simp add: buf_size_def)
  consider "N = 0" | "N < 0" | "0 < N" by linarith
  then show ?thesis
  proof cases
    case 1
    have "digit_char 0 = CHR ''0''" by code_simp
    with 1 l show ?thesis
      by (simp add: to_string_t_def to_string_int_def base_digits.simps to_string_nat.simps numeral_2_eq_2)
  next
    case 2
    then have "base_digits 10 ?k = to_string_nat (nat (- N))" by (simp add: base_digits_dec)
    with 2 l d show ?thesis by (simp add: to_string_t_def to_string_int_def Let_def)
  next
    case 3
    then have "base_digits 10 ?k = to_string_nat (nat N)" by (simp add: base_digits_dec)
    with 3 l d show ?thesis by (simp add: to_string_t_def to_string_int_def Let_def)
  qed
qed

lemma to_string_no_nul: "nul \<notin> set (to_string_int N)"
  using to_string_nat_dec [of nul] by (auto simp: to_string_int_def nul_def is_dec_def dest!: to_string_nat_dec)

text \<open>The text of the buffer as a C string.\<close>

lemma to_string_t_text:
  "map_option (takeWhile (\<lambda>c. c \<noteq> nul)) (to_string_t N 10) = Some (to_string_int N)"
proof -
  have "\<forall>c\<in>set (to_string_int N). c \<noteq> nul" using to_string_no_nul [of N] by auto
  then show ?thesis by (simp add: to_string_t_decimal takeWhile_append2)
qed

text \<open>Its first character is that of the text, and its last one the terminating NUL.\<close>

lemma to_string_t_ends:
  "to_string_t N 10 = Some buf \<Longrightarrow> buf_back buf = Some nul \<and> buf_front buf = Some ((to_string_int N @ [nul]) ! 0)"
  by (auto simp: to_string_t_decimal buf_back_def buf_front_def buf_at_def nth_append)

end
