(* ===== verification/Url_Theorems.thy ===== *)
theory Url_Theorems
  imports Url_Parser Meta_To_String
begin

text \<open>The properties of the URL functions and of the compile-time \<open>to_string\<close>.\<close>

text \<open>
  C32. \<open>ParseHTTPURL\<close> takes a full URL apart: composed from a protocol, a user, a password, a host,
  a port, a path and a query, none of which holds a separator that is searched for before it, it
  is split into exactly these parts.
\<close>

theorem parse_url_parts:
  assumes "CHR '':'' \<notin> set protocol"
    and "CHR ''?'' \<notin> set (user @ password @ host @ path)"
    and "CHR ''/'' \<notin> set (user @ password @ host)"
    and "CHR ''@'' \<notin> set (user @ password)" "CHR '':'' \<notin> set user" "CHR '':'' \<notin> set host"
    and "int port \<le> int_max"
  shows "ParseHTTPURL (protocol @ ''://'' @ user @ '':'' @ password @ ''@'' @ host @ '':'' @ to_string_nat port
      @ CHR ''/'' # path @ ''?'' @ search)
    = Some \<lparr>url_protocol = protocol, url_user = user, url_password = password, url_host = host,
        url_path = CHR ''/'' # path, url_search = search, url_port = int port\<rparr>"
proof -
  let ?p = "to_string_nat port"
  have dec: "is_dec c" if "c \<in> set ?p" for c using to_string_nat_dec that .
  have p: "CHR ''?'' \<notin> set ?p" "CHR ''/'' \<notin> set ?p"
    using dec [of "CHR ''?''"] dec [of "CHR ''/''"] by (auto simp: is_dec_def)
  let ?auth = "user @ '':'' @ password @ ''@'' @ host @ '':'' @ ?p"
  have "ExtractProtocol (protocol @ ''://'' @ ?auth @ CHR ''/'' # path @ ''?'' @ search) = (protocol, ?auth @ CHR ''/'' # path @ ''?'' @ search)"
    by (rule url_slices(1) [OF assms(1)])
  moreover have "ExtractSearch ((?auth @ CHR ''/'' # path) @ ''?'' @ search) = (search, ?auth @ CHR ''/'' # path)"
    by (rule url_slices(2)) (use assms(2) p in auto)
  moreover have "ExtractPath (?auth @ CHR ''/'' # path) = (CHR ''/'' # path, ?auth)"
    by (rule url_slices(3)) (use assms(3) p in auto)
  moreover have "ExtractUserpass ((user @ '':'' @ password) @ ''@'' @ host @ '':'' @ ?p) = (user @ '':'' @ password, host @ '':'' @ ?p)"
    by (rule url_slices(4)) (use assms(4) in auto)
  moreover have "ExtractPassword (user @ '':'' @ password) = (password, user)"
    by (rule url_slices(5) [OF assms(5)])
  moreover have "ExtractPort (host @ '':'' @ ?p) = Some (int port, host)"
    by (rule ExtractPort_split [OF assms(6,7)])
  ultimately show ?thesis by (simp add: ParseHTTPURL_def)
qed

theorem parse_url_parts_witness:
  "ParseHTTPURL ''http://me:pw@host:80/a/b?x=1'' = Some \<lparr>url_protocol = ''http'', url_user = ''me'', url_password = ''pw'',
     url_host = ''host'', url_path = ''/a/b'', url_search = ''x=1'', url_port = 80\<rparr>"
proof -
  have p: "to_string_nat 80 = ''80''" by code_simp
  show ?thesis
    using parse_url_parts [of "''http''" "''me''" "''pw''" "''host''" "''a/b''" 80 "''x=1''"]
    by (simp add: p int_max_def)
qed

text \<open>
  C31. \<open>URLDecode\<close> undoes \<open>URLEncode\<close>: for a text without NUL whose encoding's length is an
  \<open>int\<close>, of any other bytes, encoding gives a text at most three times as long, so that the
  allocated buffer of \<open>3 n + 1\<close> bytes holds it with its terminator, and decoding gives the text
  back.
\<close>

theorem url_encode_roundtrip:
  assumes "nul \<notin> set s" "3 * int (length s) + 1 \<le> int_max"
  shows "case URLEncode s of None \<Rightarrow> False
    | Some e \<Rightarrow> length e + 1 \<le> 3 * length s + 1 \<and> nul \<notin> set e \<and> URLDecode e = Some s"
proof -
  let ?e = "concat (map encode_char s)"
  have e: "URLEncode s = Some ?e" using URLEncode_value [of s] assms by (simp add: c_string_free)
  have "nul \<notin> set ?e" by (rule encode_no_nul [OF assms(1)])
  then have "URLDecode ?e = Some s" using assms(1) by (simp add: URLDecode_def c_string_free decode_encode)
  with e encode_length [of s] \<open>nul \<notin> set ?e\<close> show ?thesis by simp
qed

theorem url_encode_roundtrip_witness:
  "case URLEncode ''a b&%'' of None \<Rightarrow> False | Some e \<Rightarrow> URLDecode e = Some ''a b&%''"
  using url_encode_roundtrip [of "''a b&%''"] by (auto simp: nul_def int_max_def split: option.split_asm)

text \<open>
  The compile-time \<open>to_string\<close> is the run-time one: for every integer the buffer it computes
  has exactly the room of the decimal text (with its sign) and the terminator, and holds it.
\<close>

lemma meta_to_string_decimal:
  "to_string_t N 10 = Some (to_string_int N @ [nul])"
  by (rule to_string_t_decimal)

text \<open>
  A URL without a port gets port 0: the value -1 that \<open>ParseHTTPURL\<close> starts with is always
  overwritten, as \<open>atoi\<close> gives 0 for the empty text and throws nothing.
\<close>

lemma url_without_port:
  assumes "CHR '':'' \<notin> set protocol" "CHR ''?'' \<notin> set host" "CHR ''/'' \<notin> set host" "CHR ''@'' \<notin> set host"
    and "CHR '':'' \<notin> set host"
  shows "ParseHTTPURL (protocol @ ''://'' @ host) = Some \<lparr>url_protocol = protocol, url_user = [], url_password = [],
    url_host = host, url_path = [], url_search = [], url_port = 0\<rparr>"
proof -
  have "ExtractProtocol (protocol @ ''://'' @ host) = (protocol, host)" by (rule url_slices(1) [OF assms(1)])
  moreover have "ExtractSearch host = ([], host)" "ExtractPath host = ([], host)" "ExtractUserpass host = ([], host)"
    using assms by (simp_all add: ExtractSearch_def ExtractPath_def ExtractUserpass_def TailSlice_def HeadSlice_def find_str_absent)
  moreover have "ExtractPassword [] = ([], [])" by (simp add: ExtractPassword_def TailSlice_def find_str_absent)
  ultimately show ?thesis using ExtractPort_absent [OF assms(5)] by (simp add: ParseHTTPURL_def)
qed

lemma url_without_port_witness:
  "ParseHTTPURL ''http://h'' = Some \<lparr>url_protocol = ''http'', url_user = [], url_password = [],
    url_host = ''h'', url_path = [], url_search = [], url_port = 0\<rparr>"
  using url_without_port [of "''http''" "''h''"] by simp

end
