(* ===== verification/Orm_Types.thy ===== *)
theory Orm_Types
  imports Http_Message Meta_To_String
begin

text \<open>
  What the query builders of \<open>orm/databases/postgres/postgres.hpp\<close> are built on: the enumerations
  of \<open>enums.hpp\<close>, the attributes \<open>Table\<close> and \<open>Column\<close>, and the description of a reflected struct.
  Reflection is a third-party library: the members of a struct with their types and attributes are
  the record \<open>reflected\<close>, an argument of the definitions; \<open>accumulate\<close> and \<open>for_each\<close> visit
  the members in their order.
\<close>

subsection \<open>enums.hpp\<close>

datatype data_type =
    dt_primarykey | dt_bigint | dt_bigserial | dt_boolean | dt_char_n | dt_cidr | dt_date
  | dt_integer | dt_decimal | dt_smallint | dt_smallserial | dt_serial | dt_text | dt_timestamp | dt_time_of_day

instantiation data_type :: enum
begin

definition enum_data_type :: "data_type list" where
  "enum_data_type = [dt_primarykey, dt_bigint, dt_bigserial, dt_boolean, dt_char_n, dt_cidr, dt_date,
    dt_integer, dt_decimal, dt_smallint, dt_smallserial, dt_serial, dt_text, dt_timestamp, dt_time_of_day]"

definition enum_all_data_type :: "(data_type \<Rightarrow> bool) \<Rightarrow> bool" where
  "enum_all_data_type P \<longleftrightarrow> list_all P enum_class.enum"

definition enum_ex_data_type :: "(data_type \<Rightarrow> bool) \<Rightarrow> bool" where
  "enum_ex_data_type P \<longleftrightarrow> list_ex P enum_class.enum"

instance
proof
  have all: "d \<in> set enum_class.enum" for d :: data_type
    by (cases d) (simp_all add: enum_data_type_def)
  then show U: "(UNIV :: data_type set) = set enum_class.enum" by auto
  show "distinct (enum_class.enum :: data_type list)" by (simp add: enum_data_type_def)
  show "enum_class.enum_all P \<longleftrightarrow> Ball UNIV P" for P :: "data_type \<Rightarrow> bool"
    by (simp add: enum_all_data_type_def list_all_iff U)
  show "enum_class.enum_ex P \<longleftrightarrow> Bex UNIV P" for P :: "data_type \<Rightarrow> bool"
    by (simp add: enum_ex_data_type_def list_ex_iff U)
qed

end

type_synonym column_flags = u8

definition cf_none :: column_flags where "cf_none = 0"
definition cf_primarykey :: column_flags where "cf_primarykey = 1"
definition cf_ignore_insert :: column_flags where "cf_ignore_insert = 2"
definition cf_ignore_on_serializer :: column_flags where "cf_ignore_on_serializer = 4"

definition flags_or :: "column_flags \<Rightarrow> column_flags \<Rightarrow> column_flags" where
  "flags_or lhs rhs = or lhs rhs"

definition flags_and :: "column_flags \<Rightarrow> column_flags \<Rightarrow> column_flags" where
  "flags_and lhs rhs = and lhs rhs"

text \<open>\<open>static_cast<bool>(flags & f)\<close>.\<close>

definition has_flag :: "column_flags \<Rightarrow> column_flags \<Rightarrow> bool" where
  "has_flag attribute f \<longleftrightarrow> flags_and attribute f \<noteq> 0"

subsection \<open>Attributes\<close>

record table =
  tb_name :: string
  tb_constraints :: string

record column =
  co_name :: string
  co_data_type :: data_type
  co_attribute :: column_flags
  co_custom :: string
  co_length :: int
  co_admin :: bool

text \<open>The constructor takes the length as \<open>uint32_t\<close> and keeps it as \<open>int32_t\<close>.\<close>

definition mk_column :: "string \<Rightarrow> data_type \<Rightarrow> 32 word \<Rightarrow> column_flags \<Rightarrow> string \<Rightarrow> bool \<Rightarrow> column" where
  "mk_column name dataType len attribute custom_definition_flags is_admin =
     \<lparr>co_name = name, co_data_type = dataType, co_attribute = attribute, co_custom = custom_definition_flags,
      co_length = sint len, co_admin = is_admin\<rparr>"

subsection \<open>Types\<close>

text \<open>
  The C++ types of members: \<open>int64_t\<close> is \<open>long\<close>, \<open>int32_t\<close> is \<open>int\<close>, \<open>int16_t\<close> is \<open>short\<close>, \<open>char\<close>
  is signed.  \<open>ty_enum\<close> is a scoped enumeration over \<open>int\<close>, \<open>ty_vector\<close> a vector of reflected
  structs; \<open>ty_other\<close> is any class type the templates know nothing about.
\<close>

datatype cpp_type =
    ty_bool | ty_char | ty_short | ty_int | ty_long | ty_uint | ty_float | ty_double
  | ty_string | ty_cstr | ty_ymd | ty_tod | ty_date_time | ty_enum | ty_vector | ty_other

definition is_integral :: "cpp_type \<Rightarrow> bool" where
  "is_integral t \<longleftrightarrow> t \<in> {ty_bool, ty_char, ty_short, ty_int, ty_long, ty_uint}"

definition is_floating_point :: "cpp_type \<Rightarrow> bool" where
  "is_floating_point t \<longleftrightarrow> t \<in> {ty_float, ty_double}"

definition is_text_type :: "cpp_type \<Rightarrow> bool" where
  "is_text_type t \<longleftrightarrow> t = ty_string \<or> t = ty_cstr"

text \<open>\<open>std::numeric_limits\<close>: signed and an integer type.\<close>

definition is_signed_integer :: "cpp_type \<Rightarrow> bool" where
  "is_signed_integer t \<longleftrightarrow> t \<in> {ty_char, ty_short, ty_int, ty_long}"

record member =
  mb_name :: string
  mb_type :: cpp_type
  mb_column :: column

record reflected =
  rf_table :: "table option"
  rf_members :: "member list"

text \<open>A function that concatenates can fail to compile, the value \<open>None\<close>.\<close>

fun accumulate :: "('a \<Rightarrow> 'm \<Rightarrow> 'a option) \<Rightarrow> 'm list \<Rightarrow> 'a \<Rightarrow> 'a option" where
  "accumulate f [] acc = Some acc"
| "accumulate f (m # ms) acc = (case f acc m of None \<Rightarrow> None | Some acc' \<Rightarrow> accumulate f ms acc')"

definition const_substr :: "nat \<Rightarrow> string \<Rightarrow> string option" where
  "const_substr pos s = (if pos \<le> length s then Some (drop pos s) else None)"

definition tab :: char where
  "tab = CHR 0x09"

subsection \<open>Lemmas\<close>

lemma has_flag_bits:
  "has_flag a cf_primarykey \<longleftrightarrow> bit a 0"
  "has_flag a cf_ignore_insert \<longleftrightarrow> bit a 1"
  "has_flag a cf_ignore_on_serializer \<longleftrightarrow> bit a 2"
proof -
  note * = and_exp_eq_0_iff_not_bit [of a]
  show "has_flag a cf_primarykey \<longleftrightarrow> bit a 0" "has_flag a cf_ignore_insert \<longleftrightarrow> bit a 1"
    "has_flag a cf_ignore_on_serializer \<longleftrightarrow> bit a 2"
    using * [of 0] * [of 1] * [of 2]
    by (simp_all add: has_flag_def flags_and_def cf_primarykey_def cf_ignore_insert_def cf_ignore_on_serializer_def)
qed

lemma has_flag_or:
  "has_flag (flags_or a b) f \<longleftrightarrow> has_flag a f \<or> has_flag b f"
  by (auto simp: has_flag_def flags_and_def flags_or_def bit_eq_iff bit_simps)

lemma accumulate_total:
  "(\<And>acc m. m \<in> set ms \<Longrightarrow> f acc m = Some (acc @ g m)) \<Longrightarrow> accumulate f ms acc = Some (acc @ concat (map g ms))"
  by (induction ms arbitrary: acc) auto

lemma accumulate_Some:
  "(\<And>acc m. f acc m = map_option (\<lambda>s. acc @ g s) (h m)) \<Longrightarrow>
    accumulate f ms acc = (if \<exists>m\<in>set ms. h m = None then None
      else Some (acc @ concat (map (\<lambda>m. g (the (h m))) ms)))"
  by (induction ms arbitrary: acc) (auto split: option.splits)

end
