(* ===== verification/Orm_Query.thy ===== *)
theory Orm_Query
  imports Orm_Types String_Utils
begin

text \<open>
  The namespace \<open>orm::query\<close> of \<open>orm/databases/postgres/postgres.hpp\<close>: the texts of the SQL
  statements, computed at compile time from a reflected struct.  \<open>None\<close> is a program the compiler
  rejects: a failed \<open>static_assert\<close>, a \<open>substr\<close> behind the end of a constant text, or a lambda
  whose \<open>return\<close> statements have different types.
\<close>

subsection \<open>Column definitions\<close>

definition should_apply_custom_define :: "column \<Rightarrow> bool" where
  "should_apply_custom_define c \<longleftrightarrow> cf_none = co_attribute c \<and> co_custom c \<noteq> []"

definition typed_spec :: "column \<Rightarrow> string \<Rightarrow> string" where
  "typed_spec c sql =
     (if should_apply_custom_define c then co_name c @ '' '' @ sql @ '' '' @ co_custom c
      else co_name c @ '' '' @ sql)"

definition make_sql_field_spec :: "member \<Rightarrow> string option" where
  "make_sql_field_spec m =
     (let MT = mb_type m; column = mb_column m in
      case co_data_type column of
        dt_primarykey \<Rightarrow> if is_integral MT then Some (co_name column @ '' bigserial PRIMARY KEY'') else None
      | dt_bigserial \<Rightarrow> if is_integral MT then Some (typed_spec column ''bigserial'') else None
      | dt_text \<Rightarrow> if is_text_type MT then Some (typed_spec column ''TEXT'') else None
      | dt_integer \<Rightarrow> if is_signed_integer MT \<or> MT = ty_enum then Some (typed_spec column ''integer'') else None
      | dt_bigint \<Rightarrow> if MT = ty_long then Some (typed_spec column ''bigint'') else None
      | dt_boolean \<Rightarrow> if MT = ty_bool then Some (typed_spec column ''boolean'') else None
      | dt_char_n \<Rightarrow>
          if co_length column \<noteq> -1 then do {
            buf \<leftarrow> to_string_t (co_length column) 10;
            Some (typed_spec column (''char['' @ takeWhile (\<lambda>c. c \<noteq> nul) buf @ '']''))
          } else None
      | dt_cidr \<Rightarrow> if is_text_type MT then Some (typed_spec column ''cidr'') else None
      | dt_date \<Rightarrow> if MT = ty_ymd then Some (typed_spec column ''date'') else None
      | dt_decimal \<Rightarrow> if is_floating_point MT then Some (typed_spec column ''decimal'') else None
      | dt_smallint \<Rightarrow> if MT = ty_short then Some (typed_spec column ''smallint'') else None
      | dt_smallserial \<Rightarrow> if MT = ty_short then Some (typed_spec column ''smallserial'') else None
      | dt_serial \<Rightarrow> if MT = ty_int then Some (typed_spec column ''serial'') else None
      | dt_timestamp \<Rightarrow> if MT = ty_date_time then Some (typed_spec column ''timestamp'') else None
      | dt_time_of_day \<Rightarrow> if MT = ty_tod then Some (typed_spec column ''time'') else None)"

definition query_create_table :: "reflected \<Rightarrow> string option" where
  "query_create_table T = do {
     tbl \<leftarrow> rf_table T;
     acc \<leftarrow> accumulate (\<lambda>acc m. map_option (\<lambda>spec. acc @ '','' @ [lf, tab] @ spec) (make_sql_field_spec m))
       (rf_members T) [];
     fields \<leftarrow> const_substr 2 acc;
     Some (if tb_constraints tbl \<noteq> []
       then ''CREATE TABLE IF NOT EXISTS '' @ tb_name tbl @ '' ('' @ [lf] @ fields @ '','' @ [lf] @ tb_constraints tbl @ [lf] @ '');''
       else ''CREATE TABLE IF NOT EXISTS '' @ tb_name tbl @ '' ('' @ [lf] @ fields @ [lf] @ '');'')
   }"

subsection \<open>Insertion\<close>

definition fields_to_insert :: "member list \<Rightarrow> nat" where
  "fields_to_insert ms =
     fold (\<lambda>m acc. if has_flag (co_attribute (mb_column m)) cf_ignore_insert
                      \<or> has_flag (co_attribute (mb_column m)) cf_primarykey
                      \<or> co_data_type (mb_column m) = dt_primarykey
                   then acc else acc + 1) ms 0"

definition insert_field :: "string \<Rightarrow> member \<Rightarrow> string option" where
  "insert_field acc m =
     (let column = mb_column m in
      if has_flag (co_attribute column) cf_ignore_insert then Some acc
      else if cf_primarykey = co_attribute column then Some acc
      else Some (acc @ '','' @ [lf, tab] @ '' '' @ co_name column))"

text \<open>
  \<open>meta::get_index_member\<close> asks the reflection library for the position of a member.  In
  \<open>insert_placeholder\<close> the first \<open>return\<close> has no \<open>else\<close>: for a member that is not inserted both
  statements are compiled and the lambda has two return types.
\<close>

definition get_index_member :: "(member \<Rightarrow> member list \<Rightarrow> nat) \<Rightarrow> member \<Rightarrow> member list \<Rightarrow> nat" where
  "get_index_member index_of m ms = index_of m ms"

definition insert_placeholder ::
    "(member \<Rightarrow> member list \<Rightarrow> nat) \<Rightarrow> member list \<Rightarrow> string \<Rightarrow> member \<Rightarrow> string option" where
  "insert_placeholder index_of ms acc m =
     (let column = mb_column m in
      if has_flag (co_attribute column) cf_ignore_insert then None
      else if cf_primarykey = co_attribute column then Some acc
      else do {
        buf \<leftarrow> to_string_t (int (get_index_member index_of m ms)) 10;
        Some (acc @ '','' @ [lf, tab] @ '' $'' @ takeWhile (\<lambda>c. c \<noteq> nul) buf)
      })"

definition query_insert :: "(member \<Rightarrow> member list \<Rightarrow> nat) \<Rightarrow> bool \<Rightarrow> reflected \<Rightarrow> string option" where
  "query_insert index_of GenPlaceHolders T = do {
     tbl \<leftarrow> rf_table T;
     if fields_to_insert (rf_members T) < 1 then None
     else do {
       acc \<leftarrow> accumulate insert_field (rf_members T) [];
       fields \<leftarrow> const_substr 2 acc;
       if GenPlaceHolders then do {
         vacc \<leftarrow> accumulate (insert_placeholder index_of (rf_members T)) (rf_members T) [];
         values \<leftarrow> const_substr 2 vacc;
         Some (''INSERT INTO '' @ tb_name tbl @ '' ('' @ [lf] @ fields @ [lf] @ '') VALUES'' @ '' ('' @ [lf] @ values @ [lf] @ '')'')
       }
       else Some (''INSERT INTO '' @ tb_name tbl @ '' ('' @ [lf] @ fields @ [lf] @ '') '')
     }
   }"

subsection \<open>The other statements\<close>

definition query_select :: "reflected \<Rightarrow> string option" where
  "query_select T = map_option (\<lambda>tbl. ''SELECT * FROM '' @ tb_name tbl @ '' '') (rf_table T)"

definition query_drop_table :: "reflected \<Rightarrow> string option" where
  "query_drop_table T = map_option (\<lambda>tbl. ''DROP TABLE '' @ tb_name tbl) (rf_table T)"

definition query_truncate :: "reflected \<Rightarrow> string option" where
  "query_truncate T = map_option (\<lambda>tbl. ''TRUNCATE TABLE '' @ tb_name tbl) (rf_table T)"

definition query_delete :: "reflected \<Rightarrow> string option" where
  "query_delete T = map_option (\<lambda>tbl. ''DELETE FROM '' @ tb_name tbl @ '' '') (rf_table T)"

definition query_update :: "reflected \<Rightarrow> string option" where
  "query_update T = map_option (\<lambda>tbl. ''UPDATE '' @ tb_name tbl @ '' SET '') (rf_table T)"

end
