(* ===== verification/Date_Time.thy ===== *)
theory Date_Time
  imports Meta_To_String
begin

text \<open>
  \<open>common/date/date_time.hpp\<close>, the class \<open>date_time\<close> (a calendar day and a time point in
  nanoseconds), and \<open>common/time/time.hpp\<close>.  The date library is third-party: its conversions
  between a day number and a calendar day, its formatting and its parsing are the record
  \<open>date_lib\<close>, an argument of the definitions.  \<open>std::chrono\<close> counts in signed 64 bit; an overflow
  is undefined behaviour, the value \<open>None\<close>.
\<close>

subsection \<open>std::chrono\<close>

definition i64 :: "int \<Rightarrow> int option" where
  "i64 n = (if - (2 ^ 63) \<le> n \<and> n < 2 ^ 63 then Some n else None)"

definition day_ns :: int where
  "day_ns = 86400000000000"

text \<open>\<open>floor<days>\<close> rounds down, \<open>duration_cast\<close> towards zero.\<close>

definition floor_days :: "int \<Rightarrow> int" where
  "floor_days t = t div day_ns"

definition cast_days :: "int \<Rightarrow> int" where
  "cast_days t = cdiv t day_ns"

subsection \<open>The date library\<close>

text \<open>
  \<open>sys_days\<close> of a calendar day is its number, \<open>year_month_day\<close> of a day number its calendar day;
  \<open>format\<close> with \<open>"%Y-%m-%d"\<close> and \<open>"%X"\<close>; \<open>parse\<close> with \<open>"%Y-%m-%d %X"\<close>, where \<open>None\<close> is a failed stream
  that leaves its target as it was.
\<close>

record 'y date_lib =
  dl_sys_days :: "'y \<Rightarrow> int"
  dl_ymd :: "int \<Rightarrow> 'y"
  dl_format_date :: "'y \<Rightarrow> string"
  dl_format_time :: "int \<Rightarrow> string"
  dl_parse :: "string \<Rightarrow> int option"

definition date_lib_ok :: "'y date_lib \<Rightarrow> bool" where
  "date_lib_ok lib \<longleftrightarrow> (\<forall>n. dl_sys_days lib (dl_ymd lib n) = n)"

subsection \<open>date_time\<close>

record 'y date_time =
  dt_ymd :: 'y
  dt_time :: int

definition date_time_now :: "'y date_lib \<Rightarrow> int \<Rightarrow> 'y date_time" where
  "date_time_now lib now = \<lparr>dt_ymd = dl_ymd lib (floor_days now), dt_time = now\<rparr>"

definition mk_date_time :: "'y \<Rightarrow> int \<Rightarrow> 'y date_time" where
  "mk_date_time ymd time = \<lparr>dt_ymd = ymd, dt_time = time\<rparr>"

definition date_time_str :: "'y date_lib \<Rightarrow> 'y date_time \<Rightarrow> string option" where
  "date_time_str lib d = do {
     midnight \<leftarrow> i64 (dl_sys_days lib (dt_ymd d) * day_ns);
     time \<leftarrow> i64 (dt_time d - midnight);
     Some (dl_format_date lib (dt_ymd d) @ '' '' @ dl_format_time lib time)
   }"

definition days_since :: "'y date_time \<Rightarrow> 'y date_time \<Rightarrow> 32 word option" where
  "days_since d rhs = do {
     diff \<leftarrow> i64 (dt_time d - dt_time rhs);
     Some (word_of_int (cast_days diff))
   }"

definition from_str :: "'y date_lib \<Rightarrow> string \<Rightarrow> 'y date_time" where
  "from_str lib s =
     (let tp = (case dl_parse lib s of Some t \<Rightarrow> t | None \<Rightarrow> 0)
      in mk_date_time (dl_ymd lib (floor_days tp)) tp)"

definition date_time_minus :: "'y date_lib \<Rightarrow> 'y date_time \<Rightarrow> 'y date_time \<Rightarrow> 'y date_time option" where
  "date_time_minus lib d rhs = do {
     diff \<leftarrow> i64 (dt_time d - dt_time rhs);
     midnight \<leftarrow> i64 (dl_sys_days lib (dt_ymd d) * day_ns);
     tp \<leftarrow> i64 (midnight - diff);
     Some (d\<lparr>dt_ymd := dl_ymd lib (floor_days tp), dt_time := tp\<rparr>)
   }"

subsection \<open>time.hpp\<close>

definition NANOS_TO_MICROS :: int where "NANOS_TO_MICROS = 1000"
definition MICROS_TO_MILLIS :: int where "MICROS_TO_MILLIS = 1000"
definition MILLIS_TO_SECS :: int where "MILLIS_TO_SECS = 1000"
definition NANOS_TO_MILLIS :: int where "NANOS_TO_MILLIS = NANOS_TO_MICROS * MICROS_TO_MILLIS"
definition NANOS_TO_SECS :: int where "NANOS_TO_SECS = NANOS_TO_MILLIS * MILLIS_TO_SECS"

definition current_nanos :: "int \<Rightarrow> int" where
  "current_nanos now = now"

text \<open>\<open>ctime\<close> gives a null pointer for a year it cannot print; assigning that is undefined.\<close>

definition current_time_str :: "(int \<Rightarrow> string option) \<Rightarrow> int \<Rightarrow> string option" where
  "current_time_str ctime now = do {
     s \<leftarrow> ctime (cdiv now NANOS_TO_SECS);
     Some (if s \<noteq> [] then s[length s - 1 := nul] else s)
   }"

subsection \<open>Lemmas\<close>

lemma day_ns_pos [simp]: "0 < day_ns" "\<bar>day_ns\<bar> = day_ns" "sgn day_ns = 1"
  by (simp_all add: day_ns_def)

lemma i64_Some_iff: "i64 n = Some m \<longleftrightarrow> m = n \<and> - (2 ^ 63) \<le> n \<and> n < 2 ^ 63"
  by (auto simp: i64_def)

text \<open>The calendar day is the day of the time point.\<close>

definition date_time_inv :: "'y date_lib \<Rightarrow> 'y date_time \<Rightarrow> bool" where
  "date_time_inv lib d \<longleftrightarrow> dt_ymd d = dl_ymd lib (floor_days (dt_time d))"

lemma date_time_inv_made:
  "date_time_inv lib (date_time_now lib now)" "date_time_inv lib (from_str lib s)"
  by (simp_all add: date_time_inv_def date_time_now_def from_str_def mk_date_time_def Let_def)

lemma date_time_inv_minus: "date_time_minus lib d rhs = Some d' \<Longrightarrow> date_time_inv lib d'"
  by (auto simp: date_time_minus_def date_time_inv_def option_bind_Some_iff)

lemma midnight_le:
  "date_lib_ok lib \<Longrightarrow> date_time_inv lib d \<Longrightarrow>
    dl_sys_days lib (dt_ymd d) * day_ns = dt_time d - dt_time d mod day_ns"
  by (simp add: date_lib_ok_def date_time_inv_def floor_days_def minus_mod_eq_div_mult)

lemma cast_days_bound: "i64 n = Some m \<Longrightarrow> \<bar>cast_days n\<bar> < 2 ^ 31"
proof -
  assume "i64 n = Some m"
  then have "\<bar>n\<bar> \<le> 2 ^ 63" by (auto simp: i64_Some_iff)
  then have "\<bar>n\<bar> div day_ns \<le> 2 ^ 63 div day_ns" by (intro zdiv_mono1) auto
  also have "\<dots> < 2 ^ 31" by (simp add: day_ns_def)
  finally have "\<bar>n\<bar> div day_ns < 2 ^ 31" .
  moreover have "0 \<le> \<bar>n\<bar> div day_ns" by (simp add: pos_imp_zdiv_nonneg_iff)
  ultimately show ?thesis by (auto simp: cast_days_def cdiv_def abs_mult abs_sgn_eq)
qed

lemma cast_days_neg: "cast_days (- n) = - cast_days n"
  by (simp add: cast_days_def cdiv_def)

end
