(* ===== verification/Orm.thy ===== *)
theory Orm
  imports Orm_Query Date_Time
begin

text \<open>
  The run-time half of \<open>orm/databases/postgres/postgres.hpp\<close>: the texts of values, and the
  operations that build a statement and give it to the database.  The database client (libpqxx) is
  third-party: a transaction, its statements and the fields of a row are the record \<open>pqxx\<close>, over
  a state of the database of any type.  The formatting of floating point numbers and of the date
  library's types is the record \<open>orm_lib\<close>, \<open>boost::lexical_cast\<close> an argument.  The statements
  the source also prints to \<open>std::cout\<close> are not modelled.
\<close>

text \<open>
  How an operation ends: the compiler rejects the instantiation, undefined behaviour, an exception
  (a failed assertion is one that nothing catches), or a result.
\<close>

datatype 'a outcome = Ill_formed | Undef | Throws cpp_exn | Returns 'a

fun and_then :: "'a outcome \<Rightarrow> ('a \<Rightarrow> 'b outcome) \<Rightarrow> 'b outcome" where
  "and_then (Returns x) f = f x"
| "and_then (Throws e) f = Throws e"
| "and_then Undef f = Undef"
| "and_then Ill_formed f = Ill_formed"

subsection \<open>Values\<close>

datatype ('f, 'y) cpp_value =
    V_bool bool | V_char char | V_short "16 word" | V_int "32 word" | V_long "64 word" | V_uint "32 word"
  | V_float 'f | V_double 'f | V_string string | V_cstr "string option" | V_ymd 'y | V_tod int
  | V_date_time "'y date_time" | V_enum "32 word" | V_vector "(string \<times> ('f, 'y) cpp_value) list list" | V_other

fun value_type :: "('f, 'y) cpp_value \<Rightarrow> cpp_type" where
  "value_type (V_bool b) = ty_bool"
| "value_type (V_char c) = ty_char"
| "value_type (V_short w) = ty_short"
| "value_type (V_int w) = ty_int"
| "value_type (V_long w) = ty_long"
| "value_type (V_uint w) = ty_uint"
| "value_type (V_float f) = ty_float"
| "value_type (V_double f) = ty_double"
| "value_type (V_string s) = ty_string"
| "value_type (V_cstr p) = ty_cstr"
| "value_type (V_ymd y) = ty_ymd"
| "value_type (V_tod t) = ty_tod"
| "value_type (V_date_time d) = ty_date_time"
| "value_type (V_enum w) = ty_enum"
| "value_type (V_vector os) = ty_vector"
| "value_type V_other = ty_other"

text \<open>
  \<open>os << v\<close> for floating point numbers and for a time of day; \<open>parse\<close> with \<open>"%T"\<close> and
  \<open>"%Y-%m-%d"\<close>, where \<open>None\<close> is a failed stream.
\<close>

record ('f, 'y) orm_lib =
  ol_date :: "'y date_lib"
  ol_float :: "'f \<Rightarrow> string"
  ol_double :: "'f \<Rightarrow> string"
  ol_format_tod :: "int \<Rightarrow> string"
  ol_parse_tod :: "string \<Rightarrow> int option"
  ol_parse_ymd :: "string \<Rightarrow> 'y option"

definition bool_text :: "bool \<Rightarrow> string" where
  "bool_text b = (if b then ''true'' else ''false'')"

definition quote :: string where
  "quote = [CHR 0x27]"

text \<open>
  Overload resolution of \<open>normalize_type\<close>: a \<open>char\<close> is promoted to \<open>int\<close>; a \<open>const char*\<close> converts
  to \<open>bool\<close> by a standard conversion, which wins over the conversion to \<open>std::string\<close>; an unsigned
  number converts to every arithmetic type equally well, which is ambiguous; a scoped enumeration
  converts to none.
\<close>

definition has_overload :: "cpp_type \<Rightarrow> bool" where
  "has_overload t \<longleftrightarrow> t \<notin> {ty_uint, ty_enum, ty_vector, ty_other}"

fun normalize_type :: "('f, 'y) orm_lib \<Rightarrow> ('f, 'y) cpp_value \<Rightarrow> string outcome" where
  "normalize_type lib (V_int w) = Returns (to_string_int (sint w))"
| "normalize_type lib (V_char c) = Returns (to_string_int (schar c))"
| "normalize_type lib (V_float f) = Returns (ol_float lib f)"
| "normalize_type lib (V_double f) = Returns (ol_double lib f)"
| "normalize_type lib (V_ymd y) = Returns (quote @ dl_format_date (ol_date lib) y @ quote)"
| "normalize_type lib (V_tod t) = Returns (ol_format_tod lib t)"
| "normalize_type lib (V_bool b) = Returns (bool_text b)"
| "normalize_type lib (V_cstr p) = Returns (bool_text (p \<noteq> None))"
| "normalize_type lib (V_date_time d) =
     (case date_time_str (ol_date lib) d of None \<Rightarrow> Undef | Some s \<Rightarrow> Returns (quote @ s @ quote))"
| "normalize_type lib (V_long w) = Returns (to_string_int (sint w))"
| "normalize_type lib (V_short w) = Returns (to_string_int (sint w))"
| "normalize_type lib (V_string s) = Returns (quote @ s @ quote)"
| "normalize_type lib (V_uint w) = Ill_formed"
| "normalize_type lib (V_enum w) = Ill_formed"
| "normalize_type lib (V_vector os) = Ill_formed"
| "normalize_type lib V_other = Ill_formed"

subsection \<open>The file's copy of split\<close>

function orm_split_loop :: "string \<Rightarrow> char \<Rightarrow> bool \<Rightarrow> nat \<Rightarrow> string list \<Rightarrow> string list" where
  "orm_split_loop str delimiter skip_empty pos_last tokens =
     (let pos_current = (case find_char str delimiter pos_last of None \<Rightarrow> length str | Some p \<Rightarrow> p);
          len = pos_current - pos_last;
          tokens' = (if \<not> skip_empty \<or> len \<noteq> 0 then tokens @ [take len (drop pos_last str)] else tokens)
      in if pos_current = length str then tokens'
         else orm_split_loop str delimiter skip_empty (pos_current + 1) tokens')"
  by pat_completeness auto
termination
  by (relation "measure (\<lambda>(str, d, sk, pos, tk). Suc (length str) - pos)")
     (auto split: option.splits dest: find_char_Some)

declare orm_split_loop.simps [simp del]

definition orm_split :: "string \<Rightarrow> char \<Rightarrow> bool \<Rightarrow> string list" where
  "orm_split str delimiter skip_empty = orm_split_loop str delimiter skip_empty 0 []"

subsection \<open>The database\<close>

text \<open>
  \<open>pqxx::work w(c)\<close>, \<open>exec\<close> and \<open>exec0\<close> (the rows and the number of affected rows), \<open>commit\<close>, the
  destructor of the transaction, and \<open>row[name].as<T>()\<close>.
\<close>

record ('db, 'row, 'f, 'y) pqxx =
  px_begin :: "'db \<Rightarrow> (cpp_exn + unit) \<times> 'db"
  px_exec :: "string \<Rightarrow> 'db \<Rightarrow> (cpp_exn + 'row list \<times> nat) \<times> 'db"
  px_exec0 :: "string \<Rightarrow> 'db \<Rightarrow> (cpp_exn + 'row list \<times> nat) \<times> 'db"
  px_commit :: "'db \<Rightarrow> (cpp_exn + unit) \<times> 'db"
  px_close :: "'db \<Rightarrow> 'db"
  px_text :: "'row \<Rightarrow> string \<Rightarrow> cpp_exn + string"
  px_int :: "'row \<Rightarrow> string \<Rightarrow> cpp_exn + 32 word"
  px_as :: "cpp_type \<Rightarrow> 'row \<Rightarrow> string \<Rightarrow> cpp_exn + ('f, 'y) cpp_value"

definition exec_commit ::
    "('db, 'row, 'f, 'y) pqxx \<Rightarrow> string \<Rightarrow> ('row list \<times> nat \<Rightarrow> bool) \<Rightarrow> 'db \<Rightarrow> bool outcome \<times> 'db" where
  "exec_commit px sql result db =
     (case px_begin px db of
        (Inl e, db1) \<Rightarrow> (Throws e, db1)
      | (Inr _, db1) \<Rightarrow>
          (case px_exec0 px sql db1 of
             (Inl e, db2) \<Rightarrow> (Throws e, px_close px db2)
           | (Inr res, db2) \<Rightarrow>
               (case px_commit px db2 of
                  (Inl e, db3) \<Rightarrow> (Throws e, px_close px db3)
                | (Inr _, db3) \<Rightarrow> (Returns (result res), px_close px db3))))"

definition orm_create_table :: "('db, 'row, 'f, 'y) pqxx \<Rightarrow> reflected \<Rightarrow> 'db \<Rightarrow> bool outcome \<times> 'db" where
  "orm_create_table px T db =
     (case query_create_table T of
        None \<Rightarrow> (Ill_formed, db)
      | Some create_sql \<Rightarrow> exec_commit px create_sql (\<lambda>_. True) db)"

subsection \<open>insert\<close>

definition is_value_member :: "member \<Rightarrow> bool" where
  "is_value_member m \<longleftrightarrow> \<not> (has_flag (co_attribute (mb_column m)) cf_ignore_insert
     \<or> has_flag (co_attribute (mb_column m)) cf_primarykey)"

definition member_text :: "('f, 'y) orm_lib \<Rightarrow> ('f, 'y) cpp_value \<Rightarrow> string outcome" where
  "member_text lib tv = (case tv of V_enum w \<Rightarrow> normalize_type lib (V_int w) | _ \<Rightarrow> normalize_type lib tv)"

fun insert_values ::
    "('f, 'y) orm_lib \<Rightarrow> (string \<Rightarrow> ('f, 'y) cpp_value) \<Rightarrow> member list \<Rightarrow> string \<Rightarrow> string outcome" where
  "insert_values lib v [] query_sql = Returns query_sql"
| "insert_values lib v (m # ms) query_sql =
     (if \<not> is_value_member m then insert_values lib v ms query_sql
      else and_then (member_text lib (v (mb_name m)))
             (\<lambda>t. insert_values lib v ms (query_sql @ '','' @ [lf, tab] @ t)))"

text \<open>
  The \<open>return\<close> for a member that is not inserted has no \<open>else\<close>: what follows is compiled for every
  member.
\<close>

definition insert_compiles :: "reflected \<Rightarrow> bool" where
  "insert_compiles T \<longleftrightarrow> list_all (\<lambda>m. has_overload (mb_type m) \<or> mb_type m = ty_enum) (rf_members T)"

definition orm_insert ::
    "('db, 'row, 'f, 'y) pqxx \<Rightarrow> ('f, 'y) orm_lib \<Rightarrow> (member \<Rightarrow> member list \<Rightarrow> nat) \<Rightarrow> reflected
      \<Rightarrow> (string \<Rightarrow> ('f, 'y) cpp_value) \<Rightarrow> 'db \<Rightarrow> bool outcome \<times> 'db" where
  "orm_insert px lib index_of T v db =
     (case query_insert index_of False T of
        None \<Rightarrow> (Ill_formed, db)
      | Some front_query_sql \<Rightarrow>
          if \<not> insert_compiles T then (Ill_formed, db)
          else (case and_then (insert_values lib v (rf_members T) [])
                       (\<lambda>q. if length q < 1 then Throws Out_of_range else Returns (drop 1 q @ [lf] @ '');'')) of
                  Returns query_sql \<Rightarrow>
                    exec_commit px (front_query_sql @ ''VALUES ('' @ query_sql) (\<lambda>(rows, affected). affected \<noteq> 0) db
                | Throws e \<Rightarrow> (Throws e, db)
                | Undef \<Rightarrow> (Undef, db)
                | Ill_formed \<Rightarrow> (Ill_formed, db)))"

subsection \<open>select\<close>

text \<open>
  A time of day and a calendar day that do not parse are left as they were default-initialised,
  which is indeterminate; \<open>from_str\<close> has a default of its own, and its result is also printed.
\<close>

definition read_member ::
    "('db, 'row, 'f, 'y) pqxx \<Rightarrow> ('f, 'y) orm_lib \<Rightarrow> 'row \<Rightarrow> member \<Rightarrow> ('f, 'y) cpp_value outcome" where
  "read_member px lib row m =
     (let fname = mb_name m in
      case mb_type m of
        ty_date_time \<Rightarrow>
          (case px_text px row fname of Inl e \<Rightarrow> Throws e
           | Inr v \<Rightarrow>
               (let x = from_str (ol_date lib) v
                in case date_time_str (ol_date lib) x of None \<Rightarrow> Undef | Some printed \<Rightarrow> Returns (V_date_time x)))
      | ty_tod \<Rightarrow>
          (case px_text px row fname of Inl e \<Rightarrow> Throws e
           | Inr v \<Rightarrow> (case ol_parse_tod lib v of None \<Rightarrow> Undef | Some d \<Rightarrow> Returns (V_tod d)))
      | ty_ymd \<Rightarrow>
          (case px_text px row fname of Inl e \<Rightarrow> Throws e
           | Inr v \<Rightarrow> (case ol_parse_ymd lib v of None \<Rightarrow> Undef | Some d \<Rightarrow> Returns (V_ymd d)))
      | ty_enum \<Rightarrow> (case px_int px row fname of Inl e \<Rightarrow> Throws e | Inr v \<Rightarrow> Returns (V_enum v))
      | MT \<Rightarrow> (case px_as px MT row fname of Inl e \<Rightarrow> Throws e | Inr v \<Rightarrow> Returns v))"

type_synonym ('f, 'y) object = "(string \<times> ('f, 'y) cpp_value) list"

fun read_row ::
    "('db, 'row, 'f, 'y) pqxx \<Rightarrow> ('f, 'y) orm_lib \<Rightarrow> 'row \<Rightarrow> member list \<Rightarrow> ('f, 'y) object
      \<Rightarrow> ('f, 'y) object outcome" where
  "read_row px lib row [] obj = Returns obj"
| "read_row px lib row (m # ms) obj =
     and_then (read_member px lib row m) (\<lambda>v. read_row px lib row ms (obj @ [(mb_name m, v)]))"

definition orm_select ::
    "('db, 'row, 'f, 'y) pqxx \<Rightarrow> ('f, 'y) orm_lib \<Rightarrow> reflected \<Rightarrow> string \<Rightarrow> 'db
      \<Rightarrow> ('f, 'y) object option outcome \<times> 'db" where
  "orm_select px lib T cond db =
     (case query_select T of
        None \<Rightarrow> (Ill_formed, db)
      | Some sql \<Rightarrow>
          (case px_begin px db of
             (Inl e, db1) \<Rightarrow> (Throws e, db1)
           | (Inr _, db1) \<Rightarrow>
               (case px_exec px (sql @ cond) db1 of
                  (Inl e, db2) \<Rightarrow> (Throws e, px_close px db2)
                | (Inr ([], affected), db2) \<Rightarrow> (Returns None, px_close px db2)
                | (Inr (row # rows, affected), db2) \<Rightarrow>
                    (and_then (read_row px lib row (rf_members T) []) (\<lambda>obj. Returns (Some obj)), px_close px db2))))"

fun read_rows ::
    "('db, 'row, 'f, 'y) pqxx \<Rightarrow> ('f, 'y) orm_lib \<Rightarrow> member list \<Rightarrow> 'row list \<Rightarrow> ('f, 'y) object list
      \<Rightarrow> ('f, 'y) object list outcome" where
  "read_rows px lib ms [] final = Returns final"
| "read_rows px lib ms (row # rows) final =
     and_then (read_row px lib row ms []) (\<lambda>obj. read_rows px lib ms rows (final @ [obj]))"

definition orm_select_many ::
    "('db, 'row, 'f, 'y) pqxx \<Rightarrow> ('f, 'y) orm_lib \<Rightarrow> reflected \<Rightarrow> string \<Rightarrow> 'db
      \<Rightarrow> ('f, 'y) object list outcome \<times> 'db" where
  "orm_select_many px lib T cond db =
     (case query_select T of
        None \<Rightarrow> (Ill_formed, db)
      | Some sql \<Rightarrow>
          (case px_begin px db of
             (Inl e, db1) \<Rightarrow> (Throws e, db1)
           | (Inr _, db1) \<Rightarrow>
               (case px_exec px (sql @ cond) db1 of
                  (Inl e, db2) \<Rightarrow> (Throws e, px_close px db2)
                | (Inr (rows, affected), db2) \<Rightarrow>
                    (if rows = [] then Returns [] else read_rows px lib (rf_members T) rows [], px_close px db2))))"

definition orm_delete :: "('db, 'row, 'f, 'y) pqxx \<Rightarrow> reflected \<Rightarrow> string \<Rightarrow> 'db \<Rightarrow> bool outcome \<times> 'db" where
  "orm_delete px T cond db =
     (case query_delete T of
        None \<Rightarrow> (Ill_formed, db)
      | Some sql \<Rightarrow> exec_commit px (sql @ cond) (\<lambda>_. True) db)"

subsection \<open>update\<close>

fun up_find_value ::
    "('f, 'y) orm_lib \<Rightarrow> (string \<times> ('f, 'y) cpp_value) list \<Rightarrow> string \<Rightarrow> string \<Rightarrow> string outcome" where
  "up_find_value lib [] field_name result_value = Returns result_value"
| "up_find_value lib ((fname, v) # t) field_name result_value =
     (if fname = field_name
      then and_then (normalize_type lib v) (\<lambda>nv. up_find_value lib t field_name nv)
      else up_find_value lib t field_name result_value)"

definition field_exists :: "member list \<Rightarrow> string \<Rightarrow> bool" where
  "field_exists ms field_name =
     (let field_count = fold (\<lambda>m acc. if mb_name m = field_name then acc + 1 else acc) ms (0 :: nat)
      in field_count > 0)"

text \<open>\<open>my_for_each\<close> over the arguments, which asserts that each names a field.\<close>

fun my_for_each :: "member list \<Rightarrow> (string \<times> ('f, 'y) cpp_value) list \<Rightarrow> unit outcome" where
  "my_for_each ms [] = Returns ()"
| "my_for_each ms ((field_name, v) # t) =
     (if field_exists ms field_name then my_for_each ms t else Throws Assertion_failed)"

fun update_sets ::
    "('f, 'y) orm_lib \<Rightarrow> (string \<times> ('f, 'y) cpp_value) list \<Rightarrow> member list \<Rightarrow> string \<Rightarrow> string outcome" where
  "update_sets lib t [] update_sql = Returns update_sql"
| "update_sets lib t (m # ms) update_sql =
     and_then (up_find_value lib t (mb_name m) [])
       (\<lambda>res. update_sets lib t ms
          (if res \<noteq> [] then update_sql @ [lf, tab] @ co_name (mb_column m) @ ''='' @ res @ '','' else update_sql))"

definition finish_update ::
    "('db, 'row, 'f, 'y) pqxx \<Rightarrow> string \<Rightarrow> 'db \<Rightarrow> string outcome \<Rightarrow> bool outcome \<times> 'db" where
  "finish_update px cond db r =
     (case r of
        Returns update_sql \<Rightarrow>
          exec_commit px (take (length update_sql - 1) update_sql @ '' '' @ cond) (\<lambda>_. True) db
      | Throws e \<Rightarrow> (Throws e, db)
      | Undef \<Rightarrow> (Undef, db)
      | Ill_formed \<Rightarrow> (Ill_formed, db))"

definition orm_update ::
    "('db, 'row, 'f, 'y) pqxx \<Rightarrow> ('f, 'y) orm_lib \<Rightarrow> reflected \<Rightarrow> string
      \<Rightarrow> (string \<times> ('f, 'y) cpp_value) list \<Rightarrow> 'db \<Rightarrow> bool outcome \<times> 'db" where
  "orm_update px lib T cond args db =
     (case query_update T of
        None \<Rightarrow> (Ill_formed, db)
      | Some sql \<Rightarrow>
          if \<not> list_all (\<lambda>(n, v). has_overload (value_type v)) args then (Ill_formed, db)
          else finish_update px cond db
            (and_then (my_for_each (rf_members T) args) (\<lambda>_. update_sets lib args (rf_members T) sql)))"

fun update_sets_map ::
    "('f, 'y) orm_lib \<Rightarrow> (cpp_type \<Rightarrow> string \<Rightarrow> cpp_exn + ('f, 'y) cpp_value) \<Rightarrow> headers \<Rightarrow> member list
      \<Rightarrow> string \<Rightarrow> string outcome" where
  "update_sets_map lib lexical_cast data [] update_sql = Returns update_sql"
| "update_sets_map lib lexical_cast data (m # ms) update_sql =
     (case um_find data (mb_name m) of
        None \<Rightarrow> update_sets_map lib lexical_cast data ms update_sql
      | Some s \<Rightarrow>
          (case lexical_cast (mb_type m) s of
             Inl e \<Rightarrow> Throws e
           | Inr v \<Rightarrow> and_then (normalize_type lib v)
               (\<lambda>nv. update_sets_map lib lexical_cast data ms
                  (update_sql @ [lf, tab] @ co_name (mb_column m) @ ''='' @ nv @ '',''))))"

text \<open>\<open>castable\<close> are the types \<open>boost::lexical_cast\<close> accepts.\<close>

definition orm_update_map ::
    "('db, 'row, 'f, 'y) pqxx \<Rightarrow> ('f, 'y) orm_lib \<Rightarrow> (cpp_type \<Rightarrow> bool)
      \<Rightarrow> (cpp_type \<Rightarrow> string \<Rightarrow> cpp_exn + ('f, 'y) cpp_value) \<Rightarrow> reflected \<Rightarrow> string \<Rightarrow> headers \<Rightarrow> 'db
      \<Rightarrow> bool outcome \<times> 'db" where
  "orm_update_map px lib castable lexical_cast T cond data db =
     (case query_update T of
        None \<Rightarrow> (Ill_formed, db)
      | Some sql \<Rightarrow>
          if \<not> list_all (\<lambda>m. castable (mb_type m) \<and> has_overload (mb_type m)) (rf_members T) then (Ill_formed, db)
          else finish_update px cond db (update_sets_map lib lexical_cast data (rf_members T) sql))"

end
