(* ===== verification/Orm_Correct.thy ===== *)
theory Orm_Correct
  imports Orm
begin

text \<open>
  Lemmas about the ORM: the concatenations as separated lists, the two member lists of an insertion,
  the assignments of an update, and what a selection reads from a row.
\<close>

subsection \<open>Separated lists\<close>

fun sep_by :: "string \<Rightarrow> string list \<Rightarrow> string" where
  "sep_by sep [] = []"
| "sep_by sep [x] = x"
| "sep_by sep (x # y # ys) = x @ sep @ sep_by sep (y # ys)"

lemma concat_sep_by: "xs \<noteq> [] \<Longrightarrow> concat (map (\<lambda>x. sep @ x) xs) = sep @ sep_by sep xs"
  by (induction sep xs rule: sep_by.induct) auto

lemma concat_map_sep: "xs \<noteq> [] \<Longrightarrow> concat (map (\<lambda>x. sep @ f x) xs) = sep @ sep_by sep (map f xs)"
  using concat_sep_by [of "map f xs" sep] by (simp add: comp_def)

lemma concat_map_end: "xs \<noteq> [] \<Longrightarrow> concat (map (\<lambda>x. f x @ sep) xs) = sep_by sep (map f xs) @ sep"
  by (induction xs rule: induct_list012) auto

lemma sep_by_Cons: "xs \<noteq> [] \<Longrightarrow> sep_by sep (x # xs) = x @ sep @ sep_by sep xs"
  by (cases xs) auto

subsection \<open>insert\<close>

definition listed :: "member list \<Rightarrow> member list" where
  "listed ms = filter (\<lambda>m. \<not> has_flag (co_attribute (mb_column m)) cf_ignore_insert
                          \<and> co_attribute (mb_column m) \<noteq> cf_primarykey) ms"

definition valued :: "member list \<Rightarrow> member list" where
  "valued ms = filter is_value_member ms"

lemma valued_listed: "is_value_member m \<Longrightarrow> \<not> has_flag (co_attribute (mb_column m)) cf_ignore_insert
    \<and> co_attribute (mb_column m) \<noteq> cf_primarykey"
  by (auto simp: is_value_member_def has_flag_def flags_and_def cf_primarykey_def cf_ignore_insert_def)

lemma count_fields:
  "fold (\<lambda>m acc. if P m then acc else acc + 1) ms n = n + length (filter (\<lambda>m. \<not> P m) ms)"
  by (induction ms arbitrary: n) auto

lemma fields_to_insert_valued:
  assumes "0 < fields_to_insert ms"
  shows "valued ms \<noteq> []" "listed ms \<noteq> []"
proof -
  have "\<exists>m\<in>set ms. is_value_member m"
    using assms by (auto simp: fields_to_insert_def count_fields is_value_member_def filter_empty_conv
        length_greater_0_conv simp del: length_greater_0_conv [symmetric])
  then show "valued ms \<noteq> []" "listed ms \<noteq> []"
    by (auto simp: valued_def listed_def filter_empty_conv dest: valued_listed)
qed

lemma accumulate_insert_field:
  "accumulate insert_field ms acc
    = Some (acc @ concat (map (\<lambda>m. '','' @ [lf, tab] @ '' '' @ co_name (mb_column m)) (listed ms)))"
  by (induction ms arbitrary: acc) (auto simp: insert_field_def Let_def listed_def)

definition column_list :: "member list \<Rightarrow> string" where
  "column_list ms = [tab] @ '' '' @ sep_by ('','' @ [lf, tab] @ '' '') (map (\<lambda>m. co_name (mb_column m)) (listed ms))"

lemma insert_columns:
  assumes "listed ms \<noteq> []"
  shows "accumulate insert_field ms [] \<bind> const_substr 2 = Some (column_list ms)"
proof -
  have "concat (map (\<lambda>m. '','' @ [lf, tab] @ '' '' @ co_name (mb_column m)) (listed ms))
      = ('','' @ [lf, tab] @ '' '') @ sep_by ('','' @ [lf, tab] @ '' '') (map (\<lambda>m. co_name (mb_column m)) (listed ms))"
    using concat_map_sep [OF assms, of "'','' @ [lf, tab] @ '' ''" "\<lambda>m. co_name (mb_column m)"] by simp
  then show ?thesis by (simp add: accumulate_insert_field const_substr_def column_list_def numeral_2_eq_2)
qed

lemma query_insert_text:
  assumes "rf_table T = Some tbl" "0 < fields_to_insert (rf_members T)"
  shows "query_insert index_of False T
    = Some (''INSERT INTO '' @ tb_name tbl @ '' ('' @ [lf] @ column_list (rf_members T) @ [lf] @ '') '')"
proof -
  have "\<exists>acc. accumulate insert_field (rf_members T) [] = Some acc \<and> const_substr 2 acc = Some (column_list (rf_members T))"
    using insert_columns [OF fields_to_insert_valued(2) [OF assms(2)]] by (simp add: option_bind_Some_iff)
  then show ?thesis using assms by (auto simp: query_insert_def)
qed

lemma insert_values_text:
  "\<forall>m\<in>set ms. is_value_member m \<longrightarrow> member_text lib (v (mb_name m)) = Returns (tx m) \<Longrightarrow>
    insert_values lib v ms q = Returns (q @ concat (map (\<lambda>m. '','' @ [lf, tab] @ tx m) (valued ms)))"
  by (induction ms arbitrary: q) (auto simp: valued_def)

lemma member_text_typed:
  assumes "has_overload (value_type tv) \<or> value_type tv = ty_enum"
    and "\<And>d. tv = V_date_time d \<Longrightarrow> date_time_str (ol_date lib) d \<noteq> None"
  shows "\<exists>t. member_text lib tv = Returns t"
  using assms by (cases tv) (auto simp: member_text_def has_overload_def)

lemma normalize_ill_formed: "normalize_type lib v = Ill_formed \<longleftrightarrow> \<not> has_overload (value_type v)"
  by (cases v) (auto simp: has_overload_def split: option.split)

lemma listed_valued_lengths:
  "length (listed ms) = length (valued ms) \<longleftrightarrow>
    (\<forall>m\<in>set ms. has_flag (co_attribute (mb_column m)) cf_primarykey \<longrightarrow>
       has_flag (co_attribute (mb_column m)) cf_ignore_insert \<or> co_attribute (mb_column m) = cf_primarykey)"
proof (induction ms)
  case Nil
  show ?case by (simp add: listed_def valued_def)
next
  case (Cons m ms)
  have le: "length (valued ms) \<le> length (listed ms)" for ms
    unfolding listed_def valued_def by (induction ms) (auto dest: valued_listed)
  show ?case
    using Cons.IH le [of ms] valued_listed [of m]
    by (auto simp: listed_def valued_def is_value_member_def)
qed

subsection \<open>select\<close>

lemma and_then_Returns_iff: "and_then r f = Returns y \<longleftrightarrow> (\<exists>x. r = Returns x \<and> f x = Returns y)"
  by (cases r) auto

lemma read_row_Returns:
  "read_row px lib row ms obj = Returns obj' \<longleftrightarrow>
    (\<exists>new. obj' = obj @ new \<and> list_all2 (\<lambda>m (n, v). n = mb_name m \<and> read_member px lib row m = Returns v) ms new)"
proof (induction ms arbitrary: obj)
  case Nil
  show ?case by auto
next
  case (Cons m ms)
  show ?case
    by (cases "read_member px lib row m") (auto simp: Cons.IH list_all2_Cons1 intro: exI)
qed

lemma read_rows_accumulates:
  "read_rows px lib ms rows final = Returns objs \<Longrightarrow>
    \<exists>new. objs = final @ new \<and> list_all2 (\<lambda>row obj. read_row px lib row ms [] = Returns obj) rows new"
proof (induction rows arbitrary: final)
  case Nil
  then show ?case by simp
next
  case (Cons row rows)
  then obtain obj where obj: "read_row px lib row ms [] = Returns obj"
      "read_rows px lib ms rows (final @ [obj]) = Returns objs"
    by (auto simp: and_then_Returns_iff)
  from Cons.IH [OF obj(2)] obtain new where "objs = (final @ [obj]) @ new"
      "list_all2 (\<lambda>row obj. read_row px lib row ms [] = Returns obj) rows new" by auto
  with obj(1) show ?case by (intro exI [of _ "obj # new"]) simp
qed

subsection \<open>update\<close>

lemma field_exists_iff: "field_exists ms n \<longleftrightarrow> n \<in> mb_name ` set ms"
proof -
  have "fold (\<lambda>m acc. if mb_name m = n then acc + 1 else acc) ms k = k + length (filter (\<lambda>m. mb_name m = n) ms)" for k :: nat
    by (induction ms arbitrary: k) auto
  then show ?thesis by (auto simp: field_exists_def filter_empty_conv)
qed

lemma my_for_each_eq:
  "my_for_each ms args = (if \<forall>(n, v)\<in>set args. n \<in> mb_name ` set ms then Returns () else Throws Assertion_failed)"
  by (induction ms args rule: my_for_each.induct) (auto simp: field_exists_iff)

text \<open>The last argument with the name counts.\<close>

lemma up_find_value_last:
  "\<forall>(n, v)\<in>set args. normalize_type lib v = Returns (tx v) \<Longrightarrow>
    up_find_value lib args n r = Returns (case map_of (rev args) n of None \<Rightarrow> r | Some v \<Rightarrow> tx v)"
  by (induction lib args n r rule: up_find_value.induct)
     (auto simp: map_add_def split: option.splits)

definition assignments :: "(('f, 'y) cpp_value \<Rightarrow> string) \<Rightarrow> (string \<Rightarrow> ('f, 'y) cpp_value option) \<Rightarrow> member list \<Rightarrow> string list" where
  "assignments tx arg ms =
     map (\<lambda>m. [lf, tab] @ co_name (mb_column m) @ ''='' @ tx (the (arg (mb_name m))))
       (filter (\<lambda>m. arg (mb_name m) \<noteq> None) ms)"

lemma update_sets_text:
  assumes "\<forall>(n, v)\<in>set args. normalize_type lib v = Returns (tx v) \<and> tx v \<noteq> []"
  shows "update_sets lib args ms sql = Returns (sql @ concat (map (\<lambda>a. a @ '','') (assignments tx (map_of (rev args)) ms)))"
proof (induction ms arbitrary: sql)
  case Nil
  show ?case by (simp add: assignments_def)
next
  case (Cons m ms)
  have u: "up_find_value lib args (mb_name m) [] = Returns (case map_of (rev args) (mb_name m) of None \<Rightarrow> [] | Some v \<Rightarrow> tx v)"
    using assms by (intro up_find_value_last) auto
  have "tx v \<noteq> []" if "map_of (rev args) (mb_name m) = Some v" for v
    using assms map_of_SomeD [OF that] by auto
  then show ?case
    by (cases "map_of (rev args) (mb_name m)") (auto simp: u Cons.IH assignments_def)
qed

lemma concat_ends: "concat (map (\<lambda>a. a @ '','') as) = (if as = [] then [] else sep_by '','' as @ '','')"
  using concat_map_end [of as "\<lambda>a. a" "'',''"] by simp


subsection \<open>Placeholders\<close>

text \<open>The positions of the members an insertion lists.\<close>

definition listed_at :: "member list \<Rightarrow> nat list" where
  "listed_at ms = filter (\<lambda>i. co_attribute (mb_column (ms ! i)) \<noteq> cf_primarykey) [0..<length ms]"

lemma insert_placeholder_eq:
  "insert_placeholder index_of all acc m =
    (if has_flag (co_attribute (mb_column m)) cf_ignore_insert then None
     else if co_attribute (mb_column m) = cf_primarykey then Some acc
     else Some (acc @ '','' @ [lf, tab] @ '' $'' @ to_string_nat (index_of m all)))"
proof -
  obtain buf where "to_string_t (int (index_of m all)) 10 = Some buf"
      "takeWhile (\<lambda>c. c \<noteq> nul) buf = to_string_nat (index_of m all)"
    using to_string_t_text [of "int (index_of m all)"] by (auto simp: to_string_int_def)
  then show ?thesis by (auto simp: insert_placeholder_def get_index_member_def Let_def)
qed

lemma accumulate_placeholders:
  "accumulate (insert_placeholder index_of all) ms acc =
    (if \<exists>m\<in>set ms. has_flag (co_attribute (mb_column m)) cf_ignore_insert then None
     else Some (acc @ concat (map (\<lambda>m. '','' @ [lf, tab] @ '' $'' @ to_string_nat (index_of m all)) (listed ms))))"
  by (induction ms arbitrary: acc) (auto simp: insert_placeholder_eq listed_def)

lemma listed_positions:
  assumes "\<forall>i<length all. index_of (all ! i) all = i"
    and "\<forall>m\<in>set all. \<not> has_flag (co_attribute (mb_column m)) cf_ignore_insert"
  shows "map (\<lambda>m. index_of m all) (listed all) = listed_at all"
proof -
  have "listed all = filter (\<lambda>m. co_attribute (mb_column m) \<noteq> cf_primarykey) all"
    using assms(2) by (auto simp: listed_def intro!: filter_cong)
  also have "\<dots> = map (nth all) (listed_at all)"
    by (subst (2) map_nth [symmetric]) (simp add: filter_map listed_at_def comp_def)
  finally have "map (\<lambda>m. index_of m all) (listed all) = map (\<lambda>i. index_of (all ! i) all) (listed_at all)" by simp
  also have "\<dots> = listed_at all" using assms(1) by (intro map_idI) (auto simp: listed_at_def)
  finally show ?thesis .
qed

subsection \<open>The end of an update\<close>

lemma finish_update_cut: "finish_update px cond db (Returns (sql @ [c])) = exec_commit px (sql @ '' '' @ cond) (\<lambda>_. True) db"
  by (simp add: finish_update_def)

end
