(* ===== verification/Orm_Theorems.thy ===== *)
theory Orm_Theorems
  imports Orm_Correct
begin

text \<open>
  The properties of the ORM: the statements it sends, what the compiler accepts, what a selection
  returns, and where a text value is not one SQL literal.
\<close>

subsection \<open>insert\<close>

definition insert_sql :: "string \<Rightarrow> string list \<Rightarrow> string list \<Rightarrow> string" where
  "insert_sql name columns vals =
     ''INSERT INTO '' @ name @ '' ('' @ [lf, tab] @ '' '' @ sep_by ('','' @ [lf, tab] @ '' '') columns @ [lf] @ '') VALUES (''
       @ [lf, tab] @ sep_by ('','' @ [lf, tab]) vals @ [lf] @ '');''"

text \<open>
  C34. \<open>orm::insert\<close> sends one statement: it names the columns of the members in their order and gives
  the texts of the values.  The two lists are chosen by different tests: there are as many columns
  as values exactly when every member flagged as primary key is flagged as nothing else or is
  excluded from insertion.
\<close>

theorem insert_statement:
  assumes "rf_table T = Some tbl" "0 < fields_to_insert (rf_members T)" "insert_compiles T"
    and "\<forall>m\<in>set (rf_members T). is_value_member m \<longrightarrow> member_text lib (v (mb_name m)) = Returns (tx m)"
  shows "orm_insert px lib index_of T v db
      = exec_commit px (insert_sql (tb_name tbl) (map (\<lambda>m. co_name (mb_column m)) (listed (rf_members T)))
          (map tx (valued (rf_members T)))) (\<lambda>(rows, affected). affected \<noteq> 0) db
    \<and> (length (listed (rf_members T)) = length (valued (rf_members T)) \<longleftrightarrow>
        (\<forall>m\<in>set (rf_members T). has_flag (co_attribute (mb_column m)) cf_primarykey \<longrightarrow>
          has_flag (co_attribute (mb_column m)) cf_ignore_insert \<or> co_attribute (mb_column m) = cf_primarykey))"
proof -
  let ?ms = "rf_members T"
  have ne: "valued ?ms \<noteq> []" by (rule fields_to_insert_valued [OF assms(2)])
  have vals: "insert_values lib v ?ms [] = Returns ('','' @ [lf, tab] @ sep_by ('','' @ [lf, tab]) (map tx (valued ?ms)))"
    using insert_values_text [OF assms(4), of "[]"] concat_map_sep [OF ne, of "'','' @ [lf, tab]" tx] by simp
  show ?thesis
    using assms(3) by (simp add: orm_insert_def query_insert_text [OF assms(1,2)] vals insert_sql_def
        column_list_def listed_valued_lengths)
qed

definition demo_member :: "string \<Rightarrow> cpp_type \<Rightarrow> data_type \<Rightarrow> column_flags \<Rightarrow> member" where
  "demo_member n t d a = \<lparr>mb_name = n, mb_type = t, mb_column = mk_column n d 0 a [] False\<rparr>"

definition demo_struct :: reflected where
  "demo_struct = \<lparr>rf_table = Some \<lparr>tb_name = ''User'', tb_constraints = []\<rparr>,
     rf_members = [demo_member ''id'' ty_long dt_bigserial (flags_or cf_primarykey cf_ignore_on_serializer),
                   demo_member ''name'' ty_string dt_text cf_none]\<rparr>"

definition demo_lib :: "(unit, int) orm_lib" where
  "demo_lib = \<lparr>ol_date = \<lparr>dl_sys_days = (\<lambda>y. y), dl_ymd = (\<lambda>n. n), dl_format_date = to_string_int,
       dl_format_time = to_string_int, dl_parse = (\<lambda>s. None)\<rparr>,
     ol_float = (\<lambda>f. ''0''), ol_double = (\<lambda>f. ''0''), ol_format_tod = to_string_int,
     ol_parse_tod = (\<lambda>s. None), ol_parse_ymd = (\<lambda>s. None)\<rparr>"

text \<open>A database that is the list of the statements it was given.\<close>

definition demo_px :: "(string list, unit, unit, int) pqxx" where
  "demo_px = \<lparr>px_begin = (\<lambda>db. (Inr (), db)), px_exec = (\<lambda>sql db. (Inr ([()], 1), db @ [sql])),
     px_exec0 = (\<lambda>sql db. (Inr ([], 1), db @ [sql])), px_commit = (\<lambda>db. (Inr (), db @ [''COMMIT''])),
     px_close = (\<lambda>db. db), px_text = (\<lambda>row n. Inr ''x''), px_int = (\<lambda>row n. Inr 0),
     px_as = (\<lambda>t row n. if t = ty_string then Inr (V_string ''ann'')
       else if t = ty_long then Inr (V_long 7) else Inl App_exception)\<rparr>"

lemmas demo_flags = flags_or_def flags_and_def has_flag_def cf_primarykey_def cf_ignore_insert_def
  cf_ignore_on_serializer_def cf_none_def

lemma demo_lists:
  "fields_to_insert (rf_members demo_struct) = 1"
  "map (\<lambda>m. co_name (mb_column m)) (listed (rf_members demo_struct)) = [''id'', ''name'']"
  "map mb_name (valued (rf_members demo_struct)) = [''name'']"
  "insert_compiles demo_struct"
  by (simp_all add: demo_struct_def demo_member_def mk_column_def fields_to_insert_def listed_def valued_def
      is_value_member_def insert_compiles_def has_overload_def demo_flags)

theorem insert_statement_witness:
  "orm_insert demo_px demo_lib (\<lambda>m ms. 0) demo_struct (\<lambda>n. V_string ''ann'') []
    = (Returns True, [insert_sql ''User'' [''id'', ''name''] [quote @ ''ann'' @ quote], ''COMMIT''])
  \<and> length (listed (rf_members demo_struct)) \<noteq> length (valued (rf_members demo_struct))"
proof -
  let ?t = "\<lambda>m :: member. quote @ ''ann'' @ quote"
  have t: "\<forall>m\<in>set (rf_members demo_struct). is_value_member m \<longrightarrow>
      member_text demo_lib ((\<lambda>n. V_string ''ann'') (mb_name m)) = Returns (?t m)"
    by (simp add: member_text_def)
  have v: "map ?t (valued (rf_members demo_struct)) = [quote @ ''ann'' @ quote]"
    using arg_cong [OF demo_lists(3), of "map (\<lambda>n. quote @ ''ann'' @ quote)"] by (simp add: comp_def)
  have "rf_table demo_struct = Some \<lparr>tb_name = ''User'', tb_constraints = []\<rparr>" by (simp add: demo_struct_def)
  note th = insert_statement [OF this _ demo_lists(4) t, of demo_px "\<lambda>m ms. 0" "[]"]
  from th demo_lists(1,2) v show ?thesis
    by (simp add: exec_commit_def demo_px_def) (simp add: demo_struct_def demo_member_def mk_column_def demo_flags)
qed

text \<open>
  A program whose insertion compiles reaches the database: for an object whose values have the
  types of the members, and calendar times the clock can represent, neither an exception of the
  text operations nor undefined behaviour comes before the statement.
\<close>

lemma insert_well_typed:
  assumes "query_insert index_of False T = Some front" "insert_compiles T"
    and "\<forall>m\<in>set (rf_members T). value_type (v (mb_name m)) = mb_type m"
    and "\<forall>m\<in>set (rf_members T). \<forall>d. v (mb_name m) = V_date_time d \<longrightarrow> date_time_str (ol_date lib) d \<noteq> None"
  shows "\<exists>sql. orm_insert px lib index_of T v db
      = exec_commit px (front @ sql) (\<lambda>(rows, affected). affected \<noteq> 0) db"
proof -
  let ?ms = "rf_members T"
  obtain tbl where tbl: "rf_table T = Some tbl" "0 < fields_to_insert ?ms"
    using assms(1) by (auto simp: query_insert_def option_bind_Some_iff split: if_splits)
  have "\<forall>m\<in>set ?ms. \<exists>t. member_text lib (v (mb_name m)) = Returns t"
    using assms(2-4) by (intro ballI member_text_typed) (auto simp: insert_compiles_def list_all_iff)
  then obtain tx where "\<forall>m\<in>set ?ms. member_text lib (v (mb_name m)) = Returns (tx m)" by metis
  then have "insert_values lib v ?ms [] = Returns (concat (map (\<lambda>m. '','' @ [lf, tab] @ tx m) (valued ?ms)))"
    by (subst insert_values_text) auto
  moreover have "concat (map (\<lambda>m. '','' @ [lf, tab] @ tx m) (valued ?ms)) \<noteq> []"
    using fields_to_insert_valued(1) [OF tbl(2)] by auto
  ultimately show ?thesis using assms(1,2) by (auto simp: orm_insert_def Suc_le_eq)
qed

lemma insert_well_typed_witness:
  "\<exists>sql. orm_insert demo_px demo_lib (\<lambda>m ms. 0) demo_struct (\<lambda>n. if n = ''id'' then V_long 7 else V_string ''ann'') []
    = exec_commit demo_px ((''INSERT INTO '' @ ''User'' @ '' ('' @ [lf] @ column_list (rf_members demo_struct) @ [lf] @ '') '') @ sql)
        (\<lambda>(rows, affected). affected \<noteq> 0) []"
proof (rule insert_well_typed)
  show "query_insert (\<lambda>m ms. 0) False demo_struct
      = Some (''INSERT INTO '' @ ''User'' @ '' ('' @ [lf] @ column_list (rf_members demo_struct) @ [lf] @ '') '')"
    using query_insert_text [of demo_struct "\<lparr>tb_name = ''User'', tb_constraints = []\<rparr>"] demo_lists(1)
    by (simp add: demo_struct_def)
  show "insert_compiles demo_struct" by (rule demo_lists)
qed (simp_all add: demo_struct_def demo_member_def)


text \<open>
  The placeholders of \<open>query::insert<T>()\<close> are the positions of the members in the struct, counted
  from 0.  It compiles only when no member is excluded from insertion; then the first placeholder
  is \<open>$0\<close>, which is no parameter of PostgreSQL, exactly when the first member is listed.
\<close>

lemma insert_placeholders:
  assumes "rf_table T = Some tbl" "0 < fields_to_insert (rf_members T)"
    and "\<forall>i<length (rf_members T). index_of (rf_members T ! i) (rf_members T) = i"
  shows "(query_insert index_of True T \<noteq> None \<longleftrightarrow>
        (\<forall>m\<in>set (rf_members T). \<not> has_flag (co_attribute (mb_column m)) cf_ignore_insert))
    \<and> (query_insert index_of True T \<noteq> None \<longrightarrow>
        query_insert index_of True T = Some (''INSERT INTO '' @ tb_name tbl @ '' ('' @ [lf] @ column_list (rf_members T)
          @ [lf] @ '') VALUES'' @ '' ('' @ [lf, tab] @ '' $'' @ sep_by ('','' @ [lf, tab] @ '' $'')
            (map to_string_nat (listed_at (rf_members T))) @ [lf] @ '')''))
    \<and> (0 \<in> set (listed_at (rf_members T)) \<longleftrightarrow> co_attribute (mb_column (rf_members T ! 0)) \<noteq> cf_primarykey)"
proof -
  let ?ms = "rf_members T"
  let ?sep = "'','' @ [lf, tab] @ '' $''"
  have ne: "listed ?ms \<noteq> []" by (rule fields_to_insert_valued [OF assms(2)])
  then have "?ms \<noteq> []" by (auto simp: listed_def)
  then have zero: "0 \<in> set (listed_at ?ms) \<longleftrightarrow> co_attribute (mb_column (?ms ! 0)) \<noteq> cf_primarykey"
    by (auto simp: listed_at_def)
  obtain acc where f: "accumulate insert_field ?ms [] = Some acc" "const_substr 2 acc = Some (column_list ?ms)"
    using insert_columns [OF ne] by (auto simp: option_bind_Some_iff)
  show ?thesis
  proof (cases "\<exists>m\<in>set ?ms. has_flag (co_attribute (mb_column m)) cf_ignore_insert")
    case True
    with zero show ?thesis
      by (auto simp: query_insert_def accumulate_placeholders option_bind_Some_iff split: if_splits)
  next
    case False
    have "concat (map (\<lambda>m. ?sep @ to_string_nat (index_of m ?ms)) (listed ?ms))
        = ?sep @ sep_by ?sep (map to_string_nat (map (\<lambda>m. index_of m ?ms) (listed ?ms)))"
      using concat_map_sep [OF ne, of ?sep "\<lambda>m. to_string_nat (index_of m ?ms)"] by (simp add: comp_def)
    also have "map (\<lambda>m. index_of m ?ms) (listed ?ms) = listed_at ?ms"
      using False by (intro listed_positions assms(3)) auto
    finally have v: "accumulate (insert_placeholder index_of ?ms) ?ms []
        = Some (?sep @ sep_by ?sep (map to_string_nat (listed_at ?ms)))"
      using False by (simp add: accumulate_placeholders)
    then show ?thesis
      using False zero assms(1,2) f by (simp add: query_insert_def const_substr_def numeral_2_eq_2)
  qed
qed

definition demo_course :: reflected where
  "demo_course = \<lparr>rf_table = Some \<lparr>tb_name = ''Course'', tb_constraints = []\<rparr>,
     rf_members = [demo_member ''name'' ty_string dt_text cf_none, demo_member ''note'' ty_string dt_text cf_none]\<rparr>"

lemma insert_placeholders_witness:
  "query_insert (\<lambda>m ms. if mb_name m = ''name'' then 0 else 1) True demo_course \<noteq> None
    \<and> 0 \<in> set (listed_at (rf_members demo_course))"
proof -
  let ?idx = "\<lambda>m (ms :: member list). if mb_name m = ''name'' then 0 else 1 :: nat"
  have a: "rf_table demo_course = Some \<lparr>tb_name = ''Course'', tb_constraints = []\<rparr>"
    "0 < fields_to_insert (rf_members demo_course)"
    by (simp_all add: demo_course_def demo_member_def mk_column_def fields_to_insert_def demo_flags)
  have b: "\<forall>i<length (rf_members demo_course). ?idx (rf_members demo_course ! i) (rf_members demo_course) = i"
    by (simp add: demo_course_def demo_member_def less_Suc_eq numeral_2_eq_2)
  from insert_placeholders [OF a b] show ?thesis
    by (simp add: demo_course_def demo_member_def mk_column_def demo_flags)
qed

subsection \<open>select\<close>

text \<open>
  When a selection returns an object: the statement was sent and gave a first row, and the object has
  one value for every member, in their order, the one read from the column of that row that has the
  member's name.
\<close>

lemma select_reads_first_row:
  "orm_select px lib T cond db = (Returns (Some obj), db') \<longleftrightarrow>
    (\<exists>sql db1 row rows affected db2. query_select T = Some sql \<and> px_begin px db = (Inr (), db1)
      \<and> px_exec px (sql @ cond) db1 = (Inr (row # rows, affected), db2) \<and> db' = px_close px db2
      \<and> list_all2 (\<lambda>m (n, v). n = mb_name m \<and> read_member px lib row m = Returns v) (rf_members T) obj)"
  by (auto simp: orm_select_def and_then_Returns_iff read_row_Returns split: option.splits prod.splits sum.splits list.splits)

text \<open>
  C38. \<open>select\<close> is the first element of \<open>select_many\<close>: where \<open>select_many\<close> returns objects, \<open>select\<close>
  sends the same statement, returns the first of them, or none when there is none, and leaves the
  database in the same state.
\<close>

theorem select_first_of_many:
  assumes "orm_select_many px lib T cond db = (Returns objs, db')"
  shows "orm_select px lib T cond db = (Returns (case objs of [] \<Rightarrow> None | obj # _ \<Rightarrow> Some obj), db')"
proof -
  obtain sql db1 rows affected db2 where step: "query_select T = Some sql" "px_begin px db = (Inr (), db1)"
      "px_exec px (sql @ cond) db1 = (Inr (rows, affected), db2)" "db' = px_close px db2"
      "(if rows = [] then Returns [] else read_rows px lib (rf_members T) rows []) = Returns objs"
    using assms by (auto simp: orm_select_many_def split: option.splits prod.splits sum.splits)
  show ?thesis
  proof (cases rows)
    case Nil
    with step show ?thesis by (simp add: orm_select_def)
  next
    case (Cons row more)
    with step(5) have "read_rows px lib (rf_members T) (row # more) [] = Returns objs" by simp
    from read_rows_accumulates [OF this] obtain obj objs' where
      "objs = obj # objs'" "read_row px lib row (rf_members T) [] = Returns obj"
      by (auto simp: list_all2_Cons1)
    with step Cons show ?thesis by (simp add: orm_select_def)
  qed
qed

theorem select_first_of_many_witness:
  "orm_select demo_px demo_lib demo_struct ''WHERE id=7'' []
    = (Returns (Some [(''id'', V_long 7), (''name'', V_string ''ann'')]), [''SELECT * FROM User WHERE id=7''])"
proof -
  have "orm_select_many demo_px demo_lib demo_struct ''WHERE id=7'' []
      = (Returns [[(''id'', V_long 7), (''name'', V_string ''ann'')]], [''SELECT * FROM User WHERE id=7''])"
    by (simp add: orm_select_many_def query_select_def demo_struct_def demo_px_def read_member_def demo_member_def)
  from select_first_of_many [OF this] show ?thesis by simp
qed

subsection \<open>update\<close>






subsection \<open>Texts in statements\<close>

text \<open>
  A text constant of SQL, read behind its opening quote: a doubled quote stands for one, a single
  one ends the constant.  The result is the text and what follows.
\<close>

fun read_constant :: "string \<Rightarrow> (string \<times> string) option" where
  "read_constant [] = None"
| "read_constant [c] = (if c = CHR 0x27 then Some ([], []) else None)"
| "read_constant (c # d # cs) =
     (if c = CHR 0x27
      then (if d = CHR 0x27 then map_option (\<lambda>(t, r). (CHR 0x27 # t, r)) (read_constant cs) else Some ([], d # cs))
      else map_option (\<lambda>(t, r). (c # t, r)) (read_constant (d # cs)))"

lemma read_constant_plain:
  "CHR 0x27 \<notin> set s \<Longrightarrow> rest = [] \<or> hd rest \<noteq> CHR 0x27 \<Longrightarrow> read_constant (s @ CHR 0x27 # rest) = Some (s, rest)"
proof (induction s)
  case Nil
  then show ?case by (cases rest) auto
next
  case (Cons c s)
  obtain d ds where "s @ CHR 0x27 # rest = d # ds" by (cases s) auto
  with Cons show ?case by auto
qed

lemma read_constant_length:
  "read_constant s = Some (t, r) \<Longrightarrow> length s = length t + count_list t (CHR 0x27) + 1 + length r"
  by (induction s arbitrary: t r rule: read_constant.induct) (auto split: if_splits)

text \<open>
  C35. A text given to \<open>insert\<close> or \<open>update\<close> is one constant of the statement that denotes this text if
  and only if it holds no quote: the quotes are put around it and nothing is escaped.
\<close>

theorem text_is_one_constant:
  assumes "rest = [] \<or> hd rest \<noteq> CHR 0x27"
  shows "(\<exists>t. member_text lib (V_string s) = Returns (CHR 0x27 # t) \<and> read_constant (t @ rest) = Some (s, rest))
    \<longleftrightarrow> CHR 0x27 \<notin> set s"
proof -
  have "member_text lib (V_string s) = Returns (CHR 0x27 # (s @ [CHR 0x27]))"
    by (simp add: member_text_def quote_def)
  moreover have "CHR 0x27 \<notin> set s" if "read_constant (s @ CHR 0x27 # rest) = Some (s, rest)"
    using read_constant_length [OF that] by (simp add: count_list_0_iff)
  ultimately show ?thesis using read_constant_plain [OF _ assms] by auto
qed

theorem text_is_one_constant_witness:
  "\<not> (\<exists>t. member_text demo_lib (V_string (''x'' @ quote @ ''); DROP TABLE User; --'')) = Returns (CHR 0x27 # t)
      \<and> read_constant (t @ [lf] @ '');'') = Some (''x'' @ quote @ ''); DROP TABLE User; --'', [lf] @ '');''))
   \<and> (\<exists>t. member_text demo_lib (V_string ''x'') = Returns (CHR 0x27 # t)
      \<and> read_constant (t @ [lf] @ '');'') = Some (''x'', [lf] @ '');''))"
proof -
  have r: "[lf] @ '');'' = [] \<or> hd ([lf] @ '');'') \<noteq> CHR 0x27" by (simp add: lf_def)
  show ?thesis
    using text_is_one_constant [OF r, of demo_lib "''x'' @ quote @ ''); DROP TABLE User; --''"]
      text_is_one_constant [OF r, of demo_lib "''x''"]
    by (simp add: quote_def)
qed

subsection \<open>create_table\<close>

text \<open>Every line of a definition but the last ends with a comma.\<close>

fun with_commas :: "string list \<Rightarrow> string list" where
  "with_commas [] = []"
| "with_commas [x] = [x]"
| "with_commas (x # y # ys) = (x @ '','') # with_commas (y # ys)"

lemma split_lines:
  "\<forall>x\<in>set xs. lf \<notin> set x \<Longrightarrow> xs \<noteq> [] \<Longrightarrow>
    split_ref lf (sep_by ('','' @ [lf]) xs @ [lf] @ rest) = with_commas xs @ split_ref lf rest"
proof (induction xs rule: with_commas.induct)
  case (3 x y ys)
  have "lf \<notin> set (x @ '','')" using "3.prems" by (simp add: lf_def)
  from split_ref_append [OF this] "3" show ?case by (simp add: sep_by_Cons)
qed (auto simp: split_ref_append)

lemma with_commas_append: "ys \<noteq> [] \<Longrightarrow> xs \<noteq> [] \<Longrightarrow>
    sep_by sep xs @ sep @ sep_by sep ys = sep_by sep (xs @ ys)"
  by (induction xs rule: induct_list012) (auto simp: sep_by_Cons)

text \<open>
  The statement that creates a table is, line by line, its head, the definition of every member in
  order behind a tab, the constraints of the table where it has some, and the closing line, with
  commas between the definitions.
\<close>

lemma create_table_lines:
  assumes "rf_table T = Some tbl" "rf_members T \<noteq> []"
    and "\<forall>m\<in>set (rf_members T). make_sql_field_spec m = Some (spec m) \<and> lf \<notin> set (spec m)"
    and "lf \<notin> set (tb_name tbl)" "lf \<notin> set (tb_constraints tbl)"
  shows "\<exists>sql. query_create_table T = Some sql \<and>
    split sql lf False = (''CREATE TABLE IF NOT EXISTS '' @ tb_name tbl @ '' ('') #
      with_commas (map (\<lambda>m. tab # spec m) (rf_members T) @ (if tb_constraints tbl = [] then [] else [tb_constraints tbl]))
      @ ['');'']"
proof -
  let ?ms = "rf_members T" and ?sep = "'','' @ [lf]"
  let ?lines = "map (\<lambda>m. tab # spec m) ?ms @ (if tb_constraints tbl = [] then [] else [tb_constraints tbl])"
  let ?head = "''CREATE TABLE IF NOT EXISTS '' @ tb_name tbl @ '' (''"
  have spec: "map (\<lambda>m. tab # the (make_sql_field_spec m)) ?ms = map (\<lambda>m. tab # spec m) ?ms"
    using assms(3) by auto
  have "accumulate (\<lambda>acc m. map_option (\<lambda>s. acc @ '','' @ [lf, tab] @ s) (make_sql_field_spec m)) ?ms []
      = Some (concat (map (\<lambda>m. ?sep @ tab # the (make_sql_field_spec m)) ?ms))"
    using assms(3) by (subst accumulate_Some [where g = "\<lambda>s. '','' @ [lf, tab] @ s" and h = make_sql_field_spec]) auto
  also have "\<dots> = Some (?sep @ sep_by ?sep (map (\<lambda>m. tab # spec m) ?ms))"
    using concat_map_sep [OF assms(2), of ?sep "\<lambda>m. tab # the (make_sql_field_spec m)"] spec by simp
  finally have acc: "accumulate (\<lambda>acc m. map_option (\<lambda>s. acc @ '','' @ [lf, tab] @ s) (make_sql_field_spec m)) ?ms []
      = Some (?sep @ sep_by ?sep (map (\<lambda>m. tab # spec m) ?ms))" .
  have q: "query_create_table T = Some (?head @ [lf] @ sep_by ?sep ?lines @ [lf] @ '');'')"
    unfolding query_create_table_def acc
    using assms(1,2) with_commas_append [of "[tb_constraints tbl]" "map (\<lambda>m. tab # spec m) ?ms" ?sep]
    by (simp add: const_substr_def numeral_2_eq_2)
  have "\<forall>x\<in>set ?lines. lf \<notin> set x" using assms(3,5) by (auto simp: tab_def lf_def)
  then have "split_ref lf (sep_by ?sep ?lines @ [lf] @ '');'') = with_commas ?lines @ ['');'']"
    using assms(2) split_lines [of ?lines "'');''"] split_ref_no_delim [of lf "'');''"] by (simp add: lf_def)
  moreover have "lf \<notin> set ?head" using assms(4) by (simp add: lf_def)
  ultimately show ?thesis using q split_ref_append [of lf ?head]
    by (simp add: split_eq_ref)
qed

lemma create_table_lines_witness:
  "\<exists>sql. query_create_table demo_course = Some sql \<and>
    split sql lf False = [''CREATE TABLE IF NOT EXISTS Course ('', tab # ''name TEXT,'', tab # ''note TEXT'', '');'']"
proof -
  let ?spec = "\<lambda>m. mb_name m @ '' TEXT''"
  have "\<forall>m\<in>set (rf_members demo_course). make_sql_field_spec m = Some (?spec m) \<and> lf \<notin> set (?spec m)"
    by (simp add: demo_course_def demo_member_def mk_column_def make_sql_field_spec_def is_text_type_def
        typed_spec_def should_apply_custom_define_def lf_def)
  from create_table_lines [OF _ _ this] show ?thesis
    by (simp add: demo_course_def demo_member_def lf_def)
qed

text \<open>
  The name of the SQL type a definition carries, and that it tells the data types apart: two
  members whose definitions are equal, without definition flags of their own, have the same data
  type.
\<close>

fun sql_type :: "data_type \<Rightarrow> string" where
  "sql_type dt_primarykey = ''bigserial PRIMARY KEY''"
| "sql_type dt_bigint = ''bigint''"
| "sql_type dt_bigserial = ''bigserial''"
| "sql_type dt_boolean = ''boolean''"
| "sql_type dt_char_n = ''char[''"
| "sql_type dt_cidr = ''cidr''"
| "sql_type dt_date = ''date''"
| "sql_type dt_integer = ''integer''"
| "sql_type dt_decimal = ''decimal''"
| "sql_type dt_smallint = ''smallint''"
| "sql_type dt_smallserial = ''smallserial''"
| "sql_type dt_serial = ''serial''"
| "sql_type dt_text = ''TEXT''"
| "sql_type dt_timestamp = ''timestamp''"
| "sql_type dt_time_of_day = ''time''"

lemma sql_type_inj: "sql_type d = sql_type d' \<Longrightarrow> d = d'"
proof -
  have "\<forall>d d'. sql_type d = sql_type d' \<longrightarrow> d = d'" by code_simp
  then show "sql_type d = sql_type d' \<Longrightarrow> d = d'" by blast
qed

lemma field_spec_type:
  assumes "make_sql_field_spec m = Some s" "co_custom (mb_column m) = []"
  shows "\<exists>rest. s = co_name (mb_column m) @ '' '' @ sql_type (co_data_type (mb_column m)) @ rest
    \<and> (co_data_type (mb_column m) \<noteq> dt_char_n \<longrightarrow> rest = [])"
  using assms
  by (cases "co_data_type (mb_column m)")
     (auto simp: make_sql_field_spec_def typed_spec_def should_apply_custom_define_def Let_def
        option_bind_Some_iff split: if_splits)

lemma char_n_apart: "d \<noteq> dt_char_n \<Longrightarrow> sql_type d \<noteq> ''char['' @ rest"
  by (cases d) auto

lemma field_spec_determines_type:
  assumes "make_sql_field_spec m = Some s" "make_sql_field_spec m' = Some s"
    and "co_custom (mb_column m) = []" "co_custom (mb_column m') = []"
    and "co_name (mb_column m) = co_name (mb_column m')"
  shows "co_data_type (mb_column m) = co_data_type (mb_column m')"
proof -
  let ?d = "co_data_type (mb_column m)" and ?d' = "co_data_type (mb_column m')"
  obtain r r' where r: "sql_type ?d @ r = sql_type ?d' @ r'"
      "?d \<noteq> dt_char_n \<longrightarrow> r = []" "?d' \<noteq> dt_char_n \<longrightarrow> r' = []"
    using field_spec_type [OF assms(1,3)] field_spec_type [OF assms(2,4)] assms(5) by auto
  show ?thesis
  proof (cases "?d = dt_char_n \<or> ?d' = dt_char_n")
    case True
    with r char_n_apart [of ?d r'] char_n_apart [of ?d' r] show ?thesis by (metis append_Nil2 sql_type.simps(5))
  next
    case False
    with r sql_type_inj show ?thesis by simp
  qed
qed

text \<open>The file's own \<open>split\<close> is the one of \<open>string_utils\<close>.\<close>

lemma orm_split_eq: "orm_split str d sk = split str d sk"
proof -
  have "orm_split_loop str d sk pos tk = split_loop str d sk pos tk" for pos tk
    by (induction str d sk pos tk rule: orm_split_loop.induct)
       (subst orm_split_loop.simps, subst split_loop.simps, auto simp: Let_def)
  then show ?thesis by (simp add: orm_split_def split_def)
qed

end
