(* ===== verification/Serializer.thy ===== *)
theory Serializer
  imports Orm_Correct
begin

text \<open>
  \<open>serializer/serializator.hpp\<close>: reflected structs as JSON.  The JSON library is third-party: a
  document is a value of any type, and what the source does with documents is the record
  \<open>json_ops\<close>: the null document, \<open>body[name] = value\<close>, the documents of a text and of an arithmetic
  value, the empty array and \<open>push_back\<close>.  \<open>js_get\<close> and \<open>js_container\<close> (a document that
  \<open>operator[]\<close> accepts: null or an object) serve the statement of what is relied on, \<open>json_ok\<close>.
\<close>

record ('j, 'f, 'y) json_ops =
  js_null :: 'j
  js_set :: "'j \<Rightarrow> string \<Rightarrow> 'j \<Rightarrow> cpp_exn + 'j"
  js_string :: "string \<Rightarrow> 'j"
  js_number :: "('f, 'y) cpp_value \<Rightarrow> 'j"
  js_array :: 'j
  js_push_back :: "'j \<Rightarrow> 'j \<Rightarrow> cpp_exn + 'j"
  js_get :: "'j \<Rightarrow> string \<Rightarrow> 'j option"
  js_container :: "'j \<Rightarrow> bool"

definition json_ok :: "('j, 'f, 'y) json_ops \<Rightarrow> bool" where
  "json_ok js \<longleftrightarrow> js_container js (js_null js) \<and> (\<forall>k. js_get js (js_null js) k = None)
     \<and> (\<forall>b k x. js_container js b \<longrightarrow>
          (\<exists>b'. js_set js b k x = Inr b' \<and> js_container js b'
             \<and> (\<forall>k'. js_get js b' k' = (if k' = k then Some x else js_get js b k'))))"

subsection \<open>Texts\<close>

text \<open>This \<open>normalize_type\<close> puts no quotes, and has no overload for a time of day.\<close>

definition ser_overload :: "cpp_type \<Rightarrow> bool" where
  "ser_overload t \<longleftrightarrow> t \<notin> {ty_uint, ty_enum, ty_tod, ty_vector, ty_other}"

fun ser_normalize :: "('f, 'y) orm_lib \<Rightarrow> ('f, 'y) cpp_value \<Rightarrow> string outcome" where
  "ser_normalize lib (V_int w) = Returns (to_string_int (sint w))"
| "ser_normalize lib (V_char c) = Returns (to_string_int (schar c))"
| "ser_normalize lib (V_float f) = Returns (ol_float lib f)"
| "ser_normalize lib (V_double f) = Returns (ol_double lib f)"
| "ser_normalize lib (V_ymd y) = Returns (dl_format_date (ol_date lib) y)"
| "ser_normalize lib (V_bool b) = Returns (bool_text b)"
| "ser_normalize lib (V_cstr p) = Returns (bool_text (p \<noteq> None))"
| "ser_normalize lib (V_date_time d) =
     (case date_time_str (ol_date lib) d of None \<Rightarrow> Undef | Some s \<Rightarrow> Returns s)"
| "ser_normalize lib (V_long w) = Returns (to_string_int (sint w))"
| "ser_normalize lib (V_short w) = Returns (to_string_int (sint w))"
| "ser_normalize lib (V_string s) = Returns s"
| "ser_normalize lib (V_tod t) = Ill_formed"
| "ser_normalize lib (V_uint w) = Ill_formed"
| "ser_normalize lib (V_enum w) = Ill_formed"
| "ser_normalize lib (V_vector os) = Ill_formed"
| "ser_normalize lib V_other = Ill_formed"

subsection \<open>serialize\<close>

definition to_json :: "('j, 'f, 'y) json_ops \<Rightarrow> ('f, 'y) orm_lib \<Rightarrow> ('f, 'y) cpp_value \<Rightarrow> 'j outcome" where
  "to_json js lib tv =
     (case tv of
        V_enum w \<Rightarrow> and_then (ser_normalize lib (V_int w)) (\<lambda>t. Returns (js_string js t))
      | _ \<Rightarrow>
          if is_integral (value_type tv) \<or> is_floating_point (value_type tv) then Returns (js_number js tv)
          else and_then (ser_normalize lib tv) (\<lambda>t. Returns (js_string js t)))"

definition assign :: "('j, 'f, 'y) json_ops \<Rightarrow> 'j \<Rightarrow> string \<Rightarrow> 'j \<Rightarrow> 'j outcome" where
  "assign js body fname j = (case js_set js body fname j of Inl e \<Rightarrow> Throws e | Inr body' \<Rightarrow> Returns body')"

fun serialize_members ::
    "('j, 'f, 'y) json_ops \<Rightarrow> ('f, 'y) orm_lib \<Rightarrow> (string \<Rightarrow> ('f, 'y) cpp_value) \<Rightarrow> member list \<Rightarrow> 'j
      \<Rightarrow> 'j outcome" where
  "serialize_members js lib obj [] body = Returns body"
| "serialize_members js lib obj (m # ms) body =
     (if has_flag (co_attribute (mb_column m)) cf_ignore_on_serializer then serialize_members js lib obj ms body
      else and_then (to_json js lib (obj (mb_name m)))
             (\<lambda>j. and_then (assign js body (mb_name m) j) (serialize_members js lib obj ms)))"

text \<open>As in \<open>orm::insert\<close>, the \<open>return\<close> for a flagged member has no \<open>else\<close>.\<close>

definition serialize_compiles :: "reflected \<Rightarrow> bool" where
  "serialize_compiles T \<longleftrightarrow>
     list_all (\<lambda>m. mb_type m = ty_enum \<or> is_integral (mb_type m) \<or> is_floating_point (mb_type m)
                   \<or> ser_overload (mb_type m)) (rf_members T)"

definition serialize ::
    "('j, 'f, 'y) json_ops \<Rightarrow> ('f, 'y) orm_lib \<Rightarrow> reflected \<Rightarrow> (string \<Rightarrow> ('f, 'y) cpp_value) \<Rightarrow> 'j outcome" where
  "serialize js lib T obj =
     (if \<not> serialize_compiles T then Ill_formed
      else serialize_members js lib obj (rf_members T) (js_null js))"

text \<open>A vector: the \<open>catch\<close> for standard exceptions leaves the result null.\<close>

fun push_all :: "('j, 'f, 'y) json_ops \<Rightarrow> ('o \<Rightarrow> 'j outcome) \<Rightarrow> 'o list \<Rightarrow> 'j \<Rightarrow> 'j outcome" where
  "push_all js ser [] data = Returns data"
| "push_all js ser (obj # objs) data =
     and_then (ser obj)
       (\<lambda>r. and_then (case js_push_back js data r of Inl e \<Rightarrow> Throws e | Inr data' \<Rightarrow> Returns data')
              (push_all js ser objs))"

definition catch_null :: "('j, 'f, 'y) json_ops \<Rightarrow> 'j outcome \<Rightarrow> 'j outcome" where
  "catch_null js r = (case r of Throws e \<Rightarrow> if is_std_exn e then Returns (js_null js) else Throws e | _ \<Rightarrow> r)"

definition serialize_vector ::
    "('j, 'f, 'y) json_ops \<Rightarrow> ('f, 'y) orm_lib \<Rightarrow> reflected \<Rightarrow> (string \<Rightarrow> ('f, 'y) cpp_value) list \<Rightarrow> 'j outcome" where
  "serialize_vector js lib T objs =
     (if \<not> serialize_compiles T then Ill_formed
      else catch_null js (push_all js (serialize js lib T) objs (js_array js)))"

subsection \<open>serialize_admin\<close>

text \<open>
  \<open>nested\<close> is what the unqualified call \<open>serialize_admin(v)\<close> for a vector member does: it is made
  before the overload for vectors is declared, so that what it finds depends on the struct and the
  reflection library (\<open>None\<close> when it does not compile).
\<close>

definition to_json_admin ::
    "('j, 'f, 'y) json_ops \<Rightarrow> ('f, 'y) orm_lib \<Rightarrow> (('f, 'y) object list \<Rightarrow> 'j outcome) option
      \<Rightarrow> ('f, 'y) cpp_value \<Rightarrow> 'j outcome" where
  "to_json_admin js lib nested v =
     (case v of
        V_enum w \<Rightarrow> and_then (ser_normalize lib (V_int w)) (\<lambda>t. Returns (js_string js t))
      | V_vector os \<Rightarrow> (case nested of None \<Rightarrow> Ill_formed | Some f \<Rightarrow> f os)
      | _ \<Rightarrow>
          if is_integral (value_type v) \<or> is_floating_point (value_type v) then Returns (js_number js v)
          else and_then (ser_normalize lib v) (\<lambda>t. Returns (js_string js t)))"

fun serialize_admin_members ::
    "('j, 'f, 'y) json_ops \<Rightarrow> ('f, 'y) orm_lib \<Rightarrow> (('f, 'y) object list \<Rightarrow> 'j outcome) option
      \<Rightarrow> (string \<Rightarrow> ('f, 'y) cpp_value) \<Rightarrow> member list \<Rightarrow> 'j \<Rightarrow> 'j outcome" where
  "serialize_admin_members js lib nested obj [] body = Returns body"
| "serialize_admin_members js lib nested obj (m # ms) body =
     and_then (to_json_admin js lib nested (obj (mb_name m)))
       (\<lambda>j. and_then (assign js body (mb_name m) j) (serialize_admin_members js lib nested obj ms))"

definition serialize_admin_compiles :: "bool \<Rightarrow> reflected \<Rightarrow> bool" where
  "serialize_admin_compiles vectors T \<longleftrightarrow>
     list_all (\<lambda>m. mb_type m = ty_enum \<or> vectors \<and> mb_type m = ty_vector \<or> is_integral (mb_type m)
                   \<or> is_floating_point (mb_type m) \<or> ser_overload (mb_type m)) (rf_members T)"

definition serialize_admin ::
    "('j, 'f, 'y) json_ops \<Rightarrow> ('f, 'y) orm_lib \<Rightarrow> (('f, 'y) object list \<Rightarrow> 'j outcome) option \<Rightarrow> reflected
      \<Rightarrow> (string \<Rightarrow> ('f, 'y) cpp_value) \<Rightarrow> 'j outcome" where
  "serialize_admin js lib nested T obj =
     (if \<not> serialize_admin_compiles (nested \<noteq> None) T then Ill_formed
      else serialize_admin_members js lib nested obj (rf_members T) (js_null js))"

definition serialize_admin_vector ::
    "('j, 'f, 'y) json_ops \<Rightarrow> ('f, 'y) orm_lib \<Rightarrow> (('f, 'y) object list \<Rightarrow> 'j outcome) option \<Rightarrow> reflected
      \<Rightarrow> (string \<Rightarrow> ('f, 'y) cpp_value) list \<Rightarrow> 'j outcome" where
  "serialize_admin_vector js lib nested T objs =
     (if \<not> serialize_admin_compiles (nested \<noteq> None) T then Ill_formed
      else catch_null js (push_all js (serialize_admin js lib nested T) objs (js_array js)))"

subsection \<open>Lemmas\<close>

lemma assign_ok:
  assumes "json_ok js" "js_container js body"
  obtains body' where "assign js body k x = Returns body'" "js_container js body'"
    "\<And>k'. js_get js body' k' = (if k' = k then Some x else js_get js body k')"
proof -
  from assms obtain b where "js_set js body k x = Inr b" "js_container js b"
      "\<forall>k'. js_get js b k' = (if k' = k then Some x else js_get js body k')"
    unfolding json_ok_def by metis
  then show ?thesis by (intro that [of b]) (simp_all add: assign_def)
qed

text \<open>Members that are written one after the other, for both serializers.\<close>

lemma members_written:
  assumes "json_ok js"
    and step: "\<And>m ms body. m \<in> set all \<Longrightarrow> ser (m # ms) body = (if skip m then ser ms body
      else and_then (Returns (doc m)) (\<lambda>j. and_then (assign js body (mb_name m) j) (ser ms)))"
    and stop: "\<And>body. ser [] body = Returns body"
  shows "set ms \<subseteq> set all \<Longrightarrow> js_container js body \<Longrightarrow> distinct (map mb_name ms) \<Longrightarrow>
    \<exists>body'. ser ms body = Returns body' \<and>
      (\<forall>m\<in>set ms. js_get js body' (mb_name m) = (if skip m then js_get js body (mb_name m) else Some (doc m))) \<and>
      (\<forall>k. k \<notin> mb_name ` set ms \<longrightarrow> js_get js body' k = js_get js body k)"
proof (induction ms arbitrary: body)
  case Nil
  then show ?case by (simp add: stop)
next
  case (Cons m ms)
  show ?case
  proof (cases "skip m")
    case True
    with Cons.prems Cons.IH [of body] step [of m ms body] show ?thesis by auto
  next
    case False
    obtain b where b: "assign js body (mb_name m) (doc m) = Returns b" "js_container js b"
        "\<And>k'. js_get js b k' = (if k' = mb_name m then Some (doc m) else js_get js body k')"
      using assign_ok [OF assms(1) Cons.prems(2)] by metis
    from Cons.IH [OF _ b(2)] Cons.prems obtain body' where ih: "ser ms b = Returns body'"
        "\<forall>m\<in>set ms. js_get js body' (mb_name m) = (if skip m then js_get js b (mb_name m) else Some (doc m))"
        "\<forall>k. k \<notin> mb_name ` set ms \<longrightarrow> js_get js body' k = js_get js b k" by auto
    have "mb_name x \<noteq> mb_name m" if "x \<in> set ms" for x 
      using Cons.prems(3) imageI [OF that, of mb_name] by auto
    then show ?thesis
      using False Cons.prems ih b step [of m ms body]
      by (intro exI [of _ body']) auto
  qed
qed

lemma to_json_typed:
  assumes "value_type tv = t" "t = ty_enum \<or> is_integral t \<or> is_floating_point t \<or> ser_overload t"
    and "\<And>d. tv = V_date_time d \<Longrightarrow> date_time_str (ol_date lib) d \<noteq> None"
  shows "\<exists>j. to_json js lib tv = Returns j"
  using assms by (cases tv) (auto simp: to_json_def is_integral_def is_floating_point_def ser_overload_def)

lemma to_json_admin_plain:
  "value_type v \<noteq> ty_vector \<Longrightarrow> to_json_admin js lib nested v = to_json js lib v"
  by (cases v) (simp_all add: to_json_admin_def to_json_def)

end
