(* ===== verification/Serializer_Theorems.thy ===== *)
theory Serializer_Theorems
  imports Serializer Orm_Theorems
begin

text \<open>
  The properties of the serializer and of \<open>date_time\<close>: which members a document shows, how vectors
  fail, what the difference of two times is.
\<close>

subsection \<open>Documents\<close>

lemma shown_members:
  assumes "\<forall>m\<in>set ms. js_get js body (mb_name m) = (if skip m then None else Some (doc m))"
    and "\<forall>k. k \<notin> mb_name ` set ms \<longrightarrow> js_get js body k = None"
  shows "\<forall>k. js_get js body k = map_option doc (List.find (\<lambda>m. mb_name m = k \<and> \<not> skip m) ms)"
proof
  fix k
  show "js_get js body k = map_option doc (List.find (\<lambda>m. mb_name m = k \<and> \<not> skip m) ms)"
  proof (cases "List.find (\<lambda>m. mb_name m = k \<and> \<not> skip m) ms")
    case None
    then have "\<forall>m\<in>set ms. mb_name m = k \<longrightarrow> skip m" by (auto simp: find_None_iff)
    with None assms show ?thesis by (cases "k \<in> mb_name ` set ms") auto
  next
    case (Some m)
    then have "m \<in> set ms" "mb_name m = k" "\<not> skip m" by (auto simp: find_Some_iff)
    with Some assms(1) show ?thesis by auto
  qed
qed

text \<open>
  C36. A document shows exactly the members that are not flagged \<open>ignore_on_serializer\<close>: each under its
  name with the document of its value, and nothing under the name of a flagged member or any other
  name.  \<open>serialize_admin\<close> shows the flagged members too.
\<close>

theorem serialize_shows_unflagged:
  assumes "json_ok js" "serialize_compiles T" "distinct (map mb_name (rf_members T))"
    and "\<forall>m\<in>set (rf_members T). value_type (obj (mb_name m)) = mb_type m"
    and "\<forall>m\<in>set (rf_members T). to_json js lib (obj (mb_name m)) = Returns (doc m)"
  shows "(\<exists>body. serialize js lib T obj = Returns body \<and>
      (\<forall>k. js_get js body k = map_option doc (List.find (\<lambda>m. mb_name m = k
        \<and> \<not> has_flag (co_attribute (mb_column m)) cf_ignore_on_serializer) (rf_members T))))
    \<and> (\<exists>body. serialize_admin js lib nested T obj = Returns body \<and>
      (\<forall>k. js_get js body k = map_option doc (List.find (\<lambda>m. mb_name m = k) (rf_members T))))"
proof -
  let ?ms = "rf_members T"
  let ?skip = "\<lambda>m. has_flag (co_attribute (mb_column m)) cf_ignore_on_serializer"
  have null: "js_container js (js_null js)" "js_get js (js_null js) k = None" for k
    using assms(1) by (simp_all add: json_ok_def)
  have types: "mb_type m \<noteq> ty_vector" "mb_type m = ty_enum \<or> is_integral (mb_type m) \<or> is_floating_point (mb_type m) \<or> ser_overload (mb_type m)"
    if "m \<in> set ?ms" for m
    using assms(2) that by (auto simp: serialize_compiles_def list_all_iff is_integral_def is_floating_point_def ser_overload_def)
  then have c: "serialize_admin_compiles (nested \<noteq> None) T"
    by (auto simp: serialize_admin_compiles_def list_all_iff)
  have admin: "to_json_admin js lib nested (obj (mb_name m)) = Returns (doc m)" if "m \<in> set ?ms" for m
    using assms(4,5) types(1) that by (subst to_json_admin_plain) auto
  have "\<exists>body. serialize_members js lib obj ?ms (js_null js) = Returns body \<and>
      (\<forall>m\<in>set ?ms. js_get js body (mb_name m) = (if ?skip m then js_get js (js_null js) (mb_name m) else Some (doc m))) \<and>
      (\<forall>k. k \<notin> mb_name ` set ?ms \<longrightarrow> js_get js body k = js_get js (js_null js) k)"
    using assms(5) by (intro members_written [OF assms(1) _ _ _ null(1) assms(3), of ?ms]) auto
  then obtain b1 where b1: "serialize_members js lib obj ?ms (js_null js) = Returns b1"
      "\<forall>m\<in>set ?ms. js_get js b1 (mb_name m) = (if ?skip m then None else Some (doc m))"
      "\<forall>k. k \<notin> mb_name ` set ?ms \<longrightarrow> js_get js b1 k = None"
    unfolding null(2) by blast
  have "\<exists>body. serialize_admin_members js lib nested obj ?ms (js_null js) = Returns body \<and>
      (\<forall>m\<in>set ?ms. js_get js body (mb_name m) = (if False then js_get js (js_null js) (mb_name m) else Some (doc m))) \<and>
      (\<forall>k. k \<notin> mb_name ` set ?ms \<longrightarrow> js_get js body k = js_get js (js_null js) k)"
    using admin by (intro members_written [OF assms(1) _ _ _ null(1) assms(3), of ?ms]) auto
  then obtain b2 where b2: "serialize_admin_members js lib nested obj ?ms (js_null js) = Returns b2"
      "\<forall>m\<in>set ?ms. js_get js b2 (mb_name m) = (if False then None else Some (doc m))"
      "\<forall>k. k \<notin> mb_name ` set ?ms \<longrightarrow> js_get js b2 k = None"
    unfolding null(2) by blast
  have "serialize js lib T obj = Returns b1" "serialize_admin js lib nested T obj = Returns b2"
    using assms(2) c b1(1) b2(1) by (simp_all add: serialize_def serialize_admin_def)
  moreover have "\<forall>k. js_get js b2 k = map_option doc (List.find (\<lambda>m. mb_name m = k) ?ms)"
    using shown_members [OF b2(2,3)] by simp
  ultimately show ?thesis using shown_members [OF b1(2,3)] by blast
qed


datatype demo_json = J_null | J_string string | J_array "demo_json list" | J_object "(string \<times> demo_json) list"

fun demo_entries :: "demo_json \<Rightarrow> (string \<times> demo_json) list" where
  "demo_entries (J_object es) = es"
| "demo_entries _ = []"

definition demo_js :: "(demo_json, unit, int) json_ops" where
  "demo_js = \<lparr>js_null = J_null,
     js_set = (\<lambda>b k x. case b of J_null \<Rightarrow> Inr (J_object [(k, x)]) | J_object es \<Rightarrow> Inr (J_object ((k, x) # es))
       | _ \<Rightarrow> Inl App_exception),
     js_string = J_string, js_number = (\<lambda>v. case v of V_long w \<Rightarrow> J_string (to_string_int (sint w)) | _ \<Rightarrow> J_null),
     js_array = J_array [], js_push_back = (\<lambda>d r. case d of J_array rs \<Rightarrow> Inr (J_array (rs @ [r])) | _ \<Rightarrow> Inl App_exception),
     js_get = (\<lambda>b k. map_of (demo_entries b) k), js_container = (\<lambda>b. b = J_null \<or> (\<exists>es. b = J_object es))\<rparr>"

lemma demo_json_ok: "json_ok demo_js"
  by (auto simp: json_ok_def demo_js_def)

definition demo_user :: "string \<Rightarrow> (unit, int) cpp_value" where
  "demo_user n = (if n = ''id'' then V_long 7 else V_string ''ann'')"

definition demo_doc :: "member \<Rightarrow> demo_json" where
  "demo_doc m = (if mb_name m = ''id'' then J_string ''7'' else J_string ''ann'')"

theorem serialize_shows_unflagged_witness:
  "\<exists>body body'. serialize demo_js demo_lib demo_struct demo_user = Returns body
    \<and> js_get demo_js body ''id'' = None \<and> js_get demo_js body ''name'' = Some (J_string ''ann'')
    \<and> serialize_admin demo_js demo_lib None demo_struct demo_user = Returns body'
    \<and> js_get demo_js body' ''id'' = Some (J_string ''7'')"
proof -
  let ?T = demo_struct
  have s: "serialize_compiles ?T" "distinct (map mb_name (rf_members ?T))"
    "\<forall>m\<in>set (rf_members ?T). value_type (demo_user (mb_name m)) = mb_type m"
    by (simp_all add: demo_struct_def demo_member_def mk_column_def serialize_compiles_def is_integral_def
        ser_overload_def demo_user_def)
  have "to_string_int 7 = ''7''" by code_simp
  then have d: "\<forall>m\<in>set (rf_members ?T). to_json demo_js demo_lib (demo_user (mb_name m)) = Returns (demo_doc m)"
    by (simp add: demo_struct_def demo_member_def to_json_def demo_user_def demo_doc_def demo_js_def is_integral_def
        is_floating_point_def)
  from serialize_shows_unflagged [OF demo_json_ok s d, of None] obtain b b' where
    "serialize demo_js demo_lib ?T demo_user = Returns b" "serialize_admin demo_js demo_lib None ?T demo_user = Returns b'"
    "\<forall>k. js_get demo_js b k = map_option demo_doc (List.find (\<lambda>m. mb_name m = k
        \<and> \<not> has_flag (co_attribute (mb_column m)) cf_ignore_on_serializer) (rf_members ?T))"
    "\<forall>k. js_get demo_js b' k = map_option demo_doc (List.find (\<lambda>m. mb_name m = k) (rf_members ?T))"
    by blast
  then show ?thesis
    by (intro exI [of _ b] exI [of _ b'])
       (simp add: demo_struct_def demo_member_def mk_column_def demo_flags demo_doc_def)
qed

text \<open>A time of day, which a table can hold, does not compile in a document.\<close>

lemma serialize_rejects_time_of_day:
  "m \<in> set (rf_members T) \<Longrightarrow> mb_type m = ty_tod \<Longrightarrow> serialize js lib T obj = Ill_formed"
  by (auto simp: serialize_def serialize_compiles_def list_all_iff is_integral_def is_floating_point_def ser_overload_def)

text \<open>
  A vector is serialized whole or as null: the result is the array of the documents of its elements,
  or the null document when a standard exception came up; such an exception never leaves the
  function.
\<close>

lemma serialize_vector_all_or_null:
  "(\<forall>e. serialize_vector js lib T objs = Throws e \<longrightarrow> \<not> is_std_exn e) \<and>
   (\<forall>j. serialize_vector js lib T objs = Returns j \<longrightarrow> j = js_null js \<or>
      (\<exists>docs. list_all2 (\<lambda>obj d. serialize js lib T obj = Returns d) objs docs \<and>
        fold (\<lambda>d r. case r of Inl e \<Rightarrow> Inl e | Inr data \<Rightarrow> js_push_back js data d) docs (Inr (js_array js)) = Inr j))"
proof -
  have push: "\<exists>docs. list_all2 (\<lambda>obj d. serialize js lib T obj = Returns d) objs docs \<and>
      fold (\<lambda>d r. case r of Inl e \<Rightarrow> Inl e | Inr data \<Rightarrow> js_push_back js data d) docs (Inr data) = Inr j"
    if "push_all js (serialize js lib T) objs data = Returns j" for data j
    using that
  proof (induction objs arbitrary: data)
    case Nil
    then show ?case by (intro exI [of _ "[]"]) simp
  next
    case (Cons obj objs)
    then obtain d where r: "serialize js lib T obj = Returns d"
        "and_then (case js_push_back js data d of Inl e \<Rightarrow> Throws e | Inr data' \<Rightarrow> Returns data')
          (push_all js (serialize js lib T) objs) = Returns j"
      by (auto simp: and_then_Returns_iff)
    then obtain data' where d: "serialize js lib T obj = Returns d" "js_push_back js data d = Inr data'"
        "push_all js (serialize js lib T) objs data' = Returns j"
      by (cases "js_push_back js data d") auto
    from Cons.IH [OF d(3)] obtain docs where "list_all2 (\<lambda>obj d. serialize js lib T obj = Returns d) objs docs"
        "fold (\<lambda>d r. case r of Inl e \<Rightarrow> Inl e | Inr data \<Rightarrow> js_push_back js data d) docs (Inr data') = Inr j" by blast
    with d show ?case by (intro exI [of _ "d # docs"]) simp
  qed
  show ?thesis
    using push by (auto simp: serialize_vector_def catch_null_def split: outcome.splits if_splits)
qed

subsection \<open>date_time\<close>

text \<open>
  \<open>days_since\<close> counts whole days, in 32 bits without sign: for a time at or after the other it is
  the number of days between them; the two directions add up to 0 modulo \<open>2 ^ 32\<close>, so that a time
  one day before the other is \<open>2 ^ 32 - 1\<close> days since it.
\<close>

lemma days_since_wraps:
  assumes "i64 (dt_time d - dt_time rhs) = Some diff" "i64 (dt_time rhs - dt_time d) \<noteq> None" "0 \<le> diff"
  shows "\<exists>n m. days_since d rhs = Some n \<and> days_since rhs d = Some m \<and>
    int (unat n) = diff div day_ns \<and> m = - n \<and> (unat n \<noteq> 0 \<longrightarrow> unat n + unat m = 2 ^ 32)"
proof -
  have diff: "diff = dt_time d - dt_time rhs" using assms(1) by (simp add: i64_Some_iff)
  have q: "0 \<le> diff div day_ns" "diff div day_ns < 2 ^ 31"
    using assms(3) cast_days_bound [OF assms(1)] by (simp_all add: pos_imp_zdiv_nonneg_iff cast_days_def cdiv_pos diff)
  let ?n = "word_of_int (diff div day_ns) :: 32 word"
  have c: "cast_days diff = diff div day_ns" using assms(3) by (simp add: cast_days_def cdiv_pos)
  have n: "days_since d rhs = Some ?n" using assms(1) c diff by (simp add: days_since_def)
  have "i64 (dt_time rhs - dt_time d) = Some (- diff)"
    using assms(2) diff by (auto simp: i64_Some_iff)
  then have m: "days_since rhs d = Some (- ?n)"
    using c cast_days_neg [of diff] by (simp add: days_since_def)
  have u: "int (unat ?n) = diff div day_ns"
    using q by (simp add: unsigned_of_int take_bit_int_eq_self)
  have "unat ?n + unat (- ?n) = 2 ^ 32" if "unat ?n \<noteq> 0"
  proof -
    have k: "uint ?n = diff div day_ns" using u by simp
    then have "uint ?n \<noteq> 0" using that u by linarith
    moreover have "uint ?n mod 2 ^ 32 = uint ?n" using k q by simp
    ultimately have "uint (- ?n) = 2 ^ 32 - uint ?n"
      unfolding uint_word_ariths by (simp only: zmod_zminus1_eq_if) simp
    then have "int (unat ?n + unat (- ?n)) = int (2 ^ 32)" by simp
    then show ?thesis by (simp only: of_nat_eq_iff)
  qed
  with n m u show ?thesis by blast
qed

lemma days_since_wraps_witness:
  "\<exists>n m. days_since \<lparr>dt_ymd = (), dt_time = day_ns\<rparr> \<lparr>dt_ymd = (), dt_time = 0\<rparr> = Some n
    \<and> days_since \<lparr>dt_ymd = (), dt_time = 0\<rparr> \<lparr>dt_ymd = (), dt_time = day_ns\<rparr> = Some m \<and> unat n = 1 \<and> unat m = 2 ^ 32 - 1"
proof -
  have i: "i64 (dt_time \<lparr>dt_ymd = (), dt_time = day_ns\<rparr> - dt_time \<lparr>dt_ymd = (), dt_time = 0\<rparr>) = Some day_ns"
    "i64 (dt_time \<lparr>dt_ymd = (), dt_time = 0\<rparr> - dt_time \<lparr>dt_ymd = (), dt_time = day_ns\<rparr>) \<noteq> None" "0 \<le> day_ns"
    by (simp_all add: i64_def day_ns_def)
  from days_since_wraps [OF i] obtain n m where
    "days_since \<lparr>dt_ymd = (), dt_time = day_ns\<rparr> \<lparr>dt_ymd = (), dt_time = 0\<rparr> = Some n"
    "days_since \<lparr>dt_ymd = (), dt_time = 0\<rparr> \<lparr>dt_ymd = (), dt_time = day_ns\<rparr> = Some m"
    and w: "int (unat n) = day_ns div day_ns" "unat n \<noteq> 0 \<longrightarrow> unat n + unat m = 2 ^ 32" by blast
  moreover have "unat n = 1"
  proof -
    have "int (unat n) = 1" using w(1) by (metis day_ns_pos(1) div_self less_irrefl)
    then show ?thesis by (simp only: of_nat_eq_1_iff)
  qed
  moreover from this have "unat m = 2 ^ 32 - 1" using w(2) by simp
  ultimately show ?thesis by blast
qed

text \<open>
  The difference of two times is the right-hand time moved back by the time of day of the left-hand
  one: the operator subtracts the difference from the left-hand midnight.  A time minus itself is
  its own midnight.
\<close>

lemma minus_is_rhs_moved_back:
  assumes "date_lib_ok lib" "date_time_inv lib d" "date_time_minus lib d rhs = Some r"
  shows "dt_time r = dt_time rhs - dt_time d mod day_ns \<and> date_time_inv lib r"
  using assms(3) midnight_le [OF assms(1,2)] date_time_inv_minus [OF assms(3)]
  by (auto simp: date_time_minus_def option_bind_Some_iff i64_Some_iff)

lemma minus_is_rhs_moved_back_witness:
  "\<exists>r. date_time_minus (ol_date demo_lib) (date_time_now (ol_date demo_lib) (day_ns + 5)) (date_time_now (ol_date demo_lib) (day_ns + 5)) = Some r
    \<and> dt_time r = day_ns"
proof -
  let ?d = "date_time_now (ol_date demo_lib) (day_ns + 5)"
  have ok: "date_lib_ok (ol_date demo_lib)" by (simp add: date_lib_ok_def demo_lib_def)
  have "\<exists>r. date_time_minus (ol_date demo_lib) ?d ?d = Some r"
    by (simp add: date_time_minus_def date_time_now_def demo_lib_def floor_days_def i64_def day_ns_def)
  then obtain r where r: "date_time_minus (ol_date demo_lib) ?d ?d = Some r" by blast
  from minus_is_rhs_moved_back [OF ok date_time_inv_made(1) r] r show ?thesis
    by (simp add: date_time_now_def day_ns_def)
qed

text \<open>
  A time given as text and read back loses what is below a second: \<open>from_str\<close> of \<open>str\<close> has the same
  calendar day, when the library reads what it wrote.
\<close>

lemma str_reads_back:
  assumes "date_lib_ok lib" "date_time_inv lib d" "date_time_str lib d = Some s"
    and "dl_parse lib s = Some (dt_time d - dt_time d mod 1000000000)"
  shows "dt_ymd (from_str lib s) = dt_ymd d \<and> dt_time (from_str lib s) = dt_time d - dt_time d mod 1000000000"
proof -
  have "(dt_time d - dt_time d mod 1000000000) div day_ns = dt_time d div day_ns"
  proof -
    let ?s = "1000000000 :: int"
    have day: "day_ns = ?s * 86400" by (simp add: day_ns_def)
    have "dt_time d - dt_time d mod ?s = ?s * (dt_time d div ?s)" by (rule minus_mod_eq_mult_div)
    then show ?thesis unfolding day by (simp add: zdiv_zmult2_eq)
  qed
  with assms(2,4) show ?thesis
    by (simp add: from_str_def mk_date_time_def date_time_inv_def floor_days_def)
qed

end
