(* ===== verification/Server_Process.thy ===== *)
theory Server_Process
  imports Server_Inv
begin

text \<open>
  The life of a \<open>WebServer\<close> object (\<open>server/impl/webserver.cpp\<close>): the application's thread, which
  starts, stops, drops and destroys it, and the thread that runs \<open>context_handler\<close>.  \<open>start\<close> creates
  the thread, \<open>stop\<close> and the destructor join it.  The loop of \<open>context_handler\<close> holds an
  \<open>io_context::work\<close>, so that \<open>run\<close> returns only after the io_context was stopped, which an application
  can do through \<open>asio_context()\<close>.  Shared pointers to the server are held by the application and by
  every session.
\<close>

subsection \<open>The two threads\<close>

text \<open>What became of the thread: never created, in its loop, left by an exception, left normally.\<close>

datatype worker = Wk_none | Wk_running | Wk_threw cpp_exn | Wk_returned

text \<open>
  The application uses the server, waits in \<open>stop\<close>, has dropped its shared pointer, waits in the
  destructor, or the destructor is done.
\<close>

datatype app = App_using | App_in_stop | App_released | App_in_destructor | App_done

record 'x process =
  pr_server :: "'x server"
  pr_worker :: worker
  pr_joinable :: bool \<comment> \<open>\<open>context_worker_thread_.joinable()\<close>\<close>
  pr_stopped :: bool \<comment> \<open>the io_context was stopped\<close>
  pr_listening :: bool \<comment> \<open>the acceptor was opened\<close>
  pr_app :: app

definition new_process :: "'x server \<Rightarrow> 'x process" where
  "new_process v = \<lparr>pr_server = v, pr_worker = Wk_none, pr_joinable = False, pr_stopped = False,
     pr_listening = False, pr_app = App_using\<rparr>"

text \<open>The process: alive, ended by a failed assertion or a foreign exception, by \<open>std::terminate\<close>.\<close>

datatype 'x process_conf = Alive "'x process" | Died cpp_exn | Terminated | Unspecified

text \<open>An operation runs with the assertions of the build; in the destructor no pointer owns the server.\<close>

definition mode_of :: "bool \<Rightarrow> 'x process \<Rightarrow> mode" where
  "mode_of asserts p = \<lparr>md_asserts = asserts, md_shared = (pr_app p \<noteq> App_in_destructor)\<rparr>"

subsection \<open>The application's operations\<close>

text \<open>Assigning to a thread that is still joinable calls \<open>std::terminate\<close>.\<close>

definition start_process :: "bool \<Rightarrow> listen_answers \<Rightarrow> 'x process \<Rightarrow> 'x process_conf" where
  "start_process asserts la p =
     (case start_in (mode_of asserts p) la (pr_server p) of
        Inl e \<Rightarrow> Died e
      | Inr v \<Rightarrow>
          if pr_joinable p then Terminated
          else Alive (p\<lparr>pr_server := v, pr_worker := Wk_running, pr_joinable := True\<rparr>))"

definition stop_process :: "bool \<Rightarrow> 'x process \<Rightarrow> 'x process_conf" where
  "stop_process asserts p =
     (case stop_in (mode_of asserts p) (pr_server p) of
        Inl e \<Rightarrow> Died e
      | Inr v \<Rightarrow>
          if \<not> wb_started (pr_server p) then Alive (p\<lparr>pr_server := v\<rparr>)
          else if pr_joinable p then Alive (p\<lparr>pr_server := v, pr_app := App_in_stop\<rparr>)
          else Alive (p\<lparr>pr_server := v\<rparr>))"

text \<open>The destructor of \<open>WebServer\<close>.\<close>

definition destroy_process :: "'x process \<Rightarrow> 'x process" where
  "destroy_process p = (if pr_joinable p then p\<lparr>pr_app := App_in_destructor\<rparr> else p\<lparr>pr_app := App_done\<rparr>)"

text \<open>\<open>join\<close> returns when the thread has ended.\<close>

definition join_returns :: "'x process \<Rightarrow> bool" where
  "join_returns p \<longleftrightarrow> pr_worker p \<noteq> Wk_running"

subsection \<open>Who holds a shared pointer to the server\<close>

text \<open>
  A session object lives while the registry, the handler of its accept or of its expiry, or the
  handler of a write holds it, and every session holds \<open>server_\<close>.  The write captures
  \<open>shared_from_this\<close>; the read captures the bare \<open>this\<close>, so a pending read keeps nothing
  alive.
\<close>

definition handler_holds :: "nat \<Rightarrow> handler \<Rightarrow> bool" where
  "handler_holds a h = (case h of H_start la \<Rightarrow> False | H_accept b aa \<Rightarrow> a = b | H_expire b ec \<Rightarrow> a = b)"

definition session_held :: "'x server \<Rightarrow> nat \<Rightarrow> bool" where
  "session_held v a \<longleftrightarrow>
     wb_sessions v (ws_session_id (wb_objects v ! a)) = Some a
   \<or> wb_accepting v = Some a
   \<or> list_ex (handler_holds a) (wb_queue v)
   \<or> ws_write (wb_objects v ! a) \<noteq> W_idle"

definition server_held :: "'x server \<Rightarrow> bool" where
  "server_held v \<longleftrightarrow> list_ex (session_held v) [0..<length (wb_objects v)]"

subsection \<open>The io thread\<close>

definition handler_result :: "'x process \<Rightarrow> 'x server \<Rightarrow> cpp_exn + 'x server \<Rightarrow> 'x process_conf" where
  "handler_result p v r =
     (case r of
        Inr v' \<Rightarrow> Alive (p\<lparr>pr_server := v'\<rparr>)
      | Inl e \<Rightarrow>
          if is_std_exn e then Alive (p\<lparr>pr_server := v\<lparr>wb_running := False\<rparr>, pr_worker := Wk_threw e\<rparr>)
          else Died e)"

fun session_result :: "'x process \<Rightarrow> nat \<Rightarrow> 'x conf \<Rightarrow> 'x process_conf" where
  "session_result p a (Live h s) = Alive (p\<lparr>pr_server := update_session a s ((pr_server p)\<lparr>wb_store := h\<rparr>)\<rparr>)"
| "session_result p a (Ended e) = handler_result p (pr_server p) (Inl e)"
| "session_result p a Undefined = Unspecified"

text \<open>An acceptor that is open does not open again: the system's answer is an error.\<close>

definition answers_possible :: "'x process \<Rightarrow> handler \<Rightarrow> bool" where
  "answers_possible p h =
     (case h of H_start la \<Rightarrow> pr_listening p \<and> \<not> ec_true (la_address la) \<longrightarrow> ec_true (la_open la) | _ \<Rightarrow> True)"

definition opens :: "handler \<Rightarrow> bool" where
  "opens h = (case h of H_start la \<Rightarrow> \<not> ec_true (la_address la) \<and> \<not> ec_true (la_open la) | _ \<Rightarrow> False)"

definition run_process_handler :: "bool \<Rightarrow> handler \<Rightarrow> handler list \<Rightarrow> 'x process \<Rightarrow> 'x process_conf" where
  "run_process_handler asserts h q p =
     (let v = (pr_server p)\<lparr>wb_queue := q\<rparr>
      in handler_result (p\<lparr>pr_listening := pr_listening p \<or> opens h\<rparr>) v (run_handler_in (mode_of asserts p) h v))"

text \<open>
  The interleaving of the two threads and the system.  The last reference to the server can also
  go away with a handler on the io thread, after the application dropped its own
  (\<open>self_destroy\<close>): the destructor then joins the thread it runs on, which throws out of a
  destructor and ends the process.
\<close>

inductive process_step ::
    "bool \<Rightarrow> (headers \<Rightarrow> headers) \<Rightarrow> 'x process_conf \<Rightarrow> 'x process_conf \<Rightarrow> bool" for asserts ord where
  p_start: "pr_app p = App_using \<Longrightarrow> process_step asserts ord (Alive p) (start_process asserts la p)"
| p_stop: "pr_app p = App_using \<Longrightarrow> process_step asserts ord (Alive p) (stop_process asserts p)"
| p_add: "pr_app p = App_using \<Longrightarrow>
    process_step asserts ord (Alive p) (Alive (p\<lparr>pr_server := add_middleware m (pr_server p)\<rparr>))"
| p_context_stop: "pr_app p = App_using \<Longrightarrow> process_step asserts ord (Alive p) (Alive (p\<lparr>pr_stopped := True\<rparr>))"
| p_release: "pr_app p = App_using \<Longrightarrow> server_held (pr_server p) \<Longrightarrow>
    process_step asserts ord (Alive p) (Alive (p\<lparr>pr_app := App_released\<rparr>))"
| p_destroy: "pr_app p = App_using \<Longrightarrow> \<not> server_held (pr_server p) \<Longrightarrow>
    process_step asserts ord (Alive p) (Alive (destroy_process p))"
| p_self_destroy: "pr_app p = App_released \<Longrightarrow> \<not> server_held (pr_server p) \<Longrightarrow>
    process_step asserts ord (Alive p) Terminated"
| p_stop_joined: "pr_app p = App_in_stop \<Longrightarrow> join_returns p \<Longrightarrow>
    process_step asserts ord (Alive p) (Alive (p\<lparr>pr_joinable := False, pr_app := App_using\<rparr>))"
| p_destructor_joined: "pr_app p = App_in_destructor \<Longrightarrow> join_returns p \<Longrightarrow>
    process_step asserts ord (Alive p) (Alive (p\<lparr>pr_joinable := False, pr_app := App_done\<rparr>))"
| p_accepted: "pr_app p \<noteq> App_done \<Longrightarrow> wb_accepting (pr_server p) = Some a \<Longrightarrow>
    process_step asserts ord (Alive p) (Alive (p\<lparr>pr_server := (pr_server p)\<lparr>wb_accepting := None,
      wb_queue := wb_queue (pr_server p) @ [H_accept a aa]\<rparr>\<rparr>))"
| p_handler: "pr_worker p = Wk_running \<Longrightarrow> \<not> pr_stopped p \<Longrightarrow> wb_queue (pr_server p) = h # q \<Longrightarrow> answers_possible p h \<Longrightarrow>
    process_step asserts ord (Alive p) (run_process_handler asserts h q p)"
| p_session: "pr_worker p = Wk_running \<Longrightarrow> \<not> pr_stopped p \<Longrightarrow> a < length (wb_objects (pr_server p)) \<Longrightarrow>
    session_step (wb_middlewares (pr_server p)) ord (Live (wb_store (pr_server p)) (wb_objects (pr_server p) ! a)) c \<Longrightarrow>
    process_step asserts ord (Alive p) (session_result p a c)"
| p_returned: "pr_worker p = Wk_running \<Longrightarrow> pr_stopped p \<Longrightarrow> \<not> wb_started (pr_server p) \<Longrightarrow>
    process_step asserts ord (Alive p)
      (Alive (p\<lparr>pr_server := (pr_server p)\<lparr>wb_running := False\<rparr>, pr_worker := Wk_returned\<rparr>))"

inductive process_reachable :: "bool \<Rightarrow> (headers \<Rightarrow> headers) \<Rightarrow> 'x process_conf \<Rightarrow> bool" for asserts ord where
  init: "\<not> ec_true close_error \<Longrightarrow>
    process_reachable asserts ord (Alive (new_process (new_server host port h option close_error)))"
| step: "process_reachable asserts ord c \<Longrightarrow> process_step asserts ord c c' \<Longrightarrow> process_reachable asserts ord c'"

inductive_cases process_step_Alive: "process_step asserts ord (Alive p) c"

lemma alive_before: "process_step asserts ord c (Alive p') \<Longrightarrow> \<exists>p. c = Alive p"
  by (cases rule: process_step.cases) auto

subsection \<open>Frames\<close>

lemma mode_debug: "pr_app p \<noteq> App_in_destructor \<Longrightarrow> mode_of True p = debug"
  by (simp add: mode_of_def debug_def)

lemma update_session_running [frame_simps]:
  "wb_running (update_session a s v) = wb_running v"
  by (simp add: update_session_def fold_apply_effect)

lemma accept_in_frame:
  assumes "accept_in md v = Inr v'"
  shows "wb_started v' = wb_started v" "wb_running v' = wb_running v"
    "\<not> md_shared md \<Longrightarrow> wb_objects v' = wb_objects v"
  using assms
  by (auto simp: accept_in_def accept_handler_def create_session_def register_session_def server_error_cb_def
      Let_def split: if_split_asm)

lemma error_cb_frame [frame_simps]:
  "wb_started (server_error_cb ec v) = wb_started v" "wb_running (server_error_cb ec v) = wb_running v"
  "wb_objects (server_error_cb ec v) = wb_objects v"
  by (simp_all add: server_error_cb_def)

lemma start_handler_cases:
  "start_handler_in md la v = Inr v' \<Longrightarrow> (\<exists>ec. v' = server_error_cb ec v) \<or> accept_in md v = Inr v'"
  by (auto simp: start_handler_in_def split: if_split_asm)

text \<open>The server when the accept handler starts the next accept.\<close>

definition accepted_server :: "nat \<Rightarrow> 'x server \<Rightarrow> 'x server" where
  "accepted_server a v =
     (let v1 = update_session a (connect ((wb_objects v ! a)\<lparr>ws_open := True\<rparr>)) v
      in v1\<lparr>wb_queue := wb_queue v1 @ [H_expire a operation_aborted]\<rparr>)"

lemma async_accept_cases:
  "async_accept_handler_in md a aa v = Inr v' \<Longrightarrow>
    v' = server_error_cb (aa_accept aa) v \<or> accept_in md (accepted_server a v) = Inr v'"
  unfolding async_accept_handler_eq accepted_server_def Let_def by (metis sum.inject(2) sum.distinct(1))

lemma accepted_server_frame [frame_simps]:
  "wb_started (accepted_server a v) = wb_started v" "wb_running (accepted_server a v) = wb_running v"
  "length (wb_objects (accepted_server a v)) = length (wb_objects v)"
  by (simp_all add: accepted_server_def Let_def frame_simps)

lemma start_handler_frame:
  assumes "start_handler_in md la v = Inr v'"
  shows "wb_started v' = wb_started v" "wb_running v' = wb_running v"
    "\<not> md_shared md \<Longrightarrow> wb_objects v' = wb_objects v"
  using start_handler_cases [OF assms] accept_in_frame [of md v v'] by (auto simp: frame_simps)

lemma async_accept_frame:
  assumes "async_accept_handler_in md a aa v = Inr v'"
  shows "wb_started v' = wb_started v" "wb_running v' = wb_running v"
    "\<not> md_shared md \<Longrightarrow> length (wb_objects v') = length (wb_objects v)"
  using async_accept_cases [OF assms] accept_in_frame [of md "accepted_server a v" v'] by (auto simp: frame_simps)

lemma run_handler_frame:
  assumes "run_handler_in md h v = Inr v'"
  shows "wb_started v' = wb_started v" "wb_running v' = wb_running v"
    "\<not> md_shared md \<Longrightarrow> length (wb_objects v') = length (wb_objects v)"
proof -
  have "wb_started v' = wb_started v \<and> wb_running v' = wb_running v
    \<and> (\<not> md_shared md \<longrightarrow> length (wb_objects v') = length (wb_objects v))"
  proof (cases h)
    case (H_start la)
    with start_handler_frame [of md la v v'] assms show ?thesis by simp
  next
    case (H_accept a aa)
    with async_accept_frame [of md a aa v v'] assms show ?thesis by simp
  next
    case (H_expire a ec)
    with assms have "v' = expire_session a ec v" by simp
    then show ?thesis by (simp add: expire_session_def frame_simps)
  qed
  then show "wb_started v' = wb_started v" "wb_running v' = wb_running v"
    "\<not> md_shared md \<Longrightarrow> length (wb_objects v') = length (wb_objects v)" by blast+
qed

lemma handler_result_Alive:
  "handler_result p v r = Alive p' \<longleftrightarrow> (\<exists>v'. r = Inr v' \<and> p' = p\<lparr>pr_server := v'\<rparr>)
    \<or> (\<exists>e. r = Inl e \<and> is_std_exn e \<and> p' = p\<lparr>pr_server := v\<lparr>wb_running := False\<rparr>, pr_worker := Wk_threw e\<rparr>)"
  by (cases r) (auto simp: handler_result_def)

lemma session_result_Alive:
  "session_result p a c = Alive p' \<longleftrightarrow>
    (\<exists>h s. c = Live h s \<and> p' = p\<lparr>pr_server := update_session a s ((pr_server p)\<lparr>wb_store := h\<rparr>)\<rparr>)
    \<or> (\<exists>e. c = Ended e \<and> is_std_exn e
        \<and> p' = p\<lparr>pr_server := (pr_server p)\<lparr>wb_running := False\<rparr>, pr_worker := Wk_threw e\<rparr>)"
  by (cases c) (auto simp: handler_result_Alive)

subsection \<open>With assertions the process refines the server\<close>

definition process_inv :: "'x process \<Rightarrow> bool" where
  "process_inv p \<longleftrightarrow> pr_app p \<noteq> App_in_stop \<and> pr_worker p \<noteq> Wk_returned
     \<and> (wb_running (pr_server p) \<longleftrightarrow> pr_worker p = Wk_running)
     \<and> (wb_started (pr_server p) \<longleftrightarrow> pr_worker p \<noteq> Wk_none)
     \<and> (pr_app p \<noteq> App_done \<longrightarrow> (pr_joinable p \<longleftrightarrow> pr_worker p \<noteq> Wk_none))"

definition owned :: "'x process \<Rightarrow> bool" where
  "owned p \<longleftrightarrow> pr_app p \<noteq> App_in_destructor \<and> pr_app p \<noteq> App_done"

lemma process_inv_step:
  assumes "process_step True ord (Alive p) (Alive p')" "process_inv p"
  shows "process_inv p'"
  using assms(1)
proof (cases rule: process_step.cases)
  case (p_start la)
  then show ?thesis using assms(2)
    by (simp add: start_process_def start_in_def mode_of_def process_inv_def split: if_split_asm)
next
  case p_stop
  then show ?thesis using assms(2)
    by (simp add: stop_process_def stop_in_def mode_of_def process_inv_def frame_simps split: if_split_asm)
next
  case (p_handler h q)
  let ?v = "(pr_server p)\<lparr>wb_queue := q\<rparr>"
  from p_handler(1) consider v' where "run_handler_in (mode_of True p) h ?v = Inr v'"
      "p' = p\<lparr>pr_listening := pr_listening p \<or> opens h, pr_server := v'\<rparr>"
    | e where "p' = p\<lparr>pr_listening := pr_listening p \<or> opens h, pr_server := ?v\<lparr>wb_running := False\<rparr>, pr_worker := Wk_threw e\<rparr>"
    unfolding run_process_handler_def Let_def using handler_result_Alive by metis
  then show ?thesis
  proof cases
    case 1
    with run_handler_frame(1,2) [OF 1(1)] assms(2) show ?thesis by (simp add: process_inv_def)
  next
    case 2
    with p_handler assms(2) show ?thesis by (simp add: process_inv_def)
  qed
next
  case (p_session a c)
  from p_session(1) [symmetric] show ?thesis using assms(2) p_session(2)
    by (auto simp: session_result_Alive process_inv_def frame_simps)
next
  case p_destroy
  with assms(2) show ?thesis by (simp add: process_inv_def destroy_process_def)
next
  case p_destructor_joined
  with assms(2) show ?thesis by (simp add: process_inv_def)
next
  case p_add
  with assms(2) show ?thesis by (simp add: process_inv_def add_middleware_def)
qed (use assms(2) in \<open>simp_all add: process_inv_def\<close>)

lemma owned_before:
  assumes "process_step True ord (Alive p) (Alive p')" "owned p'"
  shows "owned p"
  using assms
proof (cases rule: process_step.cases)
  case (p_handler h q)
  then show ?thesis using assms(2)
    by (auto simp: run_process_handler_def Let_def owned_def dest: handler_result_Alive [THEN iffD1, OF sym])
next
  case (p_session a c)
  then show ?thesis using assms(2)
    by (auto simp: owned_def dest: session_result_Alive [THEN iffD1, OF sym])
qed (use assms(2) in \<open>simp_all add: owned_def destroy_process_def\<close>)

text \<open>What the io thread does, as a step of the server.\<close>

lemma after_handler_up:
  "handler_result p v r = Alive p' \<Longrightarrow> after_handler v r = Up (pr_server p')"
  by (auto simp: handler_result_Alive after_handler_def)

lemma after_session_up:
  "session_result p a c = Alive p' \<Longrightarrow> after_session a (pr_server p) c = Up (pr_server p')"
  by (auto simp: session_result_Alive after_handler_def)

lemma refine_step:
  assumes "process_step True ord (Alive p) (Alive p')" "process_inv p" "owned p"
  shows "pr_server p' = pr_server p \<or> server_step ord (Up (pr_server p)) (Up (pr_server p'))"
  using assms(1)
proof (cases rule: process_step.cases)
  case (p_start la)
  then have "start la (pr_server p) = Inr (pr_server p')"
    by (simp add: start_process_def mode_debug split: sum.split_asm if_split_asm)
  then show ?thesis using server_step.app_start by blast
next
  case p_stop
  then have "stop (pr_server p) = Inr (pr_server p')"
    by (simp add: stop_process_def mode_debug split: sum.split_asm if_split_asm)
  then show ?thesis using server_step.app_stop [of ord "pr_server p"] by simp
next
  case (p_add m)
  then show ?thesis using server_step.app_add by auto
next
  case (p_accepted a aa)
  then show ?thesis using server_step.accepted by auto
next
  case (p_handler h q)
  then have "wb_running (pr_server p)" using assms(2) by (simp add: process_inv_def)
  from server_step.handler [OF this p_handler(4)] p_handler(1) assms(3) show ?thesis
    by (metis after_handler_up run_process_handler_def mode_debug owned_def)
next
  case (p_session a c)
  then have "wb_running (pr_server p)" using assms(2) by (simp add: process_inv_def)
  from server_step.session [OF this p_session(4,5)] p_session(1) show ?thesis
    by (metis after_session_up)
next
  case p_returned
  with assms(2) show ?thesis by (simp add: process_inv_def)
qed (simp_all add: destroy_process_def)

lemma process_reachable_inv:
  "process_reachable True ord c \<Longrightarrow> \<forall>p. c = Alive p \<longrightarrow>
    process_inv p \<and> (owned p \<longrightarrow> server_reachable ord (Up (pr_server p)))"
proof (induction rule: process_reachable.induct)
  case (init close_error host port h option)
  have "process_inv (new_process (new_server host port h option close_error))"
    by (simp add: process_inv_def new_process_def new_server_def)
  moreover have "pr_server (new_process (new_server host port h option close_error)) = new_server host port h option close_error"
    by (simp add: new_process_def)
  ultimately show ?case using server_reachable.init [OF init] by auto
next
  case (step c c')
  show ?case
  proof (intro allI impI conjI)
    fix p' assume p': "c' = Alive p'"
    with step.hyps(2) alive_before obtain p where p: "c = Alive p" by blast
    with step.IH have i: "process_inv p" and r: "owned p \<Longrightarrow> server_reachable ord (Up (pr_server p))" by auto
    have st: "process_step True ord (Alive p) (Alive p')" using step.hyps(2) p p' by simp
    show "process_inv p'" using process_inv_step [OF st i] .
    assume "owned p'"
    then have o: "owned p" using owned_before [OF st] by blast
    from refine_step [OF st i o] r [OF o] show "server_reachable ord (Up (pr_server p'))"
      by (metis server_reachable.step)
  qed
qed

subsection \<open>The newest session keeps the server\<close>

text \<open>
  The newest session object is always one that is not accepted yet: accepting a client creates the
  next.  It is registered, and holds a shared pointer to the server.
\<close>

definition newest_new :: "'x server \<Rightarrow> bool" where
  "newest_new v \<longleftrightarrow> wb_objects v \<noteq> [] \<longrightarrow> is_new (length (wb_objects v) - 1) v"

lemma newest_new_same:
  fixes v v' :: "'x server"
  shows "newest_new v \<Longrightarrow> wb_objects v' = wb_objects v \<Longrightarrow> newest_new v'"
  by (simp add: newest_new_def is_new_def)

lemma newest_new_accept:
  assumes "\<not> ec_true (wb_close_error v)" "accept v = Inr v'"
  shows "newest_new v'"
proof -
  have st: "wb_started v" "v' = accept_handler v" using assms(2) by (auto simp: accept_def split: if_split_asm)
  have "wb_objects v' = wb_objects v @ [new_session (wb_last_session_id v + 1) (wb_buffer_option v) (wb_close_error v)]"
    using accept_handler_eq [OF st(1)] st(2) by (simp add: Let_def)
  with assms(1) show ?thesis by (auto simp: newest_new_def is_new_def)
qed

lemma newest_new_update:
  assumes "newest_new v" "is_new a v \<Longrightarrow> s = wb_objects v ! a"
  shows "newest_new (update_session a s v)"
proof (cases "a = length (wb_objects v) - 1 \<and> wb_objects v \<noteq> []")
  case True
  with assms have "(wb_objects v)[a := s] = wb_objects v" by (simp add: newest_new_def)
  then have "wb_objects (update_session a s v) = wb_objects v" by (simp add: frame_simps)
  with assms(1) newest_new_same show ?thesis by blast
next
  case False
  then have "wb_objects v \<noteq> [] \<Longrightarrow> (wb_objects v)[a := s] ! (length (wb_objects v) - 1) = wb_objects v ! (length (wb_objects v) - 1)"
    by simp
  with assms(1) show ?thesis unfolding newest_new_def is_new_def frame_simps length_list_update by auto
qed

lemma newest_new_handler:
  assumes ce: "\<not> ec_true (wb_close_error v)" and n: "newest_new v" and r: "run_handler h v = Inr v'"
  shows "newest_new v'"
proof (cases h)
  case (H_start la)
  then consider ec where "v' = server_error_cb ec v" | "accept v = Inr v'"
    using r start_handler_cases [of debug la v v'] by (simp only: run_handler_in.simps) blast
  then show ?thesis
  proof cases
    case 1
    then show ?thesis using newest_new_same [OF n] error_cb_frame(3) by metis
  qed (rule newest_new_accept [OF ce])
next
  case (H_accept a aa)
  from async_accept_cases [OF r [unfolded H_accept run_handler_in.simps]] show ?thesis
  proof
    assume "v' = server_error_cb (aa_accept aa) v"
    then show ?thesis using newest_new_same [OF n] error_cb_frame(3) by metis
  next
    assume "accept (accepted_server a v) = Inr v'"
    moreover have "\<not> ec_true (wb_close_error (accepted_server a v))" using ce by (simp add: accepted_server_def frame_simps)
    ultimately show ?thesis using newest_new_accept by blast
  qed
next
  case (H_expire a ec)
  have "expire_handler ec (wb_objects v ! a) = wb_objects v ! a" if "is_new a v"
    using that by (auto simp: is_new_def expire_handler_def new_session_def)
  from newest_new_update [OF n this] H_expire r show ?thesis by (simp add: expire_session_def)
qed

lemma newest_new_step:
  assumes st: "server_step ord (Up v) (Up v')" and inv: "server_inv ord v" and n: "newest_new v"
  shows "newest_new v'"
  using st
proof (cases rule: server_step.cases)
  case (app_start la)
  then show ?thesis using newest_new_same [OF n] by (auto simp: start_def split: if_split_asm)
next
  case app_stop
  then show ?thesis using newest_new_same [OF n] by (auto simp: stop_def frame_simps split: if_split_asm)
next
  case (app_add m)
  then show ?thesis using newest_new_same [OF n] by (simp add: add_middleware_def)
next
  case (accepted a aa)
  then show ?thesis using newest_new_same [OF n] by simp
next
  case (handler h q)
  let ?v = "v\<lparr>wb_queue := q\<rparr>"
  have n': "newest_new ?v" by (rule newest_new_same [OF n]) simp
  have ce: "\<not> ec_true (wb_close_error ?v)" using inv by (simp add: server_inv_def)
  consider "run_handler h ?v = Inr v'" | "v' = ?v\<lparr>wb_running := False\<rparr>"
    using handler(1) by (auto simp: after_handler_def split: sum.split_asm if_split_asm)
  then show ?thesis
  proof cases
    case 1
    from newest_new_handler [OF ce n' 1] show ?thesis .
  next
    case 2
    then show ?thesis using newest_new_same [OF n] by simp
  qed
next
  case (session a c)
  show ?thesis
  proof (cases c)
    case (Live h s)
    have "s = wb_objects v ! a" if "is_new a v"
      using that session(4) Live new_session_step unfolding is_new_def by (metis conf.inject(1))
    moreover have "newest_new (v\<lparr>wb_store := h\<rparr>)" by (rule newest_new_same [OF n]) simp
    ultimately have "newest_new (update_session a s (v\<lparr>wb_store := h\<rparr>))"
      using newest_new_update [of "v\<lparr>wb_store := h\<rparr>" a s] by (simp add: is_new_def)
    with session(1) Live show ?thesis by simp
  next
    case (Ended e)
    then show ?thesis using session(1) newest_new_same [OF n] by (auto simp: after_handler_def split: if_split_asm)
  next
    case Undefined
    with session(1) show ?thesis by simp
  qed
qed

lemma newest_reachable: "server_reachable ord c \<Longrightarrow> \<forall>v. c = Up v \<longrightarrow> newest_new v"
proof (induction rule: server_reachable.induct)
  case (init close_error host port h option)
  then show ?case by (simp add: newest_new_def new_server_def)
next
  case (step c c')
  then show ?case using up_before newest_new_step server_reachable_inv by metis
qed

text \<open>So a server that has created a session is registered with it.\<close>

lemma server_holds_itself:
  assumes "server_reachable ord (Up v)" "wb_objects v \<noteq> []" "length (wb_objects v) < 2 ^ 64"
  shows "wb_sessions v (wb_last_session_id v) = Some (length (wb_objects v) - 1)" "server_held v"
proof -
  let ?a = "length (wb_objects v) - 1"
  have a: "?a < length (wb_objects v)" "Suc ?a = length (wb_objects v)" using assms(2) by auto
  have inv: "server_inv ord v" and n: "is_new ?a v"
    using server_reachable_inv [OF assms(1)] newest_reachable [OF assms(1)] assms(2) by (auto simp: newest_new_def)
  have reg: "registry_inv v" and id: "ws_session_id (wb_objects v ! ?a) = wb_last_session_id v"
    using inv assms(3) a unfolding server_inv_def by (metis, metis)
  have "\<not> unregistered (wb_objects v ! ?a)" using n by (auto simp: is_new_def unregistered_def new_session_def)
  with reg id a show s: "wb_sessions v (wb_last_session_id v) = Some ?a" unfolding registry_inv_def by blast
  have "session_held v ?a" using s id by (simp add: session_held_def)
  with a show "server_held v" unfolding server_held_def list_ex_iff by (metis atLeastLessThan_iff le0 set_upt)
qed

subsection \<open>The end of the object\<close>

text \<open>With assertions the destructor starts only when no client could ever be accepted.\<close>

definition gone_inv :: "'x process \<Rightarrow> bool" where
  "gone_inv p \<longleftrightarrow> owned p \<or> ((wb_objects (pr_server p) = [] \<or> 2 ^ 64 \<le> length (wb_objects (pr_server p)))
     \<and> (pr_app p = App_done \<longrightarrow> pr_worker p \<noteq> Wk_running))"

lemma gone_inv_enter:
  assumes "process_step True ord (Alive p) (Alive p')" "owned p" "process_inv p" "server_reachable ord (Up (pr_server p))"
  shows "gone_inv p'"
proof (cases "owned p'")
  case False
  from assms(1) have "p' = destroy_process p \<and> \<not> server_held (pr_server p)"
  proof (cases rule: process_step.cases)
    case (p_handler h q)
    with False assms(2) show ?thesis
      by (auto simp: run_process_handler_def Let_def owned_def dest: handler_result_Alive [THEN iffD1, OF sym])
  next
    case (p_session a c)
    with False assms(2) show ?thesis by (auto simp: owned_def dest: session_result_Alive [THEN iffD1, OF sym])
  qed (use False assms(2) in \<open>auto simp: owned_def start_process_def stop_process_def split: sum.split_asm if_split_asm\<close>)
  then have d: "p' = destroy_process p" "\<not> server_held (pr_server p)" by blast+
  then have "wb_objects (pr_server p) = [] \<or> 2 ^ 64 \<le> length (wb_objects (pr_server p))"
    using server_holds_itself(2) [OF assms(4)] not_le by blast
  moreover have "pr_server p' = pr_server p" "pr_app p' = App_done \<longrightarrow> pr_worker p' \<noteq> Wk_running"
    using d(1) assms(2,3) by (auto simp: destroy_process_def owned_def process_inv_def)
  ultimately show ?thesis unfolding gone_inv_def by metis
qed (simp add: gone_inv_def)

lemma gone_inv_stay:
  assumes "process_step True ord (Alive p) (Alive p')" "\<not> owned p" "gone_inv p"
  shows "gone_inv p'"
  using assms(1)
proof (cases rule: process_step.cases)
  case (p_handler h q)
  let ?v = "(pr_server p)\<lparr>wb_queue := q\<rparr>"
  have a: "pr_app p = App_in_destructor" using assms(2,3) p_handler(2) by (auto simp: owned_def gone_inv_def)
  then have m: "\<not> md_shared (mode_of True p)" by (simp add: mode_of_def)
  have o: "wb_objects (pr_server p) = [] \<or> 2 ^ 64 \<le> length (wb_objects (pr_server p))"
    using assms(2,3) by (simp add: gone_inv_def)
  from p_handler(1) consider v' where "run_handler_in (mode_of True p) h ?v = Inr v'"
      "p' = p\<lparr>pr_listening := pr_listening p \<or> opens h, pr_server := v'\<rparr>"
    | e where "p' = p\<lparr>pr_listening := pr_listening p \<or> opens h, pr_server := ?v\<lparr>wb_running := False\<rparr>, pr_worker := Wk_threw e\<rparr>"
    unfolding run_process_handler_def Let_def using handler_result_Alive by metis
  then show ?thesis
  proof cases
    case 1
    from run_handler_frame(3) [OF 1(1) m] have "length (wb_objects v') = length (wb_objects (pr_server p))" by simp
    with o 1(2) a show ?thesis by (auto simp: gone_inv_def)
  next
    case 2
    with o a show ?thesis by (simp add: gone_inv_def)
  qed
next
  case (p_session a c)
  then show ?thesis using assms(2,3)
    by (auto simp: gone_inv_def frame_simps dest!: session_result_Alive [THEN iffD1, OF sym])
qed (use assms(2,3) in \<open>auto simp: owned_def gone_inv_def join_returns_def\<close>)

lemma gone_reachable: "process_reachable True ord c \<Longrightarrow> \<forall>p. c = Alive p \<longrightarrow> gone_inv p"
proof (induction rule: process_reachable.induct)
  case (init close_error host port h option)
  then show ?case by (simp add: gone_inv_def owned_def new_process_def)
next
  case (step c c')
  show ?case
  proof (intro allI impI)
    fix p' assume p': "c' = Alive p'"
    with step.hyps(2) alive_before obtain p where p: "c = Alive p" by blast
    have st: "process_step True ord (Alive p) (Alive p')" using step.hyps(2) p p' by simp
    have r: "process_inv p \<and> (owned p \<longrightarrow> server_reachable ord (Up (pr_server p)))"
      using process_reachable_inv [OF step.hyps(1)] p by blast
    show "gone_inv p'"
    proof (cases "owned p")
      case True
      with gone_inv_enter [OF st] r show ?thesis by blast
    next
      case False
      with gone_inv_stay [OF st] step.IH p show ?thesis by blast
    qed
  qed
qed

subsection \<open>Waiting for the thread\<close>

text \<open>While the application waits in \<open>stop\<close>, only an exception in a handler ends the thread.\<close>

definition waiting_in_stop :: "'x process \<Rightarrow> bool" where
  "waiting_in_stop p \<longleftrightarrow> pr_app p = App_in_stop \<and> pr_worker p = Wk_running \<and> \<not> pr_stopped p"

lemma waiting_step:
  assumes "process_step asserts ord (Alive p) (Alive p')" "waiting_in_stop p"
  shows "waiting_in_stop p' \<or> (\<exists>e. pr_worker p' = Wk_threw e)"
  using assms(1)
proof (cases rule: process_step.cases)
  case (p_handler h q)
  then show ?thesis using assms(2)
    by (auto simp: run_process_handler_def Let_def waiting_in_stop_def dest: handler_result_Alive [THEN iffD1, OF sym])
next
  case (p_session a c)
  then show ?thesis using assms(2)
    by (auto simp: waiting_in_stop_def dest: session_result_Alive [THEN iffD1, OF sym])
qed (use assms(2) in \<open>simp_all add: waiting_in_stop_def join_returns_def\<close>)

lemma waiting_steps:
  assumes "(process_step asserts ord)\<^sup>*\<^sup>* (Alive p) c" "waiting_in_stop p"
  shows "\<forall>p'. c = Alive p' \<longrightarrow> waiting_in_stop p' \<or> (\<exists>q e. (process_step asserts ord)\<^sup>*\<^sup>* (Alive p) (Alive q)
    \<and> pr_worker q = Wk_threw e \<and> (process_step asserts ord)\<^sup>*\<^sup>* (Alive q) (Alive p'))"
  using assms(1)
proof (induction rule: rtranclp_induct)
  case base
  then show ?case using assms(2) by simp
next
  case (step c c')
  show ?case
  proof (intro allI impI)
    fix p' assume p': "c' = Alive p'"
    with step.hyps(2) alive_before obtain q where q: "c = Alive q" by blast
    have st: "process_step asserts ord (Alive q) (Alive p')" using step.hyps(2) q p' by simp
    show "waiting_in_stop p' \<or> (\<exists>q e. (process_step asserts ord)\<^sup>*\<^sup>* (Alive p) (Alive q)
      \<and> pr_worker q = Wk_threw e \<and> (process_step asserts ord)\<^sup>*\<^sup>* (Alive q) (Alive p'))"
    proof (cases "waiting_in_stop q")
      case True
      have "(process_step asserts ord)\<^sup>*\<^sup>* (Alive p) (Alive p')"
        using step.hyps(1) st q by (metis rtranclp.rtrancl_into_rtrancl)
      with waiting_step [OF st True] show ?thesis by blast
    next
      case False
      with step.IH q st show ?thesis by (metis rtranclp.rtrancl_into_rtrancl)
    qed
  qed
qed

end
