(* ===== verification/Process_Theorems.thy ===== *)
theory Process_Theorems
  imports Server_Process Server_Theorems
begin

text \<open>
  The properties of a server's life: what \<open>start\<close>, \<open>stop\<close> and the destructor do in builds with and
  without assertions, and that the two threads together refine the server of \<open>Server\<close>.
\<close>

text \<open>
  C6. With assertions, the two threads refine the server: in every state the process can reach while
  something owns the server object, its members are a state that the steps of the server alone can
  reach, so every property of the reachable states of the server holds; the io thread runs as
  long as nothing threw, and the application never waits in \<open>stop\<close>.
\<close>

theorem process_refines_server:
  assumes "process_reachable True ord (Alive p)" "owned p"
  shows "server_reachable ord (Up (pr_server p)) \<and> pr_app p \<noteq> App_in_stop
    \<and> (pr_worker p = Wk_running \<longleftrightarrow> wb_running (pr_server p))
    \<and> (pr_worker p \<noteq> Wk_none \<longleftrightarrow> is_started (pr_server p)) \<and> pr_worker p \<noteq> Wk_returned"
  using process_reachable_inv [OF assms(1)] assms(2) by (auto simp: process_inv_def is_started_def)

text \<open>A process whose server waits for its first client, and one that listens.\<close>

definition demo_idle :: "nat process" where
  "demo_idle = (new_process ((new_server ''h'' 80 (\<lambda>_. demo_route) 100 no_error)\<lparr>wb_started := True,
     wb_running := True, wb_queue := [H_start all_ok]\<rparr>))\<lparr>pr_worker := Wk_running, pr_joinable := True\<rparr>"

definition demo_listening :: "nat process" where
  "demo_listening = demo_idle\<lparr>pr_server := demo_server\<lparr>wb_queue := [], wb_accepting := Some 0\<rparr>, pr_listening := True\<rparr>"

lemma demo_idle_reachable: "process_reachable True ord (Alive demo_idle)"
proof -
  let ?p = "new_process (new_server ''h'' 80 (\<lambda>_. demo_route) 100 no_error) :: nat process"
  have r: "process_reachable True ord (Alive ?p)" by (rule process_reachable.init) simp
  have "start_process True all_ok ?p = Alive demo_idle"
    by (simp add: start_process_def start_in_def mode_of_def new_process_def new_server_def demo_idle_def)
  with process_reachable.step [OF r process_step.p_start [of ?p True ord all_ok]] show ?thesis
    by (simp add: new_process_def)
qed

lemma demo_listening_reachable: "process_reachable True ord (Alive demo_listening)"
proof -
  have "run_process_handler True (H_start all_ok) [] demo_idle = Alive demo_listening"
    by (simp add: run_process_handler_def handler_result_def demo_idle_def demo_listening_def new_process_def mode_of_def
        start_handler_in_def all_ok_def accept_in_def accept_handler_def create_session_def register_session_def
        Let_def new_server_def new_session_def demo_server_def opens_def)
  moreover have "process_step True ord (Alive demo_idle) (run_process_handler True (H_start all_ok) [] demo_idle)"
    by (rule process_step.p_handler) (simp_all add: demo_idle_def new_process_def answers_possible_def)
  ultimately show ?thesis using process_reachable.step [OF demo_idle_reachable] by metis
qed

theorem process_refines_server_witness:
  "server_reachable rev (Up (pr_server demo_listening)) \<and> pr_worker demo_listening \<noteq> Wk_returned"
  using process_refines_server [OF demo_listening_reachable, of rev]
  by (simp add: owned_def demo_listening_def demo_idle_def new_process_def)

text \<open>
  C14. With assertions, and while fewer than \<open>2 ^ 64\<close> sessions were created, a server that has created
  its first session (it does when it starts to listen) can never be destroyed: the newest session is always registered and holds a shared pointer
  to the server, so the destructor does not run after the application has dropped its own
  pointer, and the process is not ended by one that joins its own thread.
\<close>

theorem server_outlives_application:
  assumes "process_reachable True ord (Alive p)" "wb_objects (pr_server p) \<noteq> []" "length (wb_objects (pr_server p)) < 2 ^ 64"
  shows "wb_sessions (pr_server p) (wb_last_session_id (pr_server p)) = Some (length (wb_objects (pr_server p)) - 1)
    \<and> server_held (pr_server p) \<and> owned p \<and> \<not> process_step True ord (Alive p) Terminated"
proof -
  have o: "owned p" using gone_reachable [OF assms(1)] assms(2,3) by (auto simp: gone_inv_def)
  have i: "process_inv p" and r: "server_reachable ord (Up (pr_server p))"
    using process_reachable_inv [OF assms(1)] o by auto
  note h = server_holds_itself [OF r assms(2,3)]
  have "\<not> process_step True ord (Alive p) Terminated"
  proof
    assume "process_step True ord (Alive p) Terminated"
    then show False
    proof (cases rule: process_step.cases)
      case (p_start la)
      then show False using i
        by (auto simp: start_process_def start_in_def mode_of_def process_inv_def split: sum.split_asm if_split_asm)
    next
      case p_self_destroy
      with h(2) show False by simp
    next
      case (p_session a c)
      then show False by (cases c) (auto simp: handler_result_def split: if_split_asm)
    qed (auto simp: stop_process_def run_process_handler_def handler_result_def Let_def split: sum.split_asm if_split_asm)
  qed
  with o h show ?thesis by blast
qed

theorem server_outlives_application_witness:
  "server_held (pr_server demo_listening) \<and> \<not> process_step True rev (Alive demo_listening) Terminated"
  using server_outlives_application [OF demo_listening_reachable, of rev]
  by (simp add: demo_listening_def demo_server_def)

text \<open>A connected session is registered, and nothing but the registry and the handlers in the queue hold it.\<close>

lemma connected_holders:
  assumes "server_inv ord v" "a < length (wb_objects v)" "ws_connected (wb_objects v ! a)" "length (wb_objects v) < 2 ^ 64"
  shows "wb_sessions v (ws_session_id (wb_objects v ! a)) = Some a" "wb_accepting v \<noteq> Some a"
    "session_inv ord (wb_objects v ! a)" "ws_read (wb_objects v ! a) \<noteq> None" "ws_write (wb_objects v ! a) = W_idle"
proof -
  have nc: "\<not> ws_connected (new_session i opt ce)" for i opt ce by (simp add: new_session_def)
  have "object_inv ord (wb_objects v ! a)" using assms(1,2) by (simp add: server_inv_def)
  then show s: "session_inv ord (wb_objects v ! a)" using assms(3) nc by (metis object_inv_def)
  then show r: "ws_read (wb_objects v ! a) \<noteq> None" "ws_write (wb_objects v ! a) = W_idle"
    using assms(3) by (auto simp: session_inv_def fresh_send_def)
  show "wb_accepting v \<noteq> Some a"
    using assms(1,3) nc by (metis server_inv_def is_new_def)
  have "filter (\<lambda>e. \<exists>i. e = Ef_unregister i) (ws_effects (wb_objects v ! a)) = []"
    using s assms(3) by (simp add: session_inv_def)
  then have "\<not> unregistered (wb_objects v ! a)" by (auto simp: unregistered_def filter_empty_conv)
  then show "wb_sessions v (ws_session_id (wb_objects v ! a)) = Some a"
    using assms(1,2,4) by (simp add: server_inv_def registry_inv_def)
qed

text \<open>
  C37. The end of a session's life: when the expiry handler runs for a connected session, and no
  other handler for that session waits, the session has exactly one more owner, the registry, and
  the handler drops it: afterwards nothing holds the session, so it is destroyed as the handler
  returns, while its read is still in progress.  The handler of the read captured the bare
  \<open>this\<close> and runs next with an error, on freed memory.
\<close>

theorem expired_session_is_freed:
  assumes "server_reachable ord (Up v)" "wb_running v" "wb_queue v = H_expire a ec # q"
    and "ws_connected (wb_objects v ! a)" "\<not> list_ex (handler_holds a) q" "length (wb_objects v) < 2 ^ 64"
  shows "session_held (v\<lparr>wb_queue := q\<rparr>) a
    \<and> (\<exists>v'. server_step ord (Up v) (Up v') \<and> \<not> session_held v' a
        \<and> ws_read (wb_objects v' ! a) \<noteq> None \<and> ws_read (wb_objects v' ! a) = ws_read (wb_objects v ! a))"
proof -
  let ?s = "wb_objects v ! a" and ?v = "v\<lparr>wb_queue := q\<rparr>"
  let ?v' = "expire_session a ec ?v"
  have inv: "server_inv ord v" using server_reachable_inv [OF assms(1)] by simp
  have a: "a < length (wb_objects v)" using inv assms(3) by (simp add: server_inv_def handler_ok_def)
  note c = connected_holders [OF inv a assms(4,6)]
  have st: "server_step ord (Up v) (Up ?v')"
    using server_step.handler [OF assms(2,3), of ord] by (simp add: after_handler_def)
  have o: "wb_objects ?v' ! a = fst (disconnect ?s)" "length (wb_objects ?v') = length (wb_objects v)"
    "wb_accepting ?v' = wb_accepting v" "wb_queue ?v' = q"
    using a assms(4) by (simp_all add: expire_session_def frame_simps expire_handler_def)
  have d: "unregistered (fst (disconnect ?s))" "ws_read (fst (disconnect ?s)) = ws_read ?s"
    "ws_write (fst (disconnect ?s)) = ws_write ?s"
    using c(3) assms(4) by (auto simp: session_inv_def unregistered_def disconnect_defs Let_def)
  have "server_inv ord ?v'" using server_reachable_inv [OF server_reachable.step [OF assms(1) st]] by simp
  then have "registry_inv ?v'" using o(2) assms(6) by (simp add: server_inv_def)
  with o(1) d(1) have "wb_sessions ?v' k \<noteq> Some a" for k by (auto simp: registry_inv_def)
  then have "\<not> session_held ?v' a" using o c(2,5) d(3) assms(5) by (simp add: session_held_def)
  moreover have "session_held ?v a" using c(1) by (simp add: session_held_def)
  ultimately show ?thesis using st o(1) d(2) c(4) by metis
qed

theorem expired_session_is_freed_witness:
  "\<exists>v'. server_step rev (Up demo_connected) (Up v') \<and> \<not> session_held v' 0 \<and> ws_read (wb_objects v' ! 0) \<noteq> None"
  using expired_session_is_freed [of rev demo_connected 0 operation_aborted "[]"] demo_connected_reachable demo_connected_parts
  by auto

text \<open>
  C18. \<open>stop\<close> never works on a started server.  With assertions it aborts the process.  Without them it
  waits for the io thread, whose \<open>run\<close> does not return because of the work object and because nothing
  stops the io_context: on every run on which the application gets out of \<open>stop\<close>, an exception of a
  handler had ended the io thread.
\<close>

theorem stop_never_returns:
  assumes "is_started (pr_server p)" "pr_app p = App_using" "pr_joinable p" "pr_worker p = Wk_running" "\<not> pr_stopped p"
  shows "stop_process True p = Died Assertion_failed
    \<and> (\<exists>p1. stop_process False p = Alive p1 \<and> pr_app p1 = App_in_stop
      \<and> (\<forall>p'. (process_step False ord)\<^sup>*\<^sup>* (Alive p1) (Alive p') \<longrightarrow> pr_app p' = App_in_stop
          \<or> (\<exists>q e. (process_step False ord)\<^sup>*\<^sup>* (Alive p1) (Alive q) \<and> pr_worker q = Wk_threw e
               \<and> (process_step False ord)\<^sup>*\<^sup>* (Alive q) (Alive p'))))"
proof -
  let ?p1 = "p\<lparr>pr_server := (pr_server p)\<lparr>wb_started := False\<rparr>, pr_app := App_in_stop\<rparr>"
  have "stop_process True p = Died Assertion_failed"
    using assms(1) by (simp add: stop_process_def stop_in_def mode_of_def is_started_def)
  moreover
  have "stop_process False p = Alive ?p1"
    using assms(1,3) by (simp add: stop_process_def stop_in_def mode_of_def is_started_def)
  moreover have "waiting_in_stop ?p1" using assms(4,5) by (simp add: waiting_in_stop_def)
  ultimately show ?thesis
    using waiting_steps [of False ord ?p1] by (auto simp: waiting_in_stop_def)
qed

theorem stop_never_returns_witness:
  "stop_process True demo_listening = Died Assertion_failed
    \<and> (\<exists>p1. stop_process False demo_listening = Alive p1 \<and> pr_app p1 = App_in_stop)"
  using stop_never_returns [of demo_listening rev]
  by (auto simp: demo_listening_def demo_idle_def new_process_def demo_server_def is_started_def)

text \<open>
  The errors of the life cycle.  A server that is started: with assertions starting or stopping it
  again ends the process; without them starting it again while its thread is joinable calls
  \<open>std::terminate\<close>.  A server that is not started: with assertions an accept ends the process;
  without them it is reported to the callback and nothing else changes, and so is \<open>stop\<close> in every
  build; but as every error gets the category of the server's errors, the text for stopping
  a server that is not started says that it is already started.
\<close>

lemma life_cycle_errors:
  "if is_started (pr_server p) then
     start_process True la p = Died Assertion_failed \<and> stop_process True p = Died Assertion_failed
     \<and> start_process False la (p\<lparr>pr_joinable := True\<rparr>) = Terminated
   else
     accept_in \<lparr>md_asserts = True, md_shared = b\<rparr> (pr_server p) = Inl Assertion_failed
     \<and> (\<exists>ec. accept_in \<lparr>md_asserts = False, md_shared = b\<rparr> (pr_server p) = Inr ((pr_server p)\<lparr>wb_errors := wb_errors (pr_server p) @ [ec]\<rparr>)
          \<and> ec_message ec = Some ''Server is not started'')
     \<and> (\<exists>ec. stop_process asserts p = Alive (p\<lparr>pr_server := (pr_server p)\<lparr>wb_errors := wb_errors (pr_server p) @ [ec]\<rparr>\<rparr>)
          \<and> ec_message ec = Some ''Server is already started'')"
proof -
  have m: "ec_message (make_error (server_error_value se_server_not_started)) = Some ''Server is not started''"
    "ec_message (make_error (service_error_value sv_service_not_started)) = Some ''Server is already started''"
    by (simp_all add: ec_message_def make_error_def server_message_def)
  show ?thesis
  proof (cases "is_started (pr_server p)")
    case True
    then show ?thesis
      by (simp add: is_started_def start_process_def stop_process_def start_in_def stop_in_def mode_of_def)
  next
    case False
    with m show ?thesis
      by (auto simp: is_started_def stop_process_def stop_in_def accept_in_def mode_of_def server_error_cb_def)
  qed
qed

text \<open>
  The destructor comes to an end only on a server that never had a session, and then its thread was
  never created or was ended by an exception: \<open>shared_from_this\<close> throws when the start handler of
  a server that was dropped before it ran wants to accept.
\<close>

lemma destroyed_without_clients:
  assumes "process_reachable True ord (Alive p)" "pr_app p = App_done" "length (wb_objects (pr_server p)) < 2 ^ 64"
  shows "wb_objects (pr_server p) = [] \<and> (pr_worker p = Wk_none \<or> (\<exists>e. pr_worker p = Wk_threw e))"
proof -
  have "gone_inv p" "process_inv p" using gone_reachable [OF assms(1)] process_reachable_inv [OF assms(1)] by auto
  with assms(2,3) show ?thesis by (cases "pr_worker p") (auto simp: gone_inv_def owned_def process_inv_def)
qed

lemma dropped_start_throws:
  "\<exists>p :: nat process. process_reachable True rev (Alive p) \<and> pr_app p = App_done \<and> pr_worker p = Wk_threw Bad_weak_ptr"
proof -
  let ?d = "demo_idle\<lparr>pr_app := App_in_destructor\<rparr>"
  let ?t = "?d\<lparr>pr_listening := True, pr_server := (pr_server ?d)\<lparr>wb_queue := [], wb_running := False\<rparr>, pr_worker := Wk_threw Bad_weak_ptr\<rparr>"
  have "process_step True rev (Alive demo_idle) (Alive (destroy_process demo_idle))"
    by (rule process_step.p_destroy) (simp_all add: demo_idle_def new_process_def new_server_def server_held_def)
  moreover have "destroy_process demo_idle = ?d"
    by (simp add: destroy_process_def demo_idle_def)
  ultimately have d: "process_reachable True rev (Alive ?d)"
    using process_reachable.step [OF demo_idle_reachable] by metis
  have "process_step True rev (Alive ?d) (run_process_handler True (H_start all_ok) [] ?d)"
    by (rule process_step.p_handler) (simp_all add: demo_idle_def new_process_def answers_possible_def)
  moreover have "run_process_handler True (H_start all_ok) [] ?d = Alive ?t"
    by (simp add: run_process_handler_def handler_result_def demo_idle_def new_process_def mode_of_def
        start_handler_in_def all_ok_def accept_in_def opens_def is_std_exn_def Let_def)
  ultimately have t: "process_reachable True rev (Alive ?t)" using process_reachable.step [OF d] by metis
  have "process_step True rev (Alive ?t) (Alive (?t\<lparr>pr_joinable := False, pr_app := App_done\<rparr>))"
    by (rule process_step.p_destructor_joined) (simp_all add: join_returns_def)
  from process_reachable.step [OF t this] show ?thesis
    by (intro exI [of _ "?t\<lparr>pr_joinable := False, pr_app := App_done\<rparr>"]) simp
qed

end
