(* ===== verification/Simple_Api.thy ===== *)
theory Simple_Api
  imports Server_Inv
begin

text \<open>
  The example program \<open>src/examples/simple_api/simple_api.cpp\<close>: one route, the CORS and the routing
  middleware, and the server.  The route lives at address 0 of the store.  The two waiting loops of
  \<open>main\<close> and the message for an exception are not modelled.
\<close>

definition home :: "'x route_callback" where
  "home request response parameters context = (set_body ''Hello world'' (set_status st_ok response), None)"

definition simple_api_main :: "nat \<Rightarrow> error_code \<Rightarrow> listen_answers \<Rightarrow> cpp_exn + 'x server" where
  "simple_api_main option close_error la =
     (case make_route m_get ''/'' (Some home) of
        Inl e \<Rightarrow> Inl e
      | Inr r \<Rightarrow>
          (let http = new_server ''127.0.0.1'' 8080 (\<lambda>_. r) option close_error;
               router_middleware = add_router 0 [];
               http = add_middleware Mw_cors http;
               http = add_middleware (Mw_routing router_middleware) http
           in start la http))"

subsection \<open>The chain\<close>

definition home_route :: "'x route" where
  "home_route = \<lparr>ro_path = ''/'', ro_uri_target = ''/'', ro_method = m_get, ro_params = [],
     ro_callback = Some home, ro_context = []\<rparr>"

lemma make_home_route: "make_route m_get ''/'' (Some home) = Inr home_route"
proof -
  have "find_bind ''/'' 1 = None" by code_simp
  then show ?thesis by (simp add: make_route_def parse_route_def home_route_def starts_with_def)
qed

lemma home_match: "is_match_with_target_request t m home_route = (home_route, Inr (m = m_get \<and> t = ''/''))"
  by (auto simp: is_match_with_target_request_def home_route_def starts_with_def split: option.split)

text \<open>
  The routing middleware with the route of \<open>home\<close> first, and any other routes \<open>ks\<close> behind it (this
  program has none): it keeps that route, and answers a GET of \<open>/\<close> with it.
\<close>

lemma routing_loop_keeps:
  "k \<notin> set ks \<Longrightarrow> fst (routing_loop ks h req resp) k = h k"
proof (induction ks arbitrary: h)
  case Nil
  then show ?case by simp
next
  case (Cons i ks)
  then have "k \<noteq> i" "k \<notin> set ks" by auto
  with Cons.IH show ?case by (auto split: prod.split sum.split option.split)
qed

lemma home_routing_keeps:
  assumes "h 0 = home_route" "0 \<notin> set ks"
  shows "fst (routing_execute (0 # ks) h req resp) 0 = home_route \<and> snd (snd (routing_execute (0 # ks) h req resp)) \<noteq> Inr True"
proof -
  have upd: "h(0 := home_route) = h" using assms(1) by auto
  have "fst (routing_loop (0 # ks) h req resp) 0 = home_route"
    using routing_loop_keeps [OF assms(2), of h req resp] assms(1)
    by (simp add: home_match upd call_route_def split: option.split prod.split)
  then show ?thesis by (auto simp: routing_execute_def split: prod.split sum.split)
qed

lemma home_routing:
  assumes "h 0 = home_route" "ks = [] \<or> rq_method req = m_get \<and> rq_target req = ''/''"
  shows "routing_execute (0 # ks) h req resp =
    (h, if rq_method req = m_get \<and> rq_target req = ''/'' then set_body ''Hello world'' (set_status st_ok resp)
       else set_status st_not_found resp, Inr False)"
proof -
  have upd: "h(0 := home_route) = h" using assms(1) by auto
  have c: "ro_callback home_route = Some home" by (simp add: home_route_def)
  show ?thesis using assms(2)
    by (auto simp: routing_execute_def home_match assms(1) upd call_route_def c home_def)
qed

text \<open>
  The chain keeps the first route, whatever is added behind it: the routing middleware ends it.
  Without the header \<open>Origin\<close> the CORS middleware leaves the response alone.
\<close>

lemma home_chain:
  assumes "h 0 = home_route" "0 \<notin> set ks"
  shows "fst (run_middlewares (Mw_cors # Mw_routing (0 # ks) # rest) h req resp) 0 = home_route"
proof -
  obtain resp1 b where c: "cors_execute req resp = (resp1, b)" by fastforce
  from home_routing_keeps [where h = h, OF assms, of req resp1] show ?thesis
    using assms(1) by (auto simp: c simp del: routing_loop.simps split: prod.split sum.split)
qed

lemma home_chain_plain:
  assumes "h 0 = home_route" "ks = [] \<or> rq_method req = m_get \<and> rq_target req = ''/''"
    and "um_find (rq_headers req) ''origin'' = None"
  shows "run_middlewares (Mw_cors # Mw_routing (0 # ks) # rest) h req resp =
      (h, if rq_method req = m_get \<and> rq_target req = ''/'' then set_body ''Hello world'' (set_status st_ok resp)
         else set_status st_not_found resp, Inr ())"
  using assms(3) home_routing [where h = h, OF assms(1,2)] by (simp add: cors_execute_def)

subsection \<open>The store of a server whose chain keeps a part of it\<close>

lemma on_receive_store:
  assumes "\<And>req. Q (fst (run_middlewares ms h req new_response))" "Q h"
    and "on_receive ms ord sz h s = Some (h', s', r)"
  shows "Q h'"
proof -
  have "Q h''" if "run_middlewares ms h req new_response = (h'', x)" for h'' req x
    using assms(1) [of req] that by simp
  with assms(2,3) show ?thesis
    by (auto simp: on_receive_def Let_def split: option.splits sum.splits prod.splits if_splits)
qed

lemma receive_handler_store:
  assumes "\<And>req. Q (fst (run_middlewares ms h req new_response))" "Q h"
    and "async_receive_handler ms ord ec sz h s = Some (h', s', r)"
  shows "Q h'"
  using assms(2,3) on_receive_store [of Q, OF assms(1,2)]
  by (auto simp: async_receive_handler_def Let_def split: option.splits sum.splits prod.splits if_splits)

lemma session_step_store:
  assumes "\<And>req. Q (fst (run_middlewares ms h req new_response))" "Q h"
    and "session_step ms ord (Live h s) (Live h' s')"
  shows "Q h'"
  using assms(3)
proof (elim session_step_Live)
  fix cap data
  assume "Live h' s' = conf_of (async_receive_handler ms ord no_error (length data) h (fill_buffer data s))"
  from receive_handler_store [of Q, OF assms(1,2) conf_of_Live [OF this [symmetric]]] show "Q h'" .
next
  fix cap ec
  assume "Live h' s' = conf_of (async_receive_handler ms ord ec 0 h s)"
  from receive_handler_store [of Q, OF assms(1,2) conf_of_Live [OF this [symmetric]]] show "Q h'" .
qed (use assms(2) in auto)

definition home_server :: "nat list \<Rightarrow> 'x server \<Rightarrow> bool" where
  "home_server ks v \<longleftrightarrow> wb_store v 0 = home_route \<and> 0 \<notin> set ks
     \<and> (\<exists>rest. wb_middlewares v = Mw_cors # Mw_routing (0 # ks) # rest)"

lemma main_home_server:
  assumes "simple_api_main option close_error la = Inr v"
  shows "home_server [] v \<and> wb_started v \<and> wb_running v \<and> wb_host v = ''127.0.0.1'' \<and> wb_port v = 8080"
  using assms
  by (auto simp: simple_api_main_def make_home_route start_def add_middleware_def new_server_def home_server_def add_router_def)

lemma home_keeps_store:
  assumes v: "home_server ks v"
    and step: "session_step (wb_middlewares v) ord (Live (wb_store v) s) (Live h' s')"
  shows "h' 0 = home_route"
proof -
  from v obtain rest where r: "wb_store v 0 = home_route" "0 \<notin> set ks" "wb_middlewares v = Mw_cors # Mw_routing (0 # ks) # rest"
    by (auto simp: home_server_def)
  have "fst (run_middlewares (wb_middlewares v) (wb_store v) req new_response) 0 = home_route" for req
    unfolding r(3) by (rule home_chain [where h = "wb_store v", OF r(1,2)])
  from session_step_store [of "\<lambda>h. h 0 = home_route", OF this r(1) step] show ?thesis .
qed

lemma home_server_frame [simp]:
  "home_server ks (update_session a s v) \<longleftrightarrow> home_server ks v"
  "home_server ks (server_error_cb ec v) \<longleftrightarrow> home_server ks v"
  "home_server ks (v\<lparr>wb_queue := q\<rparr>) \<longleftrightarrow> home_server ks v"
  "home_server ks (v\<lparr>wb_running := b\<rparr>) \<longleftrightarrow> home_server ks v"
  "home_server ks (v\<lparr>wb_started := b\<rparr>) \<longleftrightarrow> home_server ks v"
  "home_server ks (v\<lparr>wb_accepting := acc\<rparr>) \<longleftrightarrow> home_server ks v"
  by (simp_all add: home_server_def update_session_def fold_apply_effect server_error_cb_def)

lemma home_server_accept:
  assumes "home_server ks v" "accept v = Inr v'"
  shows "home_server ks v'"
proof -
  have "wb_store (accept_handler v) = wb_store v" "wb_middlewares (accept_handler v) = wb_middlewares v"
    by (simp_all add: accept_handler_def create_session_def register_session_def Let_def server_error_cb_def)
  with assms show ?thesis by (auto simp: accept_def home_server_def split: if_splits)
qed

lemma home_server_handler:
  assumes "home_server ks v" "run_handler hdl v = Inr v'"
  shows "home_server ks v'"
proof (cases hdl)
  case (H_start la)
  with assms home_server_accept show ?thesis
    by (auto simp: start_handler_def home_server_frame split: if_splits)
next
  case (H_accept a aa)
  with assms show ?thesis
    by (auto simp: async_accept_handler_def Let_def split: if_splits intro: home_server_accept [rotated])
next
  case (H_expire a ec)
  with assms show ?thesis by (auto simp: expire_session_def home_server_frame)
qed

lemma home_server_step:
  assumes "server_step ord (Up v) (Up v')" "home_server ks v"
  shows "home_server ks v'"
  using assms(1)
proof (cases rule: server_step.cases)
  case (handler hdl q)
  then show ?thesis using assms(2) home_server_handler [of ks "v\<lparr>wb_queue := q\<rparr>" hdl]
    by (auto simp: after_handler_def split: sum.splits if_splits)
next
  case (session a c)
  show ?thesis
  proof (cases c)
    case (Live h s)
    with session home_keeps_store [OF assms(2)] have "h 0 = home_route" by blast
    then have "home_server ks (v\<lparr>wb_store := h\<rparr>)" using assms(2) by (simp add: home_server_def)
    then show ?thesis using session Live by simp
  qed (use session assms(2) in \<open>auto simp: after_handler_def split: if_splits\<close>)
qed (use assms(2) in \<open>auto simp: start_def stop_def add_middleware_def home_server_def server_error_cb_def split: if_splits\<close>)

lemma home_server_steps:
  "(server_step ord)\<^sup>*\<^sup>* (Up v) c \<Longrightarrow> home_server ks v \<Longrightarrow> \<forall>v'. c = Up v' \<longrightarrow> home_server ks v'"
proof (induction rule: rtranclp_induct)
  case base
  then show ?case by simp
next
  case (step y z)
  then show ?case using up_before home_server_step by metis
qed

subsection \<open>The bytes\<close>

definition hello_bytes :: string where
  "hello_bytes = ''HTTP/1.1 200 OK'' @ crlf @ ''Content-Length: 11'' @ crlf @ crlf @ ''Hello world''"

definition not_found_bytes :: string where
  "not_found_bytes = ''HTTP/1.1 404 Not Found'' @ crlf @ crlf"

lemma order_small: "map_order ord \<Longrightarrow> ord [] = [] \<and> ord [h] = [h]"
proof -
  assume "map_order ord"
  then have o: "set (ord m) = set m" "length (ord m) = length m" for m by (simp_all add: map_order_def)
  have "\<exists>x. ord [h] = [x]" using o(2) [of "[h]"] by (auto simp: length_Suc_conv)
  with o(1) [of "[h]"] o(2) [of "[]"] show ?thesis by auto
qed

lemma home_bytes:
  assumes "map_order ord"
  shows "fst (build ord (set_body ''Hello world'' (set_status st_ok new_response))) = hello_bytes"
    "fst (build ord (set_status st_not_found new_response)) = not_found_bytes"
proof -
  have t: "to_string_nat 200 = ''200''" "to_string_nat 404 = ''404''" by code_simp+
  have n: "to_string_nat (length ''Hello world'') = ''11''" by code_simp
  note o = order_small [OF assms]
  show "fst (build ord (set_body ''Hello world'' (set_status st_ok new_response))) = hello_bytes"
    using n by (simp add: build_layout final_headers_def set_body_def set_status_def new_response_def um_insert_def um_find_def
        o t status_line_def header_line_def hello_bytes_def)
  show "fst (build ord (set_status st_not_found new_response)) = not_found_bytes"
    by (simp add: build_layout final_headers_def set_status_def new_response_def o t status_line_def not_found_bytes_def)
qed

end
