(* ===== verification/Request_At_Server.thy ===== *)
theory Request_At_Server
  imports Simple_Api Session_Theorems Server_Theorems
begin

text \<open>
  A request at the server: it arrives as the first data of a session, and the response of the
  middlewares is what the client gets.  Two uses: the server of the example programs, whose first
  route is \<open>home\<close>, and a server whose middlewares begin with an authorization.
\<close>

lemma served_with_store:
  assumes "run_middlewares (wb_middlewares v) (wb_store v) (rt_request r (crlf @ crlf @ body)) new_response = (h', resp, Inr ())"
    and "a < length (wb_objects v)" "started (wb_objects v ! a)"
    and "rt_wf r" "text_content (ct_of_headers (rt_table r))" "announced (rt_table r) = Some n" "n \<le> 0 \<or> body \<noteq> []"
    and "data = rt_head r @ crlf @ body" "length data \<le> ws_buffer_option (wb_objects v ! a)"
  shows "\<exists>v'. after_session a v (conf_of (async_receive_handler (wb_middlewares v) ord no_error (length data)
        (wb_store v) (fill_buffer data (wb_objects v ! a)))) = Up v'
    \<and> ws_write (wb_objects v' ! a) = W_pending (fst (build ord resp))
    \<and> \<not> ws_open (wb_objects v' ! a) \<and> wb_sessions v' (ws_session_id (wb_objects v ! a)) = None \<and> wb_store v' = h'"
proof -
  let ?s = "wb_objects v ! a"
  from serve_step [OF assms(3-9,1), of ord] obtain s' where
    s': "conf_of (async_receive_handler (wb_middlewares v) ord no_error (length data) (wb_store v) (fill_buffer data ?s)) = Live h' s'"
    "ws_write s' = W_pending (fst (build ord resp))" "\<not> ws_open s'" "ws_effects s' = [Ef_unregister (ws_session_id ?s)]"
    by blast
  have e: "ws_effects ?s = []" using assms(3) by (auto simp: started_def connect_def new_session_def try_receive_def)
  let ?v' = "update_session a s' (v\<lparr>wb_store := h'\<rparr>)"
  have "wb_objects ?v' ! a = s'" using assms(2) by (simp add: update_session_fields)
  moreover have "wb_sessions ?v' (ws_session_id ?s) = None"
    by (simp add: update_session_def s'(4) e unregister_session_def)
  moreover have "wb_store ?v' = h'" by (simp add: update_session_def s'(4) e unregister_session_def)
  ultimately show ?thesis using s'(1-3) by (intro exI [of _ ?v']) auto
qed

lemma served_at_server:
  assumes "run_middlewares (wb_middlewares v) (wb_store v) (rt_request r (crlf @ crlf @ body)) new_response = (h', resp, Inr ())"
    and "a < length (wb_objects v)" "started (wb_objects v ! a)"
    and "rt_wf r" "text_content (ct_of_headers (rt_table r))" "announced (rt_table r) = Some n" "n \<le> 0 \<or> body \<noteq> []"
    and "data = rt_head r @ crlf @ body" "length data \<le> ws_buffer_option (wb_objects v ! a)"
  shows "\<exists>v'. after_session a v (conf_of (async_receive_handler (wb_middlewares v) ord no_error (length data)
        (wb_store v) (fill_buffer data (wb_objects v ! a)))) = Up v'
    \<and> ws_write (wb_objects v' ! a) = W_pending (fst (build ord resp))
    \<and> \<not> ws_open (wb_objects v' ! a) \<and> wb_sessions v' (ws_session_id (wb_objects v ! a)) = None"
  using served_with_store [OF assms, of ord] by blast

text \<open>A request the parser rejects.\<close>

lemma reject_step:
  assumes "started s" "data \<noteq> []" "length data \<le> ws_buffer_option s"
    and "parse (data @ replicate (ws_buffer_option s - length data) nul) (length data) new_parser = Some (Inr (res, p, Some e))"
    and "e \<noteq> e_unknown"
  shows "\<exists>s'. conf_of (async_receive_handler ms ord no_error (length data) h (fill_buffer data s)) = Live h s'
    \<and> ws_write s' = W_idle \<and> ws_accepted s' = [] \<and> ws_wire s' = [] \<and> \<not> ws_connected s' \<and> \<not> ws_open s' \<and> ws_read s' = None
    \<and> ws_effects s' = [Ef_unregister (ws_session_id s)]"
proof -
  note f = fill_started [OF assms(1,3)]
  let ?s0 = "(fill_buffer data s)\<lparr>ws_read := None, ws_receiving := False, ws_bytes_received :=
    ws_bytes_received (fill_buffer data s) + word_of_nat (length data)\<rparr>"
  let ?s1 = "?s0\<lparr>ws_parser := p\<rparr>"
  let ?s2 = "fst (disconnect ?s1)"
  let ?s3 = "if length (ws_receive_buffer ?s2) \<le> length data
     then ?s2\<lparr>ws_receive_buffer := resize (2 * length data) (ws_receive_buffer ?s2)\<rparr> else ?s2"
  have "parse (ws_receive_buffer ?s0) (length data) (ws_parser ?s0) = Some (Inr (res, p, Some e))"
    using assms(4) by (simp add: f(1,2))
  then have "on_receive ms ord (length data) h ?s0 = Some (h, ?s2, Inr ())"
    using assms(5) by (simp add: on_receive_def Let_def)
  moreover have d: "\<not> ws_connected ?s2 \<and> \<not> ws_open ?s2 \<and> ws_read ?s2 = None \<and> ws_write ?s2 = W_idle \<and> ws_accepted ?s2 = []
      \<and> ws_wire ?s2 = [] \<and> ws_effects ?s2 = [Ef_unregister (ws_session_id s)]"
    using f(4-8) by (simp add: disconnect_defs fresh_send_def Let_def) (simp add: fill_buffer_def)
  ultimately have "conf_of (async_receive_handler ms ord no_error (length data) h (fill_buffer data s)) = Live h ?s3"
    using assms(2) by (simp add: async_receive_handler_def Let_def)
  with d show ?thesis by (intro exI [of _ ?s3]) simp
qed

subsection \<open>The server of the examples\<close>

lemma home_request:
  assumes "h 0 = home_route" "ks = [] \<or> rt_method r = ''GET'' \<and> rt_target r = ''/''"
    and "um_find (rt_table r) ''origin'' = None"
  shows "run_middlewares (Mw_cors # Mw_routing (0 # ks) # rest) h (rt_request r b) new_response
    = (h, if rt_method r = ''GET'' \<and> rt_target r = ''/'' then set_body ''Hello world'' (set_status st_ok new_response)
        else set_status st_not_found new_response, Inr ())"
proof -
  have q: "rq_headers (rt_request r b) = rt_table r" "rq_target (rt_request r b) = rt_target r"
    "rq_method (rt_request r b) = to_method (rt_method r)"
    by (simp_all add: rt_request_def mk_request_def)
  have m: "to_method (rt_method r) = m_get \<longleftrightarrow> rt_method r = ''GET''" by (auto simp: to_method_def)
  have "ks = [] \<or> rq_method (rt_request r b) = m_get \<and> rq_target (rt_request r b) = ''/''"
    using assms(2) m by (simp add: q)
  from home_chain_plain [where h = h, OF assms(1) this] assms(3) m show ?thesis by (simp add: q)
qed

lemma home_served:
  assumes "home_server ks v" "ks = [] \<or> rt_method r = ''GET'' \<and> rt_target r = ''/''"
    and "a < length (wb_objects v)" "started (wb_objects v ! a)" "map_order ord"
    and "rt_wf r" "text_content (ct_of_headers (rt_table r))" "announced (rt_table r) = Some n" "n \<le> 0 \<or> body \<noteq> []"
    and "um_find (rt_table r) ''origin'' = None"
    and "data = rt_head r @ crlf @ body" "length data \<le> ws_buffer_option (wb_objects v ! a)"
  shows "\<exists>v'. after_session a v (conf_of (async_receive_handler (wb_middlewares v) ord no_error (length data)
        (wb_store v) (fill_buffer data (wb_objects v ! a)))) = Up v'
    \<and> ws_write (wb_objects v' ! a) = W_pending (if rt_method r = ''GET'' \<and> rt_target r = ''/'' then hello_bytes else not_found_bytes)
    \<and> \<not> ws_open (wb_objects v' ! a) \<and> wb_sessions v' (ws_session_id (wb_objects v ! a)) = None"
proof -
  obtain rest where h: "wb_store v 0 = home_route" "wb_middlewares v = Mw_cors # Mw_routing (0 # ks) # rest"
    using assms(1) by (auto simp: home_server_def)
  let ?g = "rt_method r = ''GET'' \<and> rt_target r = ''/''"
  let ?resp = "if ?g then set_body ''Hello world'' (set_status st_ok new_response) else set_status st_not_found new_response"
  have run: "run_middlewares (wb_middlewares v) (wb_store v) (rt_request r (crlf @ crlf @ body)) new_response = (wb_store v, ?resp, Inr ())"
    unfolding h(2) by (rule home_request [where h = "wb_store v", OF h(1) assms(2,10)])
  have "fst (build ord ?resp) = (if ?g then hello_bytes else not_found_bytes)"
    using home_bytes [OF assms(5)] by simp
  with served_at_server [OF run assms(3,4,6-9,11,12), of ord] show ?thesis by (simp only:)
qed

subsection \<open>A server with an authorization\<close>

definition forbidden_bytes :: string where
  "forbidden_bytes = ''HTTP/1.1 403 Forbidden'' @ crlf @ crlf"

lemma forbidden_build:
  assumes "map_order ord"
  shows "fst (build ord (set_status st_forbidden new_response)) = forbidden_bytes"
proof -
  have t: "to_string_nat 403 = ''403''" by code_simp
  show ?thesis
    by (simp add: build_layout final_headers_def set_status_def new_response_def order_small [OF assms] t
        status_line_def forbidden_bytes_def)
qed

text \<open>The parser's names are in lower case, so the first of the two lookups of the header fails.\<close>

lemma auth_header_parsed:
  "auth_header (rt_request r b) = um_find (rt_table r) ''authorization''"
proof -
  have "to_lower n \<noteq> ''Authorization''" for n
  proof
    assume n: "to_lower n = ''Authorization''"
    have "to_lower (to_lower n) = to_lower n" by (rule to_lower_idem)
    moreover have "to_lower ''Authorization'' \<noteq> ''Authorization''" by code_simp
    ultimately show False using n by simp
  qed
  then have "map_of (map ht_entry (rt_headers r)) ''Authorization'' = None"
    by (force simp: map_of_eq_None_iff ht_entry_def)
  then show ?thesis by (simp add: auth_header_def rt_request_def mk_request_def find_rt_table)
qed

subsection \<open>The first client\<close>

text \<open>A server that was just started can get to a state in which its first client was accepted.\<close>

lemma first_client:
  assumes "wb_started v0" "wb_running v0" "wb_queue v0 = [H_start all_ok]" "wb_accepting v0 = None" "wb_objects v0 = []"
    and "wb_last_session_id v0 = 0" "wb_sessions v0 = (\<lambda>_. None)" "wb_buffer_option v0 = n" "wb_close_error v0 = no_error"
  shows "\<exists>v. (server_step ord)\<^sup>*\<^sup>* (Up v0) (Up v) \<and> 0 < length (wb_objects v) \<and> started (wb_objects v ! 0)
    \<and> ws_buffer_option (wb_objects v ! 0) = n"
proof -
  let ?v1 = "accept_handler (v0\<lparr>wb_queue := []\<rparr>)"
  let ?v2 = "?v1\<lparr>wb_accepting := None, wb_queue := [H_accept 0 client_came]\<rparr>"
  let ?s = "connect ((new_session 1 n no_error)\<lparr>ws_open := True\<rparr>)"
  have r: "run_handler (H_start all_ok) (v0\<lparr>wb_queue := []\<rparr>) = Inr ?v1"
    using assms(1) by (simp add: start_handler_def all_ok_def accept_def)
  have s1: "server_step ord (Up v0) (Up ?v1)"
    using server_step.handler [of v0 "H_start all_ok" "[]" ord] r assms(2,3) by (simp add: after_handler_def)
  have f1: "wb_accepting ?v1 = Some 0" "wb_queue ?v1 = []" "wb_objects ?v1 = [new_session 1 n no_error]"
    "wb_running ?v1" "wb_started ?v1"
    using assms by (simp_all add: accept_handler_def create_session_def register_session_def Let_def)
  have s2: "server_step ord (Up ?v1) (Up ?v2)"
    using server_step.accepted [OF f1(1), of ord client_came] f1(2) by simp
  let ?w = "update_session 0 ?s (?v2\<lparr>wb_queue := []\<rparr>)"
  let ?v3 = "accept_handler (?w\<lparr>wb_queue := wb_queue ?w @ [H_expire 0 operation_aborted]\<rparr>)"
  have "run_handler (H_accept 0 client_came) (?v2\<lparr>wb_queue := []\<rparr>) = Inr ?v3"
    using f1 by (simp add: async_accept_handler_def Let_def accept_def update_session_fields)
  then have s3: "server_step ord (Up ?v2) (Up ?v3)"
    using server_step.handler [of ?v2 "H_accept 0 client_came" "[]" ord] f1(4) by (simp add: after_handler_def)
  have "wb_objects ?v3 ! 0 = ?s" "0 < length (wb_objects ?v3)"
    using f1 by (simp_all add: accept_handler_eq [unfolded Let_def] update_session_fields nth_append)
  moreover have "started ?s" unfolding started_def
    by (intro exI [of _ 1] exI [of _ n] exI [of _ no_error]) simp
  moreover have "ws_buffer_option ?s = n" by (simp add: connect_def new_session_def try_receive_def)
  moreover have "(server_step ord)\<^sup>*\<^sup>* (Up v0) (Up ?v3)"
    using s1 s2 s3 by (meson converse_rtranclp_into_rtranclp rtranclp.rtrancl_refl)
  ultimately show ?thesis by (intro exI [of _ ?v3]) simp
qed

text \<open>A request without a body.\<close>

definition plain_get :: "string \<Rightarrow> request_text" where
  "plain_get target = \<lparr>rt_method = ''GET'', rt_target = target, rt_headers = [\<lparr>ht_name = ''Host'', ht_space = '' '', ht_value = ''x''\<rparr>]\<rparr>"

end
