(* ===== verification/Example_Models.thy ===== *)
theory Example_Models
  imports Orm_Theorems
begin

text \<open>
  The structs of the example programs: \<open>User\<close> of \<open>src/examples/orm/entrypoint.cpp\<close>, whose \<open>main\<close>
  creates its table, and \<open>Course\<close> of \<open>src/examples/api_admin/src/entrypoint.cpp\<close>.  (The admin
  interface that program uses is not in the repository.)
\<close>

definition default_length :: "32 word" where
  "default_length = -1"

definition User :: reflected where
  "User = \<lparr>rf_table = Some \<lparr>tb_name = ''User'', tb_constraints = []\<rparr>, rf_members =
    [\<lparr>mb_name = ''id'', mb_type = ty_long, mb_column = mk_column ''id'' dt_bigserial 0 (flags_or cf_primarykey cf_ignore_insert) [] False\<rparr>,
     \<lparr>mb_name = ''name'', mb_type = ty_string, mb_column = mk_column ''name'' dt_text default_length cf_none [] False\<rparr>,
     \<lparr>mb_name = ''age'', mb_type = ty_int, mb_column = mk_column ''age'' dt_integer default_length cf_none [] False\<rparr>,
     \<lparr>mb_name = ''weight'', mb_type = ty_double, mb_column = mk_column ''weight'' dt_decimal default_length cf_none [] False\<rparr>,
     \<lparr>mb_name = ''height'', mb_type = ty_double, mb_column = mk_column ''height'' dt_decimal default_length cf_none [] False\<rparr>,
     \<lparr>mb_name = ''created_at'', mb_type = ty_date_time, mb_column = mk_column ''created_at'' dt_timestamp default_length cf_none [] False\<rparr>,
     \<lparr>mb_name = ''updated_at'', mb_type = ty_tod, mb_column = mk_column ''updated_at'' dt_time_of_day default_length cf_none [] False\<rparr>]\<rparr>"

definition Course :: reflected where
  "Course = \<lparr>rf_table = Some \<lparr>tb_name = ''Course'', tb_constraints = []\<rparr>, rf_members =
    [\<lparr>mb_name = ''id'', mb_type = ty_int, mb_column = mk_column ''id'' dt_primarykey 0 cf_ignore_insert [] False\<rparr>,
     \<lparr>mb_name = ''name'', mb_type = ty_string, mb_column = mk_column ''name'' dt_text 0 cf_none ''UNIQUE'' True\<rparr>,
     \<lparr>mb_name = ''description'', mb_type = ty_string, mb_column = mk_column ''description'' dt_text default_length cf_none [] False\<rparr>]\<rparr>"

definition orm_example_main :: "('db, 'row, 'f, 'y) pqxx \<Rightarrow> 'db \<Rightarrow> bool outcome \<times> 'db" where
  "orm_example_main px db = orm_create_table px User db"

text \<open>The statements, and what the two structs can do.\<close>

lemma user_insert_columns:
  "fields_to_insert (rf_members User) = 6" "insert_compiles User"
  "map mb_name (listed (rf_members User)) = [''name'', ''age'', ''weight'', ''height'', ''created_at'', ''updated_at'']"
  "listed (rf_members User) = valued (rf_members User)"
  by (simp_all add: User_def mk_column_def fields_to_insert_def insert_compiles_def has_overload_def listed_def
      valued_def is_value_member_def demo_flags)

lemma course_table:
  "\<exists>sql. query_create_table Course = Some sql \<and>
    split sql lf False = [''CREATE TABLE IF NOT EXISTS Course ('', tab # ''id bigserial PRIMARY KEY,'',
      tab # ''name TEXT UNIQUE,'', tab # ''description TEXT'', '');'']"
proof -
  let ?sql = "''CREATE TABLE IF NOT EXISTS Course ('' @ [lf, tab] @ ''id bigserial PRIMARY KEY,'' @ [lf, tab]
    @ ''name TEXT UNIQUE,'' @ [lf, tab] @ ''description TEXT'' @ [lf] @ '');''"
  have "query_create_table Course = Some ?sql"
    by (simp add: query_create_table_def Course_def mk_column_def make_sql_field_spec_def is_integral_def is_text_type_def
        typed_spec_def should_apply_custom_define_def demo_flags const_substr_def)
  moreover have "split ?sql lf False = [''CREATE TABLE IF NOT EXISTS Course ('', tab # ''id bigserial PRIMARY KEY,'',
      tab # ''name TEXT UNIQUE,'', tab # ''description TEXT'', '');'']"
    by code_simp
  ultimately show ?thesis by blast
qed

end
