(* ===== verification/Api_Admin.thy ===== *)
theory Api_Admin
  imports Request_At_Server Example_Models Base_Theorems
begin

text \<open>
  The example program \<open>src/examples/api_admin/src/entrypoint.cpp\<close>: it creates the table of its model
  and starts a server with the route of its \<open>home\<close> and the routes of the admin interface behind it.
  That interface (\<open>webcrown/admin/admin.hpp\<close>) is not in the repository: its routes are an argument.
  The connection to the database is the argument \<open>px\<close> with the state \<open>db\<close>.
\<close>

definition admin_home :: "'x route_callback" where
  "admin_home request response parameters context = (set_body ''Hello world'' (set_status st_ok response), None)"

text \<open>\<open>main\<close> up to its waiting loops; \<open>None\<close> is a standard exception, which it catches.\<close>

definition api_admin_main ::
    "('db, 'row, 'f, 'y) pqxx \<Rightarrow> 'x route list \<Rightarrow> nat \<Rightarrow> error_code \<Rightarrow> listen_answers \<Rightarrow> 'db
      \<Rightarrow> 'x server option outcome \<times> 'db" where
  "api_admin_main px admin_routes option close_error la db =
     (let (created, db1) = orm_create_table px Course db;
          result = and_then created (\<lambda>_.
            case make_route m_get ''/'' (Some admin_home) of
              Inl e \<Rightarrow> Throws e
            | Inr r \<Rightarrow>
                let http = new_server ''127.0.0.1'' 8080 (\<lambda>i. if i = 0 then r else admin_routes ! (i - 1)) option close_error;
                    router_middleware = fold add_router [1..<Suc (length admin_routes)] (add_router 0 []);
                    http = add_middleware Mw_cors http;
                    http = add_middleware (Mw_routing router_middleware) http
                in (case start la http of Inl e \<Rightarrow> Throws e | Inr v \<Rightarrow> Returns (Some v)))
      in (case result of Throws e \<Rightarrow> if is_std_exn e then Returns None else Throws e | _ \<Rightarrow> result, db1))"

lemma admin_home_eq: "admin_home = home"
  by (intro ext) (simp add: admin_home_def home_def)

lemma fold_add_router: "fold add_router ks rs = rs @ ks"
  by (induction ks arbitrary: rs) (simp_all add: add_router_def)

lemma api_admin_home_server:
  assumes "api_admin_main px admin_routes option close_error la db = (Returns (Some v), db')"
  shows "home_server [1..<Suc (length admin_routes)] v"
proof -
  obtain created db1 where c: "orm_create_table px Course db = (created, db1)" by fastforce
  show ?thesis
  proof (cases created)
    case (Returns b)
    with assms c show ?thesis
      by (auto simp: api_admin_main_def admin_home_eq make_home_route Let_def fold_add_router add_router_def start_def
          home_server_def add_middleware_def new_server_def simp del: upt_Suc)
  qed (use assms c in \<open>auto simp: api_admin_main_def Let_def split: if_split_asm\<close>)
qed

text \<open>
  The admin program answers a GET of \<open>/\<close>: whatever routes the admin interface adds and whatever
  middlewares follow, in every state the program can reach such a request without \<open>Origin\<close> that arrives as
  the first data of a session is answered with exactly the bytes of \<open>Hello world\<close>.
\<close>

lemma api_admin_answers:
  assumes "api_admin_main px admin_routes option close_error la db = (Returns (Some v0), db')"
    and "(server_step ord)\<^sup>*\<^sup>* (Up v0) (Up v)"
    and "a < length (wb_objects v)" "started (wb_objects v ! a)" "map_order ord"
    and "rt_wf r" "text_content (ct_of_headers (rt_table r))" "announced (rt_table r) = Some n" "n \<le> 0 \<or> body \<noteq> []"
    and "um_find (rt_table r) ''origin'' = None" "rt_method r = ''GET''" "rt_target r = ''/''"
    and "data = rt_head r @ crlf @ body" "length data \<le> ws_buffer_option (wb_objects v ! a)"
  shows "\<exists>v'. after_session a v (conf_of (async_receive_handler (wb_middlewares v) ord no_error (length data)
        (wb_store v) (fill_buffer data (wb_objects v ! a)))) = Up v'
    \<and> ws_write (wb_objects v' ! a) = W_pending hello_bytes
    \<and> \<not> ws_open (wb_objects v' ! a) \<and> wb_sessions v' (ws_session_id (wb_objects v ! a)) = None"
proof -
  have "home_server [1..<Suc (length admin_routes)] v"
    using home_server_steps [OF assms(2)] api_admin_home_server [OF assms(1)] by blast
  from home_served [OF this _ assms(3-10,13,14)] assms(11,12) show ?thesis by simp
qed

lemma api_admin_answers_witness:
  "\<exists>(v0 :: nat server) db' v v'. api_admin_main demo_px [home_route, home_route] 100 no_error all_ok [] = (Returns (Some v0), db')
    \<and> (server_step rev)\<^sup>*\<^sup>* (Up v0) (Up v)
    \<and> after_session 0 v (conf_of (async_receive_handler (wb_middlewares v) rev no_error (length (rt_head (plain_get ''/'') @ crlf))
        (wb_store v) (fill_buffer (rt_head (plain_get ''/'') @ crlf) (wb_objects v ! 0)))) = Up v'
    \<and> ws_write (wb_objects v' ! 0) = W_pending hello_bytes"
proof -
  let ?r = "plain_get ''/''"
  let ?v0 = "(add_middleware (Mw_routing [0, 1, 2]) (add_middleware Mw_cors (new_server ''127.0.0.1'' 8080
    (\<lambda>i. if i = 0 then home_route else [home_route, home_route] ! (i - 1)) 100 no_error)))
      \<lparr>wb_started := True, wb_running := True, wb_queue := [H_start all_ok]\<rparr> :: nat server"
  obtain sql where sql: "query_create_table Course = Some sql" using course_table by blast
  have main: "api_admin_main demo_px [home_route, home_route] 100 no_error all_ok [] = (Returns (Some ?v0), [sql, ''COMMIT''])"
    by (simp add: api_admin_main_def orm_create_table_def sql exec_commit_def demo_px_def admin_home_eq make_home_route
        add_router_def start_def add_middleware_def new_server_def upt_rec)
  have "\<exists>v. (server_step rev)\<^sup>*\<^sup>* (Up ?v0) (Up v) \<and> 0 < length (wb_objects v) \<and> started (wb_objects v ! 0)
      \<and> ws_buffer_option (wb_objects v ! 0) = 100"
    by (rule first_client) (simp_all add: add_middleware_def new_server_def)
  then obtain v where v: "(server_step rev)\<^sup>*\<^sup>* (Up ?v0) (Up v)" "0 < length (wb_objects v)" "started (wb_objects v ! 0)"
    "ws_buffer_option (wb_objects v ! 0) = 100" by blast
  have g: "rt_wf ?r" "text_content (ct_of_headers (rt_table ?r))" "announced (rt_table ?r) = Some 0"
    "um_find (rt_table ?r) ''origin'' = None" "length (rt_head ?r @ crlf @ []) \<le> 100" by code_simp+
  have r: "rt_method ?r = ''GET''" "rt_target ?r = ''/''" by (simp_all add: plain_get_def)
  have l: "length (rt_head ?r @ crlf @ []) \<le> ws_buffer_option (wb_objects v ! 0)" using g(5) v(4) by simp
  from api_admin_answers [OF main v(1-3) rev_map_order g(1-3) _ g(4) r refl l] main v(1) show ?thesis
    unfolding append_Nil2 by blast
qed

end
