(* ===== verification/Spec2Isabelle.thy ===== *)
theory Spec2Isabelle
  imports Base_Theorems Parser_Theorems Route_Theorems Middleware_Theorems
    Session_Theorems Server_Theorems Url_Theorems Orm_Theorems Serializer_Theorems Process_Theorems Api_Admin
begin

text \<open>
  webcrown, a C++ library for HTTP services: strings, requests and their parser, routes and
  middlewares, sessions and the server; beside them a query builder for PostgreSQL, a JSON
  serializer, and a small toolbox.  Paths below are relative
  to \<open>src/include/webcrown/\<close> unless they say otherwise.

  \<^bold>\<open>The program.\<close>  A \<open>WebServer\<close> (\<open>server/webserver.hpp\<close>, \<open>server/impl/webserver.cpp\<close>) runs one thread
  over an \<open>asio::io_context\<close>.  It accepts clients; each gets a \<open>WebSession\<close> with an id under which the
  server registers it, a receive buffer, and an expiry timer.  Data that arrive go to the session's
  \<open>parser\<close> (\<open>server/http/http_parser.hpp\<close>), which keeps a phase between the segments of a request.
  A parsed request runs through the server's middlewares (\<open>server/http/middlewares/\<close>: \<open>auth_middleware\<close>,
  \<open>cors_middleware\<close>, \<open>routing_middleware\<close>), which share \<open>route\<close> objects and fill an \<open>http_response\<close>.
  The session serializes the response with \<open>build\<close>, queues its bytes in two buffers, starts an
  asynchronous write, and disconnects.

  \<^bold>\<open>The theories\<close>, in the order the code's parts call each other:

  \<^item> \<open>Prelude\<close>: bytes, machine integers (\<open>u16\<close>, \<open>u64\<close>), the C++ exceptions as \<open>cpp_exn\<close>, reads through
    a pointer as \<open>rd\<close> (\<open>None\<close> outside of the allocation), the collections \<open>rd_simps\<close>, \<open>scan_simps\<close>,
    \<open>frame_simps\<close>.
  \<^item> \<open>Cpp_Library\<close>: \<open>find\<close>, \<open>replace\<close> (with \<open>std::out_of_range\<close>), \<open>atoi\<close> (\<open>None\<close> on overflow),
    \<open>to_string\<close>, the \<open>ctype\<close> functions (\<open>None\<close> on a negative \<open>char\<close>).
  \<^item> \<open>Unordered_Map\<close>: \<open>std::unordered_map\<close> behind the locale \<open>keyed_store\<close>, with \<open>um\<close> its
    interpretation.  The iteration order, which the standard leaves open, is an argument \<open>ord\<close> of the
    definitions that iterate.
  \<^item> \<open>String_Utils\<close>: \<open>common/impl/string_common.cpp\<close>.  \<open>Char_Class\<close>: the tables of
    \<open>server/http/detail/parser.hpp\<close>.  \<open>Http_Types\<close>: methods, phases, status and error codes.
    \<open>Http_Message\<close>: \<open>http_request\<close>, \<open>http_response\<close> and \<open>build\<close>.
  \<^item> \<open>Http_Parser\<close>: the class \<open>parser\<close>, a definition per member function.  \<open>Parser_Scan\<close>: what the
    loops do on the text they are meant for.  \<open>Parser_Correct\<close>: well-formed requests and the phases.
    \<open>Parser_Upload\<close>: multipart uploads, in one segment and in many.
    \<open>Parser_Safety\<close> and \<open>Parser_Defined\<close>: which reads happen past the end of the data, and that
    with room for them nothing is undefined.
  \<^item> \<open>Route\<close> and \<open>Route_Correct\<close>: \<open>middlewares/route.hpp\<close>; matching is used through the locale
    \<open>matcher\<close>, whose law is that it changes parameter values only (interpretation \<open>rm\<close>).
  \<^item> \<open>Middleware\<close>: the three middlewares and the chain of \<open>on_receive\<close>, over a store of shared routes.
    \<open>Endpoint\<close>: \<open>helpers/endpoint_context.hpp\<close>.
  \<^item> \<open>Session\<close>: \<open>WebSession\<close>, a definition per member function; the locale \<open>byte_queue\<close> is the contract
    of the two send buffers (interpretation \<open>sq\<close>).  \<open>Session_Steps\<close>: a session with its
    environment as a step relation, its reachable states and their invariant.  \<open>Session_Segments\<close>: a
    session that receives a request in many segments.
  \<^item> \<open>Server\<close>: \<open>WebServer\<close> with all its sessions as a step relation.  \<open>Server_Inv\<close>: the invariant
    of the registry.  \<open>Server_Process\<close>: the application's thread beside the io thread: \<open>start\<close>, \<open>stop\<close>,
    the destructor and their joins, and who holds a shared pointer to the server, for builds with and
    without assertions.
  \<^item> \<open>Url_Parser\<close>, \<open>Meta_To_String\<close> and \<open>Date_Time\<close>: \<open>common/url_parser.hpp\<close>, \<open>common/meta/to_string.hpp\<close>,
    \<open>common/date/date_time.hpp\<close> with \<open>common/time/time.hpp\<close>.
  \<^item> \<open>Orm_Types\<close>, \<open>Orm_Query\<close>, \<open>Orm\<close>: \<open>orm/databases/postgres/\<close>: the enumerations and attributes, the
    statements computed at compile time, and the operations that send them.  \<open>Orm_Correct\<close>: lists with
    separators, the columns and values of an insertion, the row a selection reads.
  \<^item> \<open>Serializer\<close>: \<open>serializer/serializator.hpp\<close>.
  \<^item> \<open>Simple_Api\<close>, \<open>Api_Admin\<close> and \<open>Example_Models\<close>: the programs under \<open>src/examples/\<close>: the servers
    \<open>simple_api\<close> and \<open>api_admin\<close> start, with the invariant that their chain and store keep, and the structs
    the other two reflect.  \<open>Request_At_Server\<close>: from the bytes of a request at the server to the bytes of its
    response, for any middlewares.
  \<^item> \<open>Base_Theorems\<close>, \<open>Parser_Theorems\<close>, \<open>Route_Theorems\<close>, \<open>Middleware_Theorems\<close>, \<open>Session_Theorems\<close>,
    \<open>Server_Theorems\<close>, \<open>Process_Theorems\<close>, \<open>Url_Theorems\<close>, \<open>Orm_Theorems\<close>, \<open>Serializer_Theorems\<close>: the properties, each after a
    text that states it.  What spans components, from the bytes of a request to the bytes of its
    response, is in this theory.
\<close>

text \<open>
  \<^bold>\<open>Conventions.\<close>

  \<^item> A \<open>std::string\<close>, a \<open>std::string_view\<close> and a \<open>std::vector\<close> of bytes are lists of characters.
    Moves, references and lifetimes are not modelled.
  \<^item> Undefined behaviour is the value \<open>None\<close> of the function that reaches it, and the configuration
    \<open>Undefined\<close> of a session: a read outside the allocation, a signed overflow, \<open>isprint\<close>, \<open>isspace\<close> or
    \<open>isalpha\<close> of a negative value, \<open>atoi\<close> of a number that is no \<open>int\<close>.
  \<^item> An exception that leaves a function is \<open>Inl\<close> with a value of \<open>cpp_exn\<close>.  An \<open>error_code\<close> the
    source passes by reference is returned.  A failed \<open>assert\<close> is \<open>Inl Assertion_failed\<close>, which no
    handler of the source catches; the server's operations with such an assertion also have a \<open>mode\<close>
    that says whether assertions are compiled in (\<open>accept_in\<close>; \<open>accept\<close> is the one with them).  A configuration of the server is \<open>Up\<close>, \<open>Down\<close> (the process ended)
    or \<open>Unknown\<close> (after undefined behaviour).
  \<^item> The parser's pointers are indexes into the allocation they point into: a list \<open>mem\<close> which is
    longer than the data received when the buffer is.  What stands after the data is read by
    the code, so the definitions read it too.
  \<^item> There is one io thread, so handlers do not overlap; \<open>dispatch\<close> on the io thread runs its argument
    at once.  Asynchronous operations record that they are in progress, and the environment's
    steps complete them in any order and with any size or error.
  \<^item> Objects behind shared pointers live in a store (routes) or a list (sessions) and are not freed: a
    step of a session that nothing holds any more stands for one on freed memory.  Who holds a
    session is \<open>session_held\<close>: a read does not, so that an expired session is freed while it is read
    (\<open>expired_session_is_freed\<close>).
  \<^item> The callbacks of the application are arguments: functions which return the response they leave,
    or an exception.  Third-party libraries are parameters: JSON (functions of \<open>Endpoint\<close>, the record
    \<open>json_ops\<close> of \<open>Serializer\<close> with what is relied on as \<open>json_ok\<close>), the date library (\<open>date_lib\<close>), the
    database client (\<open>pqxx\<close>, over any type of database state), \<open>lexical_cast\<close>.
  \<^item> Reflection happens at compile time: a struct is the record \<open>reflected\<close> of its members, and the
    library's \<open>accumulate\<close> and \<open>for_each\<close> visit them in order.  What the compiler rejects is the value
    \<open>None\<close> of a query and the outcome \<open>Ill_formed\<close> of an operation: a failed \<open>static_assert\<close>, a call
    no overload fits, statements after an \<open>if constexpr\<close> without \<open>else\<close>, which are compiled as well.
    Overload resolution is part of the model: \<open>has_overload\<close>, \<open>ser_overload\<close> and the equations of the two
    \<open>normalize_type\<close>.
  \<^item> Loops are structural, or have a measure; there is no fuel.  The loop of \<open>replace_all\<close> does not
    end for an empty search text and is a \<open>partial_function (option)\<close>.
  \<^item> The counters of a session (\<open>bytes_pending_\<close>, \<open>bytes_sending_\<close>, \<open>bytes_received_\<close>, \<open>bytes_sent_\<close>)
    are used in \<open>webserver.cpp\<close> and declared nowhere; they are modelled as 64 bit, like the counters
    the server declares.
\<close>

text \<open>
  \<^bold>\<open>What the lemmas show.\<close>

  \<^item> Strings and tables: splitting, replacing and the character classes against reference
    definitions; a built response reads back as its status line, headers and body.
  \<^item> Parser: a well-formed request in one segment, and one whose body comes in a second segment, is
    parsed into its parts (the body of a single segment keeps four bytes of the separator); an upload is
    collected from its segments until the boundary comes, delimiter included; what is rejected and with which error; a request is returned exactly in the phase \<open>finished\<close>; over
    any segments, with spare room in the buffer and bytes the \<open>ctype\<close> functions take, nothing is undefined
    but \<open>atoi\<close> of an announced length that is no \<open>int\<close>; without the room a cut header is read past the end.
  \<^item> Routes: which paths become which parameters, which targets match, and the values bound; the
    two places where the matching misbehaves.
  \<^item> Middlewares: a request passes the authorization exactly when the callback consents to every
    protected route that matches, as matched; the first matching
    route is called, the CORS preflight answer, and what the registration helper protects.
  \<^item> Sessions: the two buffers are a queue under every interleaving; whatever happens, the wire has a
    prefix of one response; a session unregisters once; a request, in any number of segments,
    from its bytes to the write of its response.
  \<^item> Server: the registry is exact in every reachable state; a step changes one session at most; an accept error, or an option a new socket refuses, ends accepting; the expiry
    timer, a local variable of its handler, closes each client at once; one malformed packet
    ends the io thread.
  \<^item> The life of the server: the two threads refine the server's own steps, so its invariants hold for
    them; once it listens it cannot be destroyed (in a build with assertions); a session that expires
    is destroyed before its read completes; \<open>stop\<close> aborts or waits for an exception.
  \<^item> Query builder: the statements that are sent, with their columns, values, assignments and
    placeholders; when columns and values differ in number; when a text value is one constant of the
    statement; an insertion that compiles reaches the database, a selection gives what the
    members read from the columns of the first row.
  \<^item> Serializer: a document shows the members that are not flagged, a vector becomes an array or null.
  \<^item> End to end: every request without an \<open>Origin\<close> that a session of the example program gets first is
    answered with the exact bytes, in every reachable state; a request for a protected route without a
    token gets the bytes of a 403; a preflight, with CORS first in the chain, gets its 204; one the parser rejects gets none.
  \<^item> Toolbox: percent encoding round-trips, a composed URL is taken apart, the compile-time
    \<open>to_string\<close> fills its buffer with the decimal text; differences of times and days.

  \<^bold>\<open>Bounds.\<close>  Some hypotheses are bounds: a target is shorter than \<open>2 ^ 64\<close> (positions are \<open>size_t\<close>, and
  one subtraction in \<open>put_value\<close> wraps), fewer than \<open>2 ^ 64\<close> sessions were created (ids repeat
  otherwise), lengths handed to \<open>int\<close> arithmetic in \<open>url_parser.hpp\<close> do not overflow it, and times in
  nanoseconds fit 64 bits.  The socket's \<open>close\<close> reports no error in the sessions and the reachable states
  (\<open>started\<close>, \<open>server_reachable\<close>): \<open>disconnect\<close> returns early on one.

  \<^bold>\<open>Not modelled.\<close>  What the ORM prints to \<open>std::cout\<close> and the examples'
  error callback prints; the pointers and iterators into the buffer of the compile-time \<open>to_string\<close>;
  the waiting loops of the example programs, which never end; the admin interface one of them uses,
  which is not in the repository and whose routes are an argument; headers that only include others.
\<close>

subsection \<open>The example program, end to end\<close>





subsection \<open>An authorization, end to end\<close>

text \<open>
  C8. A protected route needs a token on the wire.  On any server whose first middleware is an
  authorization, a well-formed request for a protected route that arrives as the first data of a
  session and has no header \<open>Authorization\<close> with a token, whatever the case of its name, is
  answered with exactly the bytes of a 403; the middlewares behind are not run and the session is
  closed and no longer registered.
\<close>

theorem protected_route_needs_token:
  assumes "wb_middlewares v = Mw_auth am # ms" "am_routes am = ks @ (k, level) # ks'"
    and "\<forall>(i, l)\<in>set ks. snd (is_match_with_target_request (rt_target r) (to_method (rt_method r)) (wb_store v i)) = Inr False"
    and "snd (is_match_with_target_request (rt_target r) (to_method (rt_method r)) (wb_store v k)) = Inr True"
    and "case um_find (rt_table r) ''authorization'' of None \<Rightarrow> True | Some t \<Rightarrow> extract_token t = []"
    and "a < length (wb_objects v)" "started (wb_objects v ! a)" "map_order ord"
    and "rt_wf r" "text_content (ct_of_headers (rt_table r))" "announced (rt_table r) = Some n" "n \<le> 0 \<or> body \<noteq> []"
    and "data = rt_head r @ crlf @ body" "length data \<le> ws_buffer_option (wb_objects v ! a)"
  shows "\<exists>v'. after_session a v (conf_of (async_receive_handler (wb_middlewares v) ord no_error (length data)
        (wb_store v) (fill_buffer data (wb_objects v ! a)))) = Up v'
    \<and> ws_write (wb_objects v' ! a) = W_pending forbidden_bytes
    \<and> \<not> ws_open (wb_objects v' ! a) \<and> wb_sessions v' (ws_session_id (wb_objects v ! a)) = None"
proof -
  let ?req = "rt_request r (crlf @ crlf @ body)"
  have q: "rq_target ?req = rt_target r" "rq_method ?req = to_method (rt_method r)"
    by (simp_all add: rt_request_def mk_request_def)
  have t: "auth_header ?req = None \<or> (\<exists>t. auth_header ?req = Some t \<and> extract_token t = [])"
    using assms(5) by (simp add: auth_header_parsed split: option.split_asm)
  obtain h' where "run_middlewares (Mw_auth am # ms) (wb_store v) ?req new_response
      = (h', set_status st_forbidden new_response, Inr ())"
    using auth_without_token_403 [of am ks k level ks' ?req "wb_store v" ms new_response] assms(2-4) t q by auto
  then have "run_middlewares (wb_middlewares v) (wb_store v) ?req new_response
      = (h', set_status st_forbidden new_response, Inr ())" using assms(1) by simp
  from served_at_server [OF this assms(6,7,9-14), of ord] show ?thesis
    by (simp only: forbidden_build [OF assms(8)])
qed

definition demo_protected :: "nat server" where
  "demo_protected = (new_server ''h'' 80 (\<lambda>_. demo_route) 100 no_error)
     \<lparr>wb_objects := [demo_session], wb_middlewares := [Mw_auth demo_auth, Mw_routing [0]]\<rparr>"

theorem protected_route_needs_token_witness:
  "\<exists>v'. after_session 0 demo_protected (conf_of (async_receive_handler (wb_middlewares demo_protected) rev no_error
        (length (rt_head (plain_get ''/a'') @ crlf)) (wb_store demo_protected)
        (fill_buffer (rt_head (plain_get ''/a'') @ crlf) demo_session))) = Up v'
    \<and> ws_write (wb_objects v' ! 0) = W_pending forbidden_bytes"
proof -
  let ?r = "plain_get ''/a''"
  have d: "wb_middlewares demo_protected = [Mw_auth demo_auth, Mw_routing [0]]" "am_routes demo_auth = [] @ (0, al_admin) # []"
    "wb_objects demo_protected = [demo_session]" "wb_store demo_protected = (\<lambda>_. demo_route)"
    by (simp_all add: demo_protected_def new_server_def demo_auth_def)
  have m: "snd (is_match_with_target_request (rt_target ?r) (to_method (rt_method ?r)) (wb_store demo_protected 0)) = Inr True"
    unfolding d by (simp add: is_match_with_target_request_def plain_get_def demo_route_def starts_with_def to_method_def)
  have g: "rt_wf ?r" "text_content (ct_of_headers (rt_table ?r))" "announced (rt_table ?r) = Some 0"
    "case um_find (rt_table ?r) ''authorization'' of None \<Rightarrow> True | Some t \<Rightarrow> extract_token t = []"
    "length (rt_head ?r @ crlf @ []) \<le> ws_buffer_option demo_session" by code_simp+
  have s: "0 < length (wb_objects demo_protected)" "started (wb_objects demo_protected ! 0)"
    "length (rt_head ?r @ crlf @ []) \<le> ws_buffer_option (wb_objects demo_protected ! 0)"
    using demo_started g(5) by (simp_all add: d)
  from protected_route_needs_token [OF d(1,2) _ m g(4) s(1,2) rev_map_order g(1-3) _ refl s(3)] show ?thesis
    by (simp add: d(3)) blast
qed

subsection \<open>A preflight, end to end\<close>

text \<open>
  C28. A preflight is answered on the wire.  On any server whose first middleware is the CORS one, a
  well-formed \<open>OPTIONS\<close> request that arrives as the first data of a session, with a \<open>Host\<close> and an
  \<open>Origin\<close> that is not that host's, has its answer handed to the socket: the bytes read back as the
  status line 204, the three \<open>Access-Control-Allow\<close> lines in some order, and no body.  The
  middlewares behind are not run (the routes are as they were), and the session is closed and no
  longer registered.
\<close>

theorem preflight_is_answered:
  assumes "wb_middlewares v = Mw_cors # ms" "rt_method r = ''OPTIONS''"
    and "um_find (rt_table r) ''origin'' = Some origin" "um_find (rt_table r) ''host'' = Some host"
    and "origin \<noteq> ''http://'' @ host" "origin \<noteq> ''https://'' @ host"
    and "a < length (wb_objects v)" "started (wb_objects v ! a)" "map_order ord"
    and "rt_wf r" "text_content (ct_of_headers (rt_table r))" "announced (rt_table r) = Some n" "n \<le> 0 \<or> body \<noteq> []"
    and "data = rt_head r @ crlf @ body" "length data \<le> ws_buffer_option (wb_objects v ! a)"
  shows "\<exists>v' bs ls. after_session a v (conf_of (async_receive_handler (wb_middlewares v) ord no_error (length data)
        (wb_store v) (fill_buffer data (wb_objects v ! a)))) = Up v'
    \<and> ws_write (wb_objects v' ! a) = W_pending bs \<and> read_head bs = Some (''HTTP/1.1 204 No Content'' # ls, [])
    \<and> length ls = 3 \<and> set ls = {''Access-Control-Allow-Origin: *'', ''Access-Control-Allow-Headers: *'',
          ''Access-Control-Allow-Methods: *''}
    \<and> wb_store v' = wb_store v
    \<and> \<not> ws_open (wb_objects v' ! a) \<and> wb_sessions v' (ws_session_id (wb_objects v ! a)) = None"
proof -
  let ?req = "rt_request r (crlf @ crlf @ body)"
  have q: "rq_headers ?req = rt_table r" "rq_method ?req = m_options"
    using assms(2) by (simp_all add: rt_request_def mk_request_def to_method_def)
  obtain resp where run: "run_middlewares (wb_middlewares v) (wb_store v) ?req new_response = (wb_store v, resp, Inr ())"
    and head: "\<exists>ls. read_head (fst (build ord resp)) = Some (''HTTP/1.1 204 No Content'' # ls, []) \<and> length ls = 3
      \<and> set ls = {''Access-Control-Allow-Origin: *'', ''Access-Control-Allow-Headers: *'', ''Access-Control-Allow-Methods: *''}"
    using cors_preflight_reads_back [where req = ?req and origin = origin and host = host and ord = ord and ms = ms
        and h = "wb_store v"] assms(1,3-6,9) q
    by (auto split: prod.split_asm)
  from served_with_store [OF run assms(7,8,10-15), of ord] head show ?thesis
    by - (elim exE conjE, intro exI conjI, assumption+)
qed

text \<open>A preflight for the demo server, with CORS before the authorization.\<close>

definition demo_preflight :: request_text where
  "demo_preflight = \<lparr>rt_method = ''OPTIONS'', rt_target = ''/a'', rt_headers =
     [\<lparr>ht_name = ''Host'', ht_space = '' '', ht_value = ''x''\<rparr>, \<lparr>ht_name = ''Origin'', ht_space = '' '', ht_value = ''http://y''\<rparr>]\<rparr>"

definition demo_cors :: "nat server" where
  "demo_cors = demo_protected\<lparr>wb_middlewares := [Mw_cors, Mw_auth demo_auth]\<rparr>"

theorem preflight_is_answered_witness:
  "\<exists>v' bs ls. after_session 0 demo_cors (conf_of (async_receive_handler (wb_middlewares demo_cors) rev no_error
        (length (rt_head demo_preflight @ crlf)) (wb_store demo_cors)
        (fill_buffer (rt_head demo_preflight @ crlf) demo_session))) = Up v'
    \<and> ws_write (wb_objects v' ! 0) = W_pending bs \<and> read_head bs = Some (''HTTP/1.1 204 No Content'' # ls, [])"
proof -
  let ?r = demo_preflight
  have d: "wb_middlewares demo_cors = Mw_cors # [Mw_auth demo_auth]" "wb_objects demo_cors = [demo_session]"
    by (simp_all add: demo_cors_def demo_protected_def)
  have g: "rt_wf ?r" "text_content (ct_of_headers (rt_table ?r))" "announced (rt_table ?r) = Some 0"
    "rt_method ?r = ''OPTIONS''" "um_find (rt_table ?r) ''origin'' = Some ''http://y''" "um_find (rt_table ?r) ''host'' = Some ''x''"
    "''http://y'' \<noteq> ''http://'' @ ''x''" "''http://y'' \<noteq> ''https://'' @ ''x''"
    "length (rt_head ?r @ crlf @ []) \<le> ws_buffer_option demo_session" by code_simp+
  have o: "wb_objects demo_cors ! 0 = demo_session" by (simp add: d(2))
  have s: "0 < length (wb_objects demo_cors)" "started (wb_objects demo_cors ! 0)"
    "length (rt_head ?r @ crlf @ []) \<le> ws_buffer_option (wb_objects demo_cors ! 0)"
    using demo_started g(9) by (simp_all add: d(2) o)
  have n: "(0::int) \<le> 0 \<or> [] \<noteq> ([] :: string)" by simp
  from preflight_is_answered [OF d(1) g(4-8) s(1,2) rev_map_order g(1-3) n refl s(3)] show ?thesis
    unfolding o append_Nil2 by - (elim exE conjE, intro exI conjI, assumption+)
qed

subsection \<open>Rejected requests\<close>

text \<open>
  C23. A request the parser rejects gets no answer.  When the first data of a session make the parser
  report an error, the session is closed and unregistered without a byte sent, no middleware
  runs (the routes are as they were), no other session is touched, and the server's error callback
  is not told.
\<close>

theorem rejected_request_gets_no_answer:
  assumes "a < length (wb_objects v)" "started (wb_objects v ! a)" "data \<noteq> []" "length data \<le> ws_buffer_option (wb_objects v ! a)"
    and "parse (data @ replicate (ws_buffer_option (wb_objects v ! a) - length data) nul) (length data) new_parser
      = Some (Inr (res, p, Some e))"
    and "e \<noteq> e_unknown"
  shows "\<exists>v'. after_session a v (conf_of (async_receive_handler (wb_middlewares v) ord no_error (length data)
        (wb_store v) (fill_buffer data (wb_objects v ! a)))) = Up v'
    \<and> ws_write (wb_objects v' ! a) = W_idle \<and> ws_wire (wb_objects v' ! a) = [] \<and> ws_accepted (wb_objects v' ! a) = []
    \<and> \<not> ws_open (wb_objects v' ! a) \<and> ws_read (wb_objects v' ! a) = None
    \<and> wb_sessions v' = (wb_sessions v)(ws_session_id (wb_objects v ! a) := None)
    \<and> wb_store v' = wb_store v \<and> wb_errors v' = wb_errors v \<and> wb_objects v' = (wb_objects v)[a := wb_objects v' ! a]"
proof -
  let ?s = "wb_objects v ! a"
  from reject_step [OF assms(2-6), of "wb_middlewares v" ord "wb_store v"] obtain s' where
    s': "conf_of (async_receive_handler (wb_middlewares v) ord no_error (length data) (wb_store v) (fill_buffer data ?s)) = Live (wb_store v) s'"
    "ws_write s' = W_idle" "ws_accepted s' = []" "ws_wire s' = []" "\<not> ws_open s'" "ws_read s' = None"
    "ws_effects s' = [Ef_unregister (ws_session_id ?s)]"
    by blast
  have e: "ws_effects ?s = []" using assms(2) by (auto simp: started_def connect_def new_session_def try_receive_def)
  let ?v' = "update_session a s' v"
  have o: "wb_objects ?v' = (wb_objects v)[a := s']" "wb_objects ?v' ! a = s'" using assms(1) by (simp_all add: update_session_fields)
  have u: "?v' = v\<lparr>wb_objects := (wb_objects v)[a := s'], wb_sessions := (wb_sessions v)(ws_session_id ?s := None)\<rparr>"
    by (simp add: update_session_def s'(7) e unregister_session_def)
  show ?thesis using s' o by (intro exI [of _ ?v']) (simp add: u)
qed

lemma demo_rejected:
  "\<exists>p. parse (''get'' @ replicate (100 - length ''get'') nul) (length ''get'') new_parser = Some (Inr (None, p, Some e_incomplete_start_line))"
proof -
  let ?r = "parse (''get'' @ replicate (100 - length ''get'') nul) (length ''get'') new_parser"
  have "map_option (map_sum id (\<lambda>(q, p, e). (q = None, e))) ?r = Some (Inr (True, Some e_incomplete_start_line))" by code_simp
  then show ?thesis by (cases ?r; cases "the ?r") auto
qed

theorem rejected_request_gets_no_answer_witness:
  "\<exists>v'. after_session 0 demo_protected (conf_of (async_receive_handler (wb_middlewares demo_protected) rev no_error
        (length ''get'') (wb_store demo_protected) (fill_buffer ''get'' demo_session))) = Up v'
    \<and> ws_wire (wb_objects v' ! 0) = [] \<and> \<not> ws_open (wb_objects v' ! 0)"
proof -
  have d: "wb_objects demo_protected = [demo_session]" by (simp add: demo_protected_def)
  have b: "ws_buffer_option demo_session = 100" by (simp add: demo_session_def connect_def new_session_def try_receive_def)
  obtain p where p: "parse (''get'' @ replicate (100 - length ''get'') nul) (length ''get'') new_parser
      = Some (Inr (None, p, Some e_incomplete_start_line))" using demo_rejected by blast
  have s: "0 < length (wb_objects demo_protected)" "started (wb_objects demo_protected ! 0)"
    "wb_objects demo_protected ! 0 = demo_session" using demo_started by (simp_all add: d)
  have q: "parse (''get'' @ replicate (ws_buffer_option (wb_objects demo_protected ! 0) - length ''get'') nul) (length ''get'') new_parser
      = Some (Inr (None, p, Some e_incomplete_start_line))" using p by (simp only: s(3) b)
  have l: "''get'' \<noteq> []" "length ''get'' \<le> ws_buffer_option (wb_objects demo_protected ! 0)" by (simp_all add: s(3) b)
  from rejected_request_gets_no_answer [OF s(1,2) l q, of rev] show ?thesis by (simp only: s(3)) blast
qed

end
